(* ===== verification/Prelude.thy ===== *)
theory Prelude
  imports Main "HOL-Library.Word" "HOL-Library.Monad_Syntax"
begin

text \<open>
  What every component of the model shares: the machine integers and byte strings of the
  Go code, the outcome of a Go call (a value, a returned error or a panic), the
  computations over a mutable state that may fail, panic or not return, the
  little-endian codecs of \<open>encoding/binary\<close>, hexadecimal rendering, and the locale of
  a codec with the laws every encoder/decoder pair of the library obeys.
\<close>

unbundle bit_operations_syntax

named_theorems le_simps "length, decoding and element facts of the little-endian codecs"
named_theorems io_simps "evaluation of computations"
named_theorems io_inv "inversion of a computation that returned"

type_synonym byte = "8 word"
type_synonym u8 = "8 word"
type_synonym u16 = "16 word"
type_synonym u32 = "32 word"
type_synonym u64 = "64 word"
type_synonym bytes = "8 word list"

section \<open>Outcomes and computations\<close>

text \<open>
  A Go call that returns \<open>(v, error)\<close> ends in one of three ways: \<open>Ok v\<close> (the error is
  nil), \<open>Fail e\<close> (a non-nil error) or \<open>Panic\<close> (a run-time panic, which error handling
  code does not see).
\<close>

datatype ('e, 'a) outcome = Ok 'a | Fail 'e | Panic

text \<open>
  A computation over a mutable state \<open>'s\<close>. \<open>None\<close> is "does not return": a loop that
  reads from the port for ever.
\<close>

type_synonym ('s, 'e, 'a) io = "'s \<Rightarrow> (('e, 'a) outcome \<times> 's) option"

definition ret :: "'a \<Rightarrow> ('s, 'e, 'a) io" where
  "ret a s = Some (Ok a, s)"

definition throw :: "'e \<Rightarrow> ('s, 'e, 'a) io" where
  "throw e s = Some (Fail e, s)"

definition panic :: "('s, 'e, 'a) io" where
  "panic s = Some (Panic, s)"

text \<open>\<open>bind_io m k\<close>: the Go idiom \<open>v, err := m(); if err != nil { return err }; k(v)\<close>.\<close>

definition bind_io :: "('s, 'e, 'a) io \<Rightarrow> ('a \<Rightarrow> ('s, 'e, 'b) io) \<Rightarrow> ('s, 'e, 'b) io" where
  "bind_io m k s = Option.bind (m s) (\<lambda>(r, s').
     case r of Ok a \<Rightarrow> k a s' | Fail e \<Rightarrow> Some (Fail e, s') | Panic \<Rightarrow> Some (Panic, s'))"

text \<open>\<open>try_io m k\<close>: the caller inspects the error itself.\<close>

definition try_io :: "('s, 'e, 'a) io \<Rightarrow> ('e + 'a \<Rightarrow> ('s, 'f, 'b) io) \<Rightarrow> ('s, 'f, 'b) io" where
  "try_io m k s = Option.bind (m s) (\<lambda>(r, s').
     case r of Ok a \<Rightarrow> k (Inr a) s' | Fail e \<Rightarrow> k (Inl e) s' | Panic \<Rightarrow> Some (Panic, s'))"

text \<open>\<open>wrap_io f m\<close>: an error of \<open>m\<close> is returned wrapped, as \<open>fmt.Errorf("...: %w", err)\<close>.\<close>

definition wrap_io :: "('e \<Rightarrow> 'f) \<Rightarrow> ('s, 'e, 'a) io \<Rightarrow> ('s, 'f, 'a) io" where
  "wrap_io f m = try_io m (\<lambda>r. case r of Inl e \<Rightarrow> throw (f e) | Inr a \<Rightarrow> ret a)"

text \<open>\<open>ignore_io m\<close>: the result and the error are dropped.\<close>

definition ignore_io :: "('s, 'e, 'a) io \<Rightarrow> ('s, 'e, unit) io" where
  "ignore_io m = try_io m (\<lambda>_. ret ())"

definition get_io :: "('s, 'e, 's) io" where
  "get_io s = Some (Ok s, s)"

definition upd_io :: "('s \<Rightarrow> 's) \<Rightarrow> ('s, 'e, unit) io" where
  "upd_io f s = Some (Ok (), f s)"

lemma ret_apply [simp, io_simps]: "ret a s = Some (Ok a, s)"
  by (simp add: ret_def)

lemma throw_apply [simp, io_simps]: "throw e s = Some (Fail e, s)"
  by (simp add: throw_def)

lemma panic_apply [simp, io_simps]: "panic s = Some (Panic, s)"
  by (simp add: panic_def)

lemma get_io_apply [simp, io_simps]: "get_io s = Some (Ok s, s)"
  by (simp add: get_io_def)

lemma upd_io_apply [simp, io_simps]: "upd_io f s = Some (Ok (), f s)"
  by (simp add: upd_io_def)

text \<open>Forward evaluation, one fact per way the first computation can end.\<close>

lemma bind_io_eval [io_simps]:
  "m s = Some (Ok a, s') \<Longrightarrow> bind_io m k s = k a s'"
  "m s = Some (Fail e, s') \<Longrightarrow> bind_io m k s = Some (Fail e, s')"
  "m s = Some (Panic, s') \<Longrightarrow> bind_io m k s = Some (Panic, s')"
  "m s = None \<Longrightarrow> bind_io m k s = None"
  by (simp_all add: bind_io_def)

lemma try_io_eval [io_simps]:
  "m s = Some (Ok a, s') \<Longrightarrow> try_io m k s = k (Inr a) s'"
  "m s = Some (Fail e, s') \<Longrightarrow> try_io m k s = k (Inl e) s'"
  "m s = Some (Panic, s') \<Longrightarrow> try_io m k s = Some (Panic, s')"
  "m s = None \<Longrightarrow> try_io m k s = None"
  by (simp_all add: try_io_def)

lemma wrap_io_eval [io_simps]:
  "m s = Some (Ok a, s') \<Longrightarrow> wrap_io f m s = Some (Ok a, s')"
  "m s = Some (Fail e, s') \<Longrightarrow> wrap_io f m s = Some (Fail (f e), s')"
  "m s = Some (Panic, s') \<Longrightarrow> wrap_io f m s = Some (Panic, s')"
  by (simp_all add: wrap_io_def try_io_eval)

lemma ignore_io_eval [io_simps]:
  "m s = Some (Ok a, s') \<Longrightarrow> ignore_io m s = Some (Ok (), s')"
  "m s = Some (Fail e, s') \<Longrightarrow> ignore_io m s = Some (Ok (), s')"
  "m s = Some (Panic, s') \<Longrightarrow> ignore_io m s = Some (Panic, s')"
  by (simp_all add: ignore_io_def try_io_eval)

lemma bind_io_ret [simp]: "bind_io (ret a) k = k a"
  by (rule ext) (simp add: bind_io_def)

lemma bind_io_throw [simp]: "bind_io (throw e) k = throw e"
  by (rule ext) (simp add: bind_io_def)

lemma bind_io_upd [simp]: "bind_io (upd_io f) k s = k () (f s)"
  by (simp add: bind_io_def)

lemma bind_io_get [simp]: "bind_io get_io k s = k s s"
  by (simp add: bind_io_def)

text \<open>Inversion: how a composed computation can have returned.\<close>

lemma io_exhaust:
  obtains (None) "m s = None" | (Ok) a s' where "m s = Some (Ok a, s')"
    | (Fail) e s' where "m s = Some (Fail e, s')" | (Panic) s' where "m s = Some (Panic, s')"
proof (cases "m s")
  case (Some p)
  then obtain r s' where "m s = Some (r, s')" by (cases p) auto
  then show ?thesis using that by (cases r) auto
qed (rule that(1))

lemma bind_io_Some:
  assumes "bind_io m k s = Some (r, t)"
  obtains (Ok) a s' where "m s = Some (Ok a, s')" "k a s' = Some (r, t)"
    | (Fail) e where "m s = Some (Fail e, t)" "r = Fail e"
    | (Panic) "m s = Some (Panic, t)" "r = Panic"
  using assms by (cases rule: io_exhaust [of m s]) (simp_all add: bind_io_eval)

lemma try_io_Some:
  assumes "try_io m k s = Some (r, t)"
  obtains (Ok) a s' where "m s = Some (Ok a, s')" "k (Inr a) s' = Some (r, t)"
    | (Fail) e s' where "m s = Some (Fail e, s')" "k (Inl e) s' = Some (r, t)"
    | (Panic) "m s = Some (Panic, t)" "r = Panic"
  using assms by (cases rule: io_exhaust [of m s]) (simp_all add: try_io_eval)

lemma bind_io_Ok [io_inv]:
  "bind_io m k s = Some (Ok b, t) \<longleftrightarrow> (\<exists>a s'. m s = Some (Ok a, s') \<and> k a s' = Some (Ok b, t))"
  by (cases rule: io_exhaust [of m s]) (simp_all add: bind_io_eval)

lemma wrap_io_Ok [io_inv]: "wrap_io f m s = Some (Ok a, t) \<longleftrightarrow> m s = Some (Ok a, t)"
  by (cases rule: io_exhaust [of m s]) (simp_all add: wrap_io_def try_io_eval)

lemma case_throw_Ok [io_inv]:
  "(case x of Inl e \<Rightarrow> throw (f e) | Inr a \<Rightarrow> k a) s = Some (Ok b, t) \<longleftrightarrow> (\<exists>a. x = Inr a \<and> k a s = Some (Ok b, t))"
  by (cases x) simp_all

lemma wrap_io_Some:
  assumes "wrap_io f m s = Some (r, t)"
  obtains r' where "m s = Some (r', t)"
  using assms by (cases rule: io_exhaust [of m s]) (simp_all add: wrap_io_def try_io_eval)

lemma ignore_io_Some:
  assumes "ignore_io m s = Some (r, t)"
  obtains r' where "m s = Some (r', t)"
  using assms by (cases rule: io_exhaust [of m s]) (simp_all add: ignore_io_def try_io_eval)

text \<open>
  The recursive equations of the read loops are monotone in the option order, which is
  what \<^theory_text>\<open>partial_function (option)\<close> asks of a computation built with \<open>bind_io\<close>.
\<close>

lemma bind_io_mono [partial_function_mono]:
  assumes m: "mono_option (\<lambda>f. m f s)"
    and k: "\<And>a t. mono_option (\<lambda>f. k a f t)"
  shows "mono_option (\<lambda>f. bind_io (m f) (\<lambda>a. k a f) s)"
  unfolding bind_io_def
proof (rule bind_mono [OF m])
  fix p
  show "mono_option (\<lambda>f. case p of (r, s') \<Rightarrow>
      (case r of Ok a \<Rightarrow> k a f s' | Fail e \<Rightarrow> Some (Fail e, s') | Panic \<Rightarrow> Some (Panic, s')))"
    by (cases p; cases "fst p") (auto simp: k option.const_mono)
qed

lemma if_io_mono [partial_function_mono]:
  assumes "mono_option (\<lambda>f. m f s)" and "mono_option (\<lambda>f. k f s)"
  shows "mono_option (\<lambda>f. (if c then m f else k f) s)"
  using assms by (cases c) simp_all

lemma option_io_mono [partial_function_mono]:
  assumes "mono_option (\<lambda>f. m f s)" and "\<And>a. mono_option (\<lambda>f. k a f s)"
  shows "mono_option (\<lambda>f. (case x of None \<Rightarrow> m f | Some a \<Rightarrow> k a f) s)"
  using assms by (cases x) simp_all

end
