(* ===== verification/Bytes.thy ===== *)
theory Bytes
  imports Prelude "HOL-Library.Char_ord"
begin

text \<open>
  Byte strings: the little-endian integers of \<open>encoding/binary\<close>, overwriting a slice of
  a buffer, cutting a slice into pieces of one size, Go strings as byte strings, and the
  lower-case hexadecimal of \<open>encoding/hex\<close> and \<open>fmt\<close>. The encoders come with the
  locale \<open>codec\<close> of decoders that invert them.
\<close>

section \<open>Codecs\<close>

text \<open>An encoder with a decoder that inverts it on the valid values.\<close>

locale codec =
  fixes enc :: "'a \<Rightarrow> 'b" and dec :: "'b \<Rightarrow> 'a option" and valid :: "'a \<Rightarrow> bool"
  assumes dec_enc: "valid x \<Longrightarrow> dec (enc x) = Some x"
begin

lemma enc_inject: "valid x \<Longrightarrow> valid y \<Longrightarrow> enc x = enc y \<longleftrightarrow> x = y"
  by (metis dec_enc option.inject)

lemma enc_inj_on: "inj_on enc {x. valid x}"
  by (auto simp: inj_on_def enc_inject)

end

section \<open>Pieces of a slice\<close>

text \<open>The pieces \<open>xs[0:w], xs[w:2*w], ...\<close> of a slice; the last one may be shorter.\<close>

function chunks :: "nat \<Rightarrow> 'a list \<Rightarrow> 'a list list" where
  "chunks w xs = (if w = 0 \<or> xs = [] then [] else take w xs # chunks w (drop w xs))"
  by pat_completeness auto
termination
  by (relation "measure (\<lambda>(w, xs). length xs)") auto

declare chunks.simps [simp del]

lemma chunks_Nil [simp]: "chunks w [] = []"
  by (simp add: chunks.simps)

lemma chunks_step: "0 < w \<Longrightarrow> xs \<noteq> [] \<Longrightarrow> chunks w xs = take w xs # chunks w (drop w xs)"
  by (subst chunks.simps) simp

lemma concat_chunks: "0 < w \<Longrightarrow> concat (chunks w xs) = xs"
proof (induction w xs rule: chunks.induct)
  case (1 w xs)
  then show ?case by (cases "xs = []") (simp_all add: chunks_step)
qed

lemma ceil_div_bound: "0 < w \<Longrightarrow> n \<le> (n + w - 1) div w * w" for n w :: nat
  using div_mult_mod_eq [of "n + w - 1" w] mod_less_divisor [of w "n + w - 1"] by linarith

lemma ceil_div_step:
  fixes n w :: nat
  assumes w: "0 < w" and n: "0 < n"
  shows "(n + w - 1) div w = Suc ((n - w + w - 1) div w)"
proof -
  have "(n - w + w - 1) div w = (n - 1) div w"
  proof (cases "n \<le> w")
    case True
    then have "(n - w + w - 1) div w = 0" and "(n - 1) div w = 0" using w n by auto
    then show ?thesis by (simp only:)
  qed simp
  moreover have "n + w - 1 = n - 1 + w" using n by simp
  then have "(n + w - 1) div w = Suc ((n - 1) div w)" using w by (simp only: div_add_self2)
  ultimately show ?thesis by (simp only:)
qed

lemma length_chunks: "0 < w \<Longrightarrow> length (chunks w xs) = (length xs + w - 1) div w"
proof (induction w xs rule: chunks.induct)
  case (1 w xs)
  show ?case
  proof (cases "xs = []")
    case True
    then show ?thesis using "1.prems" by simp
  next
    case False
    then have "length (chunks w xs) = Suc ((length xs - w + w - 1) div w)"
      using 1 by (simp add: chunks_step)
    also have "\<dots> = (length xs + w - 1) div w"
      using ceil_div_step [OF "1.prems", of "length xs"] False by simp
    finally show ?thesis .
  qed
qed

lemma nth_chunks: "0 < w \<Longrightarrow> i < length (chunks w xs) \<Longrightarrow> chunks w xs ! i = take w (drop (i * w) xs)"
proof (induction w xs arbitrary: i rule: chunks.induct)
  case (1 w xs)
  then have "xs \<noteq> []" by auto
  with 1 show ?case
    by (cases i) (simp_all add: chunks_step drop_drop [symmetric] del: drop_drop, simp_all add: drop_drop add.commute)
qed

lemma chunks_conv_map:
  "0 < w \<Longrightarrow> chunks w xs = map (\<lambda>i. take w (drop (i * w) xs)) [0..<(length xs + w - 1) div w]"
  by (rule nth_equalityI) (simp_all add: length_chunks nth_chunks)

lemma length_chunk_le: "c \<in> set (chunks w xs) \<Longrightarrow> length c \<le> w"
  by (induction w xs rule: chunks.induct) (subst (asm) (2) chunks.simps, auto split: if_splits)

lemma chunks_exact:
  "0 < w \<Longrightarrow> w dvd length xs \<Longrightarrow> c \<in> set (chunks w xs) \<Longrightarrow> length c = w"
proof (induction w xs rule: chunks.induct)
  case (1 w xs)
  then have ne: "xs \<noteq> []" by auto
  then have "w \<le> length xs" using "1.prems"(2) by (auto intro: dvd_imp_le)
  with 1 ne show ?case by (auto simp: chunks_step dvd_diff_nat)
qed

lemma chunks_append: "0 < w \<Longrightarrow> length c = w \<Longrightarrow> chunks w (c @ xs) = c # chunks w xs"
  by (subst chunks_step) auto

lemma chunks_concat: "0 < w \<Longrightarrow> (\<And>c. c \<in> set cs \<Longrightarrow> length c = w) \<Longrightarrow> chunks w (concat cs) = cs"
  by (induction cs) (simp_all add: chunks_append)

section \<open>Little-endian integers\<close>

text \<open>
  \<open>binary.LittleEndian.PutUint16/32/64\<close> as the bytes they store and
  \<open>binary.LittleEndian.Uint16/32\<close> as they read the head of a slice that is long enough.
\<close>

definition le16 :: "u16 \<Rightarrow> bytes" where
  "le16 v = [ucast v, ucast (drop_bit 8 v)]"

definition le32 :: "u32 \<Rightarrow> bytes" where
  "le32 v = [ucast v, ucast (drop_bit 8 v), ucast (drop_bit 16 v), ucast (drop_bit 24 v)]"

definition le64 :: "u64 \<Rightarrow> bytes" where
  "le64 v = map (\<lambda>i. ucast (drop_bit (8 * i) v)) [0..<8]"

definition be32 :: "u32 \<Rightarrow> bytes" where
  "be32 v = [ucast (drop_bit 24 v), ucast (drop_bit 16 v), ucast (drop_bit 8 v), ucast v]"

definition get16 :: "bytes \<Rightarrow> u16" where
  "get16 b = ucast (b ! 0) OR push_bit 8 (ucast (b ! 1))"

definition get32 :: "bytes \<Rightarrow> u32" where
  "get32 b = ucast (b ! 0) OR push_bit 8 (ucast (b ! 1)) OR push_bit 16 (ucast (b ! 2))
     OR push_bit 24 (ucast (b ! 3))"

lemma length_le [simp, le_simps]:
  "length (le16 v) = 2" "length (le32 x) = 4" "length (le64 y) = 8" "length (be32 x) = 4"
  by (simp_all add: le16_def le32_def le64_def be32_def)

lemma get16_le16 [simp, le_simps]: "get16 (le16 v @ xs) = v"
proof (rule bit_word_eqI)
  fix n assume "n < LENGTH(16)"
  then show "bit (get16 (le16 v @ xs)) n \<longleftrightarrow> bit v n"
    by (cases "n < 8") (auto simp: get16_def le16_def bit_simps)
qed

lemma get32_le32 [simp, le_simps]: "get32 (le32 v @ xs) = v"
proof (rule bit_word_eqI)
  fix n assume n: "n < LENGTH(32)"
  consider "n < 8" | "8 \<le> n" "n < 16" | "16 \<le> n" "n < 24" | "24 \<le> n" by linarith
  then show "bit (get32 (le32 v @ xs)) n \<longleftrightarrow> bit v n"
    using n by cases (auto simp: get32_def le32_def bit_simps)
qed

lemma get16_le16' [simp]: "get16 (le16 v) = v" and get32_le32' [simp]: "get32 (le32 w) = w"
  using get16_le16 [of v "[]"] get32_le32 [of w "[]"] by simp_all

lemma le_nonempty [simp]: "le16 v \<noteq> []" "le32 w \<noteq> []"
  by (simp_all add: le16_def le32_def)

interpretation le16: codec le16 "\<lambda>b. Some (get16 b)" "\<lambda>_. True"
  by unfold_locales simp

interpretation le32: codec le32 "\<lambda>b. Some (get32 b)" "\<lambda>_. True"
  by unfold_locales simp

lemma le32_inject [simp]: "le32 v = le32 w \<longleftrightarrow> v = w"
  by (rule le32.enc_inject) simp_all

lemma le16_inject [simp]: "le16 v = le16 w \<longleftrightarrow> v = w"
  by (rule le16.enc_inject) simp_all

section \<open>Overwriting part of a buffer\<close>

text \<open>\<open>copy(b[off:off+len(x)], x)\<close> on a buffer that is long enough.\<close>

definition overwrite :: "nat \<Rightarrow> 'a list \<Rightarrow> 'a list \<Rightarrow> 'a list" where
  "overwrite off x b = take off b @ x @ drop (off + length x) b"

lemma length_overwrite [simp]: "off + length x \<le> length b \<Longrightarrow> length (overwrite off x b) = length b"
  by (simp add: overwrite_def)

lemma overwrite_append:
  "off \<le> length a \<Longrightarrow> off + length x \<le> length a \<Longrightarrow> overwrite off x (a @ b) = overwrite off x a @ b"
  by (simp add: overwrite_def)

lemma overwrite_middle: "length a = off \<Longrightarrow> length x = length y \<Longrightarrow> overwrite off x (a @ y @ b) = a @ x @ b"
  by (simp add: overwrite_def)

lemma take_overwrite_before: "n \<le> off \<Longrightarrow> off \<le> length b \<Longrightarrow> take n (overwrite off x b) = take n b"
  by (simp add: overwrite_def min_def)

lemma drop_overwrite_after:
  "off + length x \<le> n \<Longrightarrow> off + length x \<le> length b \<Longrightarrow> drop n (overwrite off x b) = drop n b"
  by (simp add: overwrite_def)

lemma slice_overwrite:
  "off + length x \<le> length b \<Longrightarrow> take (length x) (drop off (overwrite off x b)) = x"
  by (simp add: overwrite_def)

section \<open>Go strings and hexadecimal\<close>

text \<open>A Go string is a byte sequence; a \<open>char\<close> is one byte.\<close>

definition str_bytes :: "string \<Rightarrow> bytes" where
  "str_bytes = map of_char"

definition bytes_str :: "bytes \<Rightarrow> string" where
  "bytes_str = map (\<lambda>b. char_of (unat b))"

lemma length_str_bytes [simp]: "length (str_bytes s) = length s"
  and length_bytes_str [simp]: "length (bytes_str b) = length b"
  by (simp_all add: str_bytes_def bytes_str_def)

lemma unat_byte: "unat (b :: byte) < 256"
proof -
  have "unat b < 2 ^ LENGTH(8)" by (rule unsigned_less)
  then show ?thesis by simp
qed

lemma of_char_char_of_byte [simp]: "(of_char (char_of (unat b)) :: byte) = b"
proof -
  have "(of_char (char_of (unat b)) :: nat) = unat b"
    using unat_byte [of b] by simp
  then have "(of_nat (of_char (char_of (unat b))) :: byte) = of_nat (unat b)" by (simp only:)
  then show ?thesis by (simp only: of_nat_of_char) simp
qed

lemma char_of_of_char_byte [simp]: "char_of (unat (of_char c :: byte)) = c"
proof -
  have "of_char c < (256::nat)" by simp
  then have "unat (of_nat (of_char c) :: byte) = of_char c" by (simp add: unat_of_nat)
  then have "unat (of_char c :: byte) = of_char c" by (simp only: of_nat_of_char)
  then show ?thesis by simp
qed

lemma str_bytes_inverse [simp]: "str_bytes (bytes_str b) = b"
  by (induction b) (simp_all add: str_bytes_def bytes_str_def)

lemma bytes_str_inverse [simp]: "bytes_str (str_bytes s) = s"
  by (induction s) (simp_all add: str_bytes_def bytes_str_def)

interpretation go_string: codec str_bytes "\<lambda>b. Some (bytes_str b)" "\<lambda>_. True"
  by unfold_locales simp

text \<open>\<open>fmt\<close>'s \<open>%02x\<close> of a byte and \<open>hex.EncodeToString\<close>.\<close>

definition hexDigit :: "nat \<Rightarrow> char" where
  "hexDigit n = ''0123456789abcdef'' ! n"

definition hex2 :: "byte \<Rightarrow> string" where
  "hex2 b = [hexDigit (unat b div 16), hexDigit (unat b mod 16)]"

definition hexEncode :: "bytes \<Rightarrow> string" where
  "hexEncode bs = concat (map hex2 bs)"

fun hexVal :: "char \<Rightarrow> nat" where
  "hexVal c = (let n = of_char c in if 97 \<le> n then n - 87 else n - 48)"

fun hexDecode :: "string \<Rightarrow> bytes option" where
  "hexDecode [] = Some []"
| "hexDecode [c] = None"
| "hexDecode (c # d # s) = map_option (Cons (of_nat (16 * hexVal c + hexVal d))) (hexDecode s)"

lemma hexVal_hexDigit: "n < 16 \<Longrightarrow> hexVal (hexDigit n) = n"
proof -
  have "\<forall>n \<in> set [0..<16]. hexVal (hexDigit n) = n" by code_simp
  then show "n < 16 \<Longrightarrow> hexVal (hexDigit n) = n" by simp
qed

lemma hexDecode_hex2: "hexDecode (hex2 b @ s) = map_option (Cons b) (hexDecode s)"
proof -
  have "unat b < 256" by (rule unat_byte)
  then have "unat b div 16 < 16" and "unat b mod 16 < 16" by auto
  then have "(of_nat (16 * hexVal (hexDigit (unat b div 16)) + hexVal (hexDigit (unat b mod 16))) :: byte) = b"
    by (simp only: hexVal_hexDigit mult_div_mod_eq) simp
  then show ?thesis by (simp add: hex2_def del: hexVal.simps)
qed

lemma hexDecode_hexEncode: "hexDecode (hexEncode bs) = Some bs"
  by (induction bs) (simp_all add: hexEncode_def hexDecode_hex2)

interpretation hex_codec: codec hexEncode hexDecode "\<lambda>_. True"
  by unfold_locales (simp add: hexDecode_hexEncode)

lemma hexEncode_inject [simp]: "hexEncode a = hexEncode b \<longleftrightarrow> a = b"
  by (rule hex_codec.enc_inject) simp_all

lemma length_hexEncode [simp]: "length (hexEncode bs) = 2 * length bs"
  by (induction bs) (simp_all add: hexEncode_def hex2_def)

lemma hexEncode_append: "hexEncode (a @ b) = hexEncode a @ hexEncode b"
  by (simp add: hexEncode_def)

text \<open>\<open>fmt\<close>'s \<open>%d\<close> of a natural number.\<close>

fun showNat :: "nat \<Rightarrow> string" where
  "showNat n = (if n < 10 then [hexDigit n] else showNat (n div 10) @ [hexDigit (n mod 10)])"

declare showNat.simps [simp del]

text \<open>\<open>strings.ToLower\<close> on the ASCII letters.\<close>

definition lowerChar :: "char \<Rightarrow> char" where
  "lowerChar c = (if CHR ''A'' \<le> c \<and> c \<le> CHR ''Z'' then char_of ((of_char c :: nat) + 32) else c)"

definition toLower :: "string \<Rightarrow> string" where
  "toLower s = map lowerChar s"

lemma lowerChar_hexDigit: "n < 16 \<Longrightarrow> lowerChar (hexDigit n) = hexDigit n"
proof -
  have "\<forall>n \<in> set [0..<16]. lowerChar (hexDigit n) = hexDigit n" by code_simp
  then show "n < 16 \<Longrightarrow> lowerChar (hexDigit n) = hexDigit n" by simp
qed

lemma toLower_hexEncode [simp]: "toLower (hexEncode bs) = hexEncode bs"
proof -
  have "toLower (hex2 b) = hex2 b" for b
    using unat_byte [of b] by (simp add: toLower_def hex2_def lowerChar_hexDigit)
  then show ?thesis by (induction bs) (simp_all add: hexEncode_def toLower_def)
qed

text \<open>A C string: the bytes before the first NUL.\<close>

lemma takeWhile_key: "CHR 0x00 \<notin> set key \<Longrightarrow> takeWhile (\<lambda>b. b \<noteq> 0) (str_bytes key @ replicate n 0) = str_bytes key"
proof (induction key)
  case Nil
  then show ?case by (cases n) (simp_all add: str_bytes_def)
next
  case (Cons c key)
  have "(of_char c :: byte) \<noteq> 0"
  proof
    assume "(of_char c :: byte) = 0"
    moreover have "c = char_of (unat (of_char c :: byte))" by simp
    ultimately have "c = char_of (unat (0 :: byte))" by (simp only:)
    then have "c = CHR 0x00" by (simp add: char_of_def)
    then show False using Cons.prems by simp
  qed
  then show ?case using Cons by (simp add: str_bytes_def)
qed

end
