(* ===== verification/Slip.thy ===== *)
theory Slip
  imports Bytes
begin

text \<open>
  SLIP framing (\<open>esp/slip.go\<close>): the encoder of the code, and as its specification the
  receiver of RFC 1055, which cuts the line at the delimiters and undoes the escapes.
\<close>

section \<open>The encoder\<close>

definition slipEnd :: byte where "slipEnd = 0xC0"
definition slipEsc :: byte where "slipEsc = 0xDB"
definition slipEscEnd :: byte where "slipEscEnd = 0xDC"
definition slipEscEsc :: byte where "slipEscEsc = 0xDD"

lemmas slip_consts = slipEnd_def slipEsc_def slipEscEnd_def slipEscEsc_def

text \<open>The body of the loop: what one payload byte appends to \<open>out\<close>.\<close>

definition slipEscape :: "byte \<Rightarrow> bytes" where
  "slipEscape b =
     (if b = slipEnd then [slipEsc, slipEscEnd]
      else if b = slipEsc then [slipEsc, slipEscEsc]
      else [b])"

definition slipEncode :: "bytes \<Rightarrow> bytes" where
  "slipEncode payload = foldl (\<lambda>out b. out @ slipEscape b) [slipEnd] payload @ [slipEnd]"

definition slipBody :: "bytes \<Rightarrow> bytes" where
  "slipBody payload = concat (map slipEscape payload)"

lemma slipBody_simps [simp]:
  "slipBody [] = []" "slipBody (b # bs) = slipEscape b @ slipBody bs"
  "slipBody (xs @ ys) = slipBody xs @ slipBody ys"
  by (simp_all add: slipBody_def)

lemma slipEncode_conv: "slipEncode p = slipEnd # slipBody p @ [slipEnd]"
proof -
  have "foldl (\<lambda>out b. out @ slipEscape b) xs p = xs @ slipBody p" for xs
    by (induction p arbitrary: xs) simp_all
  then show ?thesis by (simp add: slipEncode_def)
qed

lemma slip_distinct [simp]:
  "slipEnd \<noteq> slipEsc" "slipEsc \<noteq> slipEnd" "slipEscEnd \<noteq> slipEnd" "slipEscEsc \<noteq> slipEnd"
  "slipEscEnd \<noteq> slipEscEsc" "slipEscEsc \<noteq> slipEscEnd" "slipEnd \<noteq> slipEscEnd" "slipEnd \<noteq> slipEscEsc"
  by (simp_all add: slip_consts)

lemma slipEnd_notin_escape [simp]: "slipEnd \<notin> set (slipEscape b)"
  by (simp add: slipEscape_def)

lemma slipEscape_nonempty [simp]: "slipEscape b \<noteq> []"
  by (simp add: slipEscape_def)

lemma slipEnd_notin_body [simp]: "slipEnd \<notin> set (slipBody p)"
  by (induction p) simp_all

lemma slipBody_eq_Nil [simp]: "slipBody p = [] \<longleftrightarrow> p = []"
  by (cases p) simp_all

lemma length_slipBody: "length p \<le> length (slipBody p) \<and> length (slipBody p) \<le> 2 * length p"
  by (induction p) (simp_all add: slipEscape_def)

section \<open>The receiver of RFC 1055\<close>

text \<open>Undoing the escapes between two delimiters; \<open>None\<close> for an escape the code rejects.\<close>

fun unslip :: "bytes \<Rightarrow> bytes option" where
  "unslip [] = Some []"
| "unslip (b # bs) =
     (if b = slipEsc then
        (case bs of [] \<Rightarrow> None
         | c # cs \<Rightarrow>
             if c = slipEscEnd then map_option (Cons slipEnd) (unslip cs)
             else if c = slipEscEsc then map_option (Cons slipEsc) (unslip cs)
             else None)
      else map_option (Cons b) (unslip bs))"

text \<open>The frames of a line, \<open>acc\<close> being what arrived since the last delimiter.\<close>

fun deframe :: "bytes \<Rightarrow> bytes \<Rightarrow> bytes list" where
  "deframe acc [] = []"
| "deframe acc (b # bs) =
     (if b = slipEnd then
        (case unslip acc of None \<Rightarrow> [] | Some p \<Rightarrow> if p = [] then [] else [p]) @ deframe [] bs
      else deframe (acc @ [b]) bs)"

definition wireFrames :: "bytes \<Rightarrow> bytes list" where
  "wireFrames line = deframe [] line"

lemma unslip_escape: "unslip (slipEscape b @ bs) = map_option (Cons b) (unslip bs)"
  by (auto simp: slipEscape_def)

lemma unslip_slipBody: "unslip (slipBody p) = Some p"
  by (induction p) (simp_all add: unslip_escape)

interpretation slip_body: codec slipBody unslip "\<lambda>_. True"
  by unfold_locales (simp add: unslip_slipBody)

text \<open>A cut body decodes to a prefix of the payload, or ends inside an escape.\<close>

lemma unslip_take_slipBody:
  "unslip (take m (slipBody p)) = None \<or> (\<exists>j\<le>length p. unslip (take m (slipBody p)) = Some (take j p))"
proof (induction p arbitrary: m)
  case (Cons b p)
  show ?case
  proof (cases "length (slipEscape b) \<le> m")
    case True
    then have eq: "unslip (take m (slipBody (b # p)))
        = map_option (Cons b) (unslip (take (m - length (slipEscape b)) (slipBody p)))"
      by (simp add: unslip_escape)
    from Cons.IH [of "m - length (slipEscape b)"] show ?thesis
    proof
      assume "\<exists>j\<le>length p. unslip (take (m - length (slipEscape b)) (slipBody p)) = Some (take j p)"
      then obtain j where "j \<le> length p"
        "unslip (take (m - length (slipEscape b)) (slipBody p)) = Some (take j p)" by blast
      then show ?thesis unfolding eq by (intro disjI2 exI [of _ "Suc j"]) simp
    next
      assume "unslip (take (m - length (slipEscape b)) (slipBody p)) = None"
      then show ?thesis unfolding eq by simp
    qed
  next
    case False
    then have m: "m = 0 \<or> m = 1 \<and> slipEscape b \<noteq> [b]"
      by (auto simp: slipEscape_def split: if_splits)
    then show ?thesis
      by (auto simp: slipEscape_def intro!: exI [of _ 0])
  qed
qed simp

lemma deframe_append_notin: "slipEnd \<notin> set xs \<Longrightarrow> deframe acc (xs @ ys) = deframe (acc @ xs) ys"
  by (induction xs arbitrary: acc) auto

text \<open>Whatever was cut off before it, a frame is received; then the line is clean again.\<close>

definition closed :: "bytes \<Rightarrow> bytes list" where
  "closed acc = (case unslip acc of None \<Rightarrow> [] | Some p \<Rightarrow> if p = [] then [] else [p])"

lemma closed_Nil [simp]: "closed [] = []"
  by (simp add: closed_def)

lemma deframe_End: "deframe acc (slipEnd # bs) = closed acc @ deframe [] bs"
  by (simp add: closed_def)

lemma deframe_slipEncode:
  "p \<noteq> [] \<Longrightarrow> deframe acc (slipEncode p @ bs) = closed acc @ p # wireFrames bs"
  by (simp add: slipEncode_conv deframe_End deframe_append_notin wireFrames_def closed_def
      unslip_slipBody del: deframe.simps)

lemma wireFrames_slipEncode [simp]: "p \<noteq> [] \<Longrightarrow> wireFrames (slipEncode p @ bs) = p # wireFrames bs"
  by (simp add: wireFrames_def deframe_slipEncode [unfolded wireFrames_def])

lemma wireFrames_Nil [simp]: "wireFrames [] = []"
  by (simp add: wireFrames_def)

lemma wireFrames_concat: "[] \<notin> set ps \<Longrightarrow> wireFrames (concat (map slipEncode ps) @ bs) = ps @ wireFrames bs"
  by (induction ps) auto

text \<open>
  A frame cut off after \<open>k\<close> bytes, followed by a whole frame: the receiver sees at most a
  prefix of the first packet, and then the second.
\<close>

lemma wireFrames_cut:
  assumes "q \<noteq> []"
  obtains j where "wireFrames (take k (slipEncode p) @ slipEncode q @ bs)
      = (if j = 0 \<or> p = [] then [] else [take j p]) @ q # wireFrames bs"
proof (cases k)
  case 0
  then show ?thesis using that [of 0] assms by simp
next
  case (Suc m)
  show ?thesis
  proof (cases "m \<le> length (slipBody p)")
    case True
    then have cut: "take k (slipEncode p) = slipEnd # take m (slipBody p)"
      using Suc by (simp add: slipEncode_conv)
    have "slipEnd \<notin> set (take m (slipBody p))"
      by (meson in_set_takeD slipEnd_notin_body)
    then have eq: "wireFrames (take k (slipEncode p) @ slipEncode q @ bs)
        = closed (take m (slipBody p)) @ q # wireFrames bs"
      unfolding cut wireFrames_def
      by (simp add: deframe_End deframe_append_notin deframe_slipEncode [OF assms, unfolded wireFrames_def]
          del: deframe.simps)
    from unslip_take_slipBody [of m p] show ?thesis
    proof
      assume "unslip (take m (slipBody p)) = None"
      then show ?thesis using that [of 0] eq by (simp add: closed_def)
    next
      assume "\<exists>j\<le>length p. unslip (take m (slipBody p)) = Some (take j p)"
      then obtain j where "unslip (take m (slipBody p)) = Some (take j p)" by blast
      then show ?thesis using that [of j] eq by (simp add: closed_def)
    qed
  next
    case False
    then have "take k (slipEncode p) = slipEncode p"
      using Suc by (simp add: slipEncode_conv)
    then have eq: "wireFrames (take k (slipEncode p) @ slipEncode q @ bs)
        = wireFrames (slipEncode p @ slipEncode q @ bs)" by simp
    show ?thesis
    proof (cases "p = []")
      case True
      then have "wireFrames (slipEncode p @ slipEncode q @ bs) = wireFrames (slipEncode q @ bs)"
        by (simp add: wireFrames_def slipEncode_conv [of "[]"])
      then show ?thesis using that [of 0] eq assms by simp
    next
      case False
      then show ?thesis using that [of "length p"] eq assms by simp
    qed
  qed
qed

end
