(* ===== verification/Protocol.thy ===== *)
theory Protocol
  imports Bytes
begin

text \<open>
  The packets of the bootloader protocol (\<open>esp/protocol.go\<close>): opcodes, the data checksum,
  the request header, the parser of replies and the status trailer. The specification side
  is the format of the two kinds of packet as the chip reads and writes them.
\<close>

section \<open>Opcodes and errors\<close>

definition cmdFlashBegin :: byte where "cmdFlashBegin = 0x02"
definition cmdFlashData :: byte where "cmdFlashData = 0x03"
definition cmdFlashEnd :: byte where "cmdFlashEnd = 0x04"
definition cmdMemBegin :: byte where "cmdMemBegin = 0x05"
definition cmdMemEnd :: byte where "cmdMemEnd = 0x06"
definition cmdMemData :: byte where "cmdMemData = 0x07"
definition cmdSync :: byte where "cmdSync = 0x08"
definition cmdReadReg :: byte where "cmdReadReg = 0x0A"
definition cmdSpiSetParams :: byte where "cmdSpiSetParams = 0x0B"
definition cmdSpiAttach :: byte where "cmdSpiAttach = 0x0D"
definition cmdChangeBaudrate :: byte where "cmdChangeBaudrate = 0x0F"
definition cmdFlashDeflBegin :: byte where "cmdFlashDeflBegin = 0x10"
definition cmdFlashDeflData :: byte where "cmdFlashDeflData = 0x11"
definition cmdSpiFlashMD5 :: byte where "cmdSpiFlashMD5 = 0x13"
definition cmdGetSecurityInfo :: byte where "cmdGetSecurityInfo = 0x14"
definition cmdEraseFlash :: byte where "cmdEraseFlash = 0xD0"
definition cmdEraseRegion :: byte where "cmdEraseRegion = 0xD1"
definition cmdReadFlash :: byte where "cmdReadFlash = 0xD2"

lemmas cmd_defs = cmdFlashBegin_def cmdFlashData_def cmdFlashEnd_def cmdMemBegin_def cmdMemEnd_def
  cmdMemData_def cmdSync_def cmdReadReg_def cmdSpiSetParams_def cmdSpiAttach_def
  cmdChangeBaudrate_def cmdFlashDeflBegin_def cmdFlashDeflData_def cmdSpiFlashMD5_def
  cmdGetSecurityInfo_def cmdEraseFlash_def cmdEraseRegion_def cmdReadFlash_def

text \<open>
  The errors package \<open>esp\<close> returns. \<open>External\<close> is an error of code the package calls (the
  serial port, the context, the JSON decoder); the constructors that take an \<open>err\<close> are
  the \<open>fmt.Errorf("...: %w", err)\<close> of the source.
\<close>

datatype err =
    ErrTimeout | External string
  | BadSlipEscape byte | ShortWrite
  | CmdError byte byte
  | FailedToSync
  | DetectChip err | UnsupportedChip u32
  | SecurityInfoTooShort nat
  | ShortMD5 nat
  | FlashBeginAt u32 err | FlashDataAt nat u32 err
  | FlashDeflBeginAt u32 err | FlashDeflDataAt nat u32 err
  | MD5At u32 err | MD5Mismatch u32 string string
  | CorruptBase64 nat
  | DecodeStubText err | DecodeStubData err | UploadStubText err | UploadStubData err
  | WaitingOHAI err | NoOHAI
  | EraseNeedsStub | ReadNeedsStub | ReadMD5Mismatch

section \<open>Requests\<close>

definition checksumMagic :: byte where "checksumMagic = 0xEF"

definition checksum :: "bytes \<Rightarrow> u32" where
  "checksum data = ucast (foldl (\<lambda>c b. c XOR b) checksumMagic data)"

definition encodeCommand :: "byte \<Rightarrow> bytes \<Rightarrow> u32 \<Rightarrow> bytes" where
  "encodeCommand cmd data chk =
     (let pkt = replicate (8 + length data) 0;
          pkt = pkt[0 := 0x00];
          pkt = pkt[1 := cmd];
          pkt = overwrite 2 (le16 (of_nat (length data))) pkt;
          pkt = overwrite 4 (le32 chk) pkt;
          pkt = overwrite 8 data pkt
      in pkt)"

lemma encodeCommand_conv:
  "encodeCommand cmd data chk = [0x00, cmd] @ le16 (of_nat (length data)) @ le32 chk @ data"
proof -
  have "replicate (8 + length data) (0::byte) = [0,0,0,0,0,0,0,0] @ replicate (length data) 0"
    by (simp add: replicate_add numeral_eq_Suc)
  then show ?thesis
    by (simp add: encodeCommand_def overwrite_def le16_def le32_def)
qed

lemma encodeCommand_nonempty [simp]: "encodeCommand c d k \<noteq> []"
  by (simp add: encodeCommand_conv)

lemma length_encodeCommand [simp]: "length (encodeCommand c d k) = 8 + length d"
  by (simp add: encodeCommand_conv)

text \<open>The checksum is one XOR of all bytes, so it sees every change of a single byte.\<close>

definition xorBytes :: "bytes \<Rightarrow> byte" where
  "xorBytes bs = foldr (XOR) bs 0"

lemma foldl_xor: "foldl (\<lambda>c b. c XOR b) c bs = c XOR xorBytes bs"
  by (induction bs arbitrary: c) (simp_all add: xorBytes_def xor.assoc)

lemma checksum_conv: "checksum data = ucast (checksumMagic XOR xorBytes data)"
  by (simp add: checksum_def foldl_xor)

lemma xorBytes_simps [simp]: "xorBytes [] = 0" "xorBytes (b # bs) = b XOR xorBytes bs"
  by (simp_all add: xorBytes_def)

lemma xorBytes_append [simp]: "xorBytes (xs @ ys) = xorBytes xs XOR xorBytes ys"
  by (induction xs) (simp_all add: xor.assoc)

lemma ucast_byte_u32_inject [simp]: "(ucast a :: u32) = ucast b \<longleftrightarrow> a = (b :: byte)"
proof
  assume eq: "(ucast a :: u32) = ucast b"
  show "a = b"
  proof (rule bit_word_eqI)
    fix n assume "n < LENGTH(8)"
    moreover have "bit (ucast a :: u32) n \<longleftrightarrow> bit (ucast b :: u32) n" by (simp only: eq)
    ultimately show "bit a n \<longleftrightarrow> bit b n" by (simp add: bit_simps)
  qed
qed simp

lemma xor_left_cancel: "a XOR b = a XOR c \<longleftrightarrow> b = (c :: 'a :: len word)"
  by (metis xor.left_commute xor.right_neutral xor_self_eq)

lemma xor_right_cancel: "b XOR a = c XOR a \<longleftrightarrow> b = (c :: 'a :: len word)"
  by (metis xor.commute xor_left_cancel)

section \<open>Replies\<close>

record response =
  r_cmd :: byte
  r_value :: u32
  r_data :: bytes

definition parseResponse :: "bytes \<Rightarrow> response option" where
  "parseResponse frame =
     (if length frame < 8 \<or> frame ! 0 \<noteq> 0x01 then None
      else
        let size = unat (get16 (drop 2 frame)) in
        if length frame < 8 + size then None
        else Some \<lparr>r_cmd = frame ! 1,
                   r_value = get32 (drop 4 frame),
                   r_data = take size (drop 8 frame)\<rparr>)"

text \<open>\<open>status\<close> gives \<open>(ok, errCode)\<close>; \<open>payload\<close> gives nil where the trailer is missing.\<close>

definition trailerLen :: "bool \<Rightarrow> nat" where
  "trailerLen stub = (if stub then 2 else 4)"

definition status :: "response \<Rightarrow> bool \<Rightarrow> bool \<times> byte" where
  "status r stub =
     (let n = trailerLen stub in
      if length (r_data r) < n then (False, 0xFF)
      else let tail = drop (length (r_data r) - n) (r_data r) in (tail ! 0 = 0, tail ! 1))"

definition payload :: "response \<Rightarrow> bool \<Rightarrow> bytes" where
  "payload r stub =
     (let n = trailerLen stub in
      if length (r_data r) < n then []
      else take (length (r_data r) - n) (r_data r))"

section \<open>The formats as the chip sees them\<close>

text \<open>The reply a chip sends: direction 1, opcode, size, value, payload and trailer.\<close>

definition replyPacket :: "byte \<Rightarrow> u32 \<Rightarrow> bytes \<Rightarrow> bytes" where
  "replyPacket c v d = [0x01, c] @ le16 (of_nat (length d)) @ le32 v @ d"

definition trailer :: "bool \<Rightarrow> byte \<Rightarrow> byte \<Rightarrow> bytes" where
  "trailer stub st ec = [st, ec] @ (if stub then [] else [0, 0])"

text \<open>The request a chip accepts: direction 0, and a size field that fits the packet.\<close>

definition parseRequest :: "bytes \<Rightarrow> (byte \<times> bytes \<times> u32) option" where
  "parseRequest pkt =
     (if length pkt < 8 \<or> pkt ! 0 \<noteq> 0 \<or> unat (get16 (drop 2 pkt)) \<noteq> length pkt - 8 then None
      else Some (pkt ! 1, drop 8 pkt, get32 (drop 4 pkt)))"

lemma unat_of_nat16: "n < 65536 \<Longrightarrow> unat (of_nat n :: u16) = n"
  by (simp add: unat_of_nat)

lemma parseResponse_replyPacket:
  "length d < 65536 \<Longrightarrow>
   parseResponse (replyPacket c v d @ junk) = Some \<lparr>r_cmd = c, r_value = v, r_data = d\<rparr>"
  by (simp add: parseResponse_def replyPacket_def unat_of_nat16 Let_def)

lemma parseRequest_encodeCommand:
  "length d < 65536 \<Longrightarrow> parseRequest (encodeCommand c d k) = Some (c, d, k)"
  by (simp add: parseRequest_def encodeCommand_conv unat_of_nat16)

interpretation reply: codec "\<lambda>r. replyPacket (r_cmd r) (r_value r) (r_data r)" parseResponse
  "\<lambda>r. length (r_data r) < 65536"
  using parseResponse_replyPacket [where junk = "[]"] by unfold_locales simp

interpretation request: codec "\<lambda>(c, d, k). encodeCommand c d k" parseRequest
  "\<lambda>(c, d, k). length d < 65536"
  by unfold_locales (auto simp: parseRequest_encodeCommand)

text \<open>A request cut short is not a request: its size field still counts the lost bytes.\<close>

lemma parseRequest_cut:
  assumes "length d < 65536" and "j < 8 + length d"
  shows "parseRequest (take j (encodeCommand c d k)) = None"
proof (cases "j < 8")
  case True
  then show ?thesis by (simp add: parseRequest_def)
next
  case False
  define h where "h = [0x00, c] @ le16 (of_nat (length d)) @ le32 k"
  have "encodeCommand c d k = h @ d" and "length h = 8" by (simp_all add: encodeCommand_conv h_def)
  then have "take j (encodeCommand c d k) = h @ take (j - 8) d" using False by simp
  then show ?thesis unfolding h_def
    using assms False by (auto simp: parseRequest_def unat_of_nat16)
qed

lemma length_trailer [simp]: "length (trailer stub s e) = trailerLen stub"
  by (simp add: trailer_def trailerLen_def)

lemma status_trailer: "r_data r = p @ trailer stub s e \<Longrightarrow> status r stub = (s = 0, e)"
  by (simp add: status_def trailer_def trailerLen_def Let_def)

lemma payload_trailer: "r_data r = p @ trailer stub s e \<Longrightarrow> payload r stub = p"
  by (simp add: payload_def Let_def)

lemma status_ok_split:
  assumes "status r stub = (True, e)"
  obtains t where "r_data r = payload r stub @ t" "length t = trailerLen stub" "t ! 0 = 0"
proof -
  from assms have n: "trailerLen stub \<le> length (r_data r)"
    and z: "drop (length (r_data r) - trailerLen stub) (r_data r) ! 0 = 0"
    by (auto simp: status_def Let_def split: if_splits)
  show ?thesis
    by (rule that [OF _ _ z]) (use n in \<open>simp_all add: payload_def Let_def\<close>)
qed

end
