(* ===== verification/Chip.thy ===== *)
theory Chip
  imports Protocol
begin

text \<open>
  The registry of supported targets (\<open>esp/chip.go\<close>). The \<open>stub\<close> field of the Go struct
  holds the bytes of an embedded file; here it names the file, and the decoder of the
  file is a parameter of \<open>RunStub\<close>.
\<close>

datatype stubFile = StubS3JSON | StubC6JSON

record chip =
  chipID :: u32
  chipName :: string
  MACEfuseReg :: u32
  UniversalMACs :: int
  stubJSON :: stubFile

definition ChipIDESP32S3 :: u32 where "ChipIDESP32S3 = 9"
definition ChipIDESP32C6 :: u32 where "ChipIDESP32C6 = 13"

definition chips :: "u32 \<rightharpoonup> chip" where
  "chips =
     [ChipIDESP32S3 \<mapsto> \<lparr>chipID = ChipIDESP32S3, chipName = ''esp32s3'', MACEfuseReg = 0x60007044,
                       UniversalMACs = 2, stubJSON = StubS3JSON\<rparr>,
      ChipIDESP32C6 \<mapsto> \<lparr>chipID = ChipIDESP32C6, chipName = ''esp32c6'', MACEfuseReg = 0x600B0844,
                       UniversalMACs = 4, stubJSON = StubC6JSON\<rparr>]"

definition ChipName :: "u32 \<Rightarrow> string" where
  "ChipName cid = (case chips cid of Some c \<Rightarrow> chipName c | None \<Rightarrow> ''unknown'')"

lemma chips_cases:
  assumes "chips cid = Some c"
  obtains (S3) "cid = 9" "chipID c = 9" "chipName c = ''esp32s3''" "MACEfuseReg c = 0x60007044" "UniversalMACs c = 2"
      "stubJSON c = StubS3JSON"
    | (C6) "cid = 13" "chipID c = 13" "chipName c = ''esp32c6''" "MACEfuseReg c = 0x600B0844" "UniversalMACs c = 4"
      "stubJSON c = StubC6JSON"
  using assms by (auto simp: chips_def ChipIDESP32S3_def ChipIDESP32C6_def split: if_splits)

text \<open>The registry is keyed by the id its entries carry.\<close>

lemma chips_ID: "chips cid = Some c \<Longrightarrow> chipID c = cid"
  by (erule chips_cases) simp_all

end
