(* ===== verification/Transport.thy ===== *)
theory Transport
  imports Slip Chip
begin

text \<open>
  The byte channel to the chip (the \<open>Transport\<close> interface of \<open>esp/transport.go\<close>) and the
  state of a \<open>Loader\<close> (\<open>esp/loader.go\<close>).

  Whatever implements the interface (a serial port, a network bridge, a test double) is
  outside the program, and so are the clock and the cancellation of a context: they are
  the record \<open>env\<close> of operations over a state \<open>'d\<close> the program does not see. The
  definitions of the library take it as an argument, so that every theorem holds for every
  implementation. The loader's state carries, next to the fields of the Go struct, that
  hidden state and a ghost log of the calls the program made, in order, with what was
  transferred: the theorems about the line speak of this log.
\<close>

section \<open>The environment\<close>

type_synonym duration = int  \<comment> \<open>nanoseconds, as \<open>time.Duration\<close>\<close>

definition millisecond :: duration where "millisecond = 1000000"
definition second :: duration where "second = 1000 * millisecond"

record 'd env =
  t_read :: "nat \<Rightarrow> 'd \<Rightarrow> (bytes \<times> err option) \<times> 'd"
  t_write :: "bytes \<Rightarrow> 'd \<Rightarrow> (int \<times> err option) \<times> 'd"
  t_close :: "'d \<Rightarrow> err option \<times> 'd"
  t_setBaud :: "int \<Rightarrow> 'd \<Rightarrow> err option \<times> 'd"
  t_setDTR :: "bool \<Rightarrow> 'd \<Rightarrow> err option \<times> 'd"
  t_setRTS :: "bool \<Rightarrow> 'd \<Rightarrow> err option \<times> 'd"
  t_setReadTimeout :: "duration \<Rightarrow> 'd \<Rightarrow> err option \<times> 'd"
  t_flushInput :: "'d \<Rightarrow> err option \<times> 'd"
  time_now :: "'d \<Rightarrow> int \<times> 'd"
  time_sleep :: "duration \<Rightarrow> 'd \<Rightarrow> 'd"
  ctx_err :: "'d \<Rightarrow> err option \<times> 'd"

datatype event =
    EvRead bytes | EvWrite bytes
  | EvSetBaud int | EvSetDTR bool | EvSetRTS bool | EvSetReadTimeout duration
  | EvFlushInput | EvSleep duration | EvClose
  | EvProgress int int | EvOut bytes

section \<open>The loader\<close>

record 'd loader =
  dev :: 'd
  evs :: "event list"
  stub :: bool
  curBaud :: int
  chip_of :: "chip option"

type_synonym ('d, 'a) esp = "('d loader, err, 'a) io"

definition ROMBaud :: int where "ROMBaud = 115200"

definition NewLoader :: "'d \<Rightarrow> 'd loader" where
  "NewLoader t = \<lparr>dev = t, evs = [], stub = False, curBaud = ROMBaud, chip_of = None\<rparr>"

text \<open>One call to the outside: the hidden state moves on and the call is logged.\<close>

definition logged :: "event list \<Rightarrow> 'd \<Rightarrow> 'd loader \<Rightarrow> 'd loader" where
  "logged es d l = l\<lparr>dev := d, evs := evs l @ es\<rparr>"

definition call :: "event \<Rightarrow> ('d \<Rightarrow> err option \<times> 'd) \<Rightarrow> ('d, unit) esp" where
  "call e f l = (let (x, d) = f (dev l) in
     Some (case x of None \<Rightarrow> Ok () | Some er \<Rightarrow> Fail er, logged [e] d l))"

definition setBaud :: "'d env \<Rightarrow> int \<Rightarrow> ('d, unit) esp" where
  "setBaud E b = call (EvSetBaud b) (t_setBaud E b)"

definition setDTR :: "'d env \<Rightarrow> bool \<Rightarrow> ('d, unit) esp" where
  "setDTR E v = call (EvSetDTR v) (t_setDTR E v)"

definition setRTS :: "'d env \<Rightarrow> bool \<Rightarrow> ('d, unit) esp" where
  "setRTS E v = call (EvSetRTS v) (t_setRTS E v)"

definition setReadTimeout :: "'d env \<Rightarrow> duration \<Rightarrow> ('d, unit) esp" where
  "setReadTimeout E t = call (EvSetReadTimeout t) (t_setReadTimeout E t)"

definition flushInput :: "'d env \<Rightarrow> ('d, unit) esp" where
  "flushInput E = call EvFlushInput (t_flushInput E)"

definition Close :: "'d env \<Rightarrow> ('d, unit) esp" where
  "Close E = call EvClose (t_close E)"

definition sleep :: "'d env \<Rightarrow> duration \<Rightarrow> ('d, unit) esp" where
  "sleep E t l = Some (Ok (), logged [EvSleep t] (time_sleep E t (dev l)) l)"

definition now :: "'d env \<Rightarrow> ('d, int) esp" where
  "now E l = (let (t, d) = time_now E (dev l) in Some (Ok t, logged [] d l))"

definition ctxErr :: "'d env \<Rightarrow> ('d, unit) esp" where
  "ctxErr E l = (let (x, d) = ctx_err E (dev l) in
     Some (case x of None \<Rightarrow> Ok () | Some er \<Rightarrow> Fail er, logged [] d l))"

text \<open>\<open>progress\<close> callbacks: the flag says that the caller passed one.\<close>

definition progress :: "bool \<Rightarrow> int \<Rightarrow> int \<Rightarrow> ('d, unit) esp" where
  "progress given n m =
     (if given then upd_io (\<lambda>l. logged [EvProgress n m] (dev l) l) else ret ())"

lemma logged_simps [simp]:
  "dev (logged es d l) = d" "evs (logged es d l) = evs l @ es" "stub (logged es d l) = stub l"
  "curBaud (logged es d l) = curBaud l" "chip_of (logged es d l) = chip_of l"
  by (simp_all add: logged_def)

lemmas prim_defs = call_def setBaud_def setDTR_def setRTS_def setReadTimeout_def flushInput_def
  Close_def sleep_def now_def ctxErr_def progress_def

section \<open>What the log says about the line\<close>

definition writtenBy :: "event list \<Rightarrow> bytes" where
  "writtenBy es = concat (map (\<lambda>e. case e of EvWrite bs \<Rightarrow> bs | _ \<Rightarrow> []) es)"

text \<open>All bytes the port has accepted so far.\<close>

definition sent :: "'d loader \<Rightarrow> bytes" where
  "sent l = writtenBy (evs l)"

lemma writtenBy_simps [simp]:
  "writtenBy [] = []" "writtenBy (xs @ ys) = writtenBy xs @ writtenBy ys"
  "writtenBy (e # es) = (case e of EvWrite bs \<Rightarrow> bs | _ \<Rightarrow> []) @ writtenBy es"
  by (simp_all add: writtenBy_def)

lemma sent_logged [simp]: "sent (logged es d l) = sent l @ writtenBy es"
  by (simp add: sent_def)

lemma sent_update [simp]:
  "sent (l\<lparr>stub := b\<rparr>) = sent l" "sent (l\<lparr>curBaud := n\<rparr>) = sent l" "sent (l\<lparr>chip_of := c\<rparr>) = sent l"
  by (simp_all add: sent_def)

end
