(* ===== verification/Loader.thy ===== *)
theory Loader
  imports Transport Protocol
begin

text \<open>
  The loader (\<open>esp/loader.go\<close>): reading and writing frames, request and reply, reset and
  synchronisation, registers and the detection of the target.

  The two read loops and the loop that waits for a reply run until the port says so, and
  are \<^theory_text>\<open>partial_function (option)\<close>: \<open>None\<close> is a call that never returns. The loop over
  partial writes always ends, and is a total function.
\<close>

section \<open>Frames\<close>

definition readByte :: "'d env \<Rightarrow> ('d, byte) esp" where
  "readByte E l = (let ((bs, x), d) = t_read E 1 (dev l) in
     Some (case x of Some er \<Rightarrow> Fail er
           | None \<Rightarrow> (case bs of [] \<Rightarrow> Fail ErrTimeout | b # _ \<Rightarrow> Ok b),
           logged [EvRead bs] d l))"

partial_function (option) seekStart :: "'d env \<Rightarrow> 'd loader \<Rightarrow> ((err, unit) outcome \<times> 'd loader) option" where
  "seekStart E l = bind_io (readByte E) (\<lambda>b. if b = slipEnd then ret () else seekStart E) l"

partial_function (option) readBody :: "'d env \<Rightarrow> bytes \<Rightarrow> 'd loader \<Rightarrow> ((err, bytes) outcome \<times> 'd loader) option" where
  "readBody E out l = bind_io (readByte E) (\<lambda>b.
     if b = slipEnd then (if out = [] then readBody E out else ret out)
     else if b = slipEsc then
       bind_io (readByte E) (\<lambda>n.
         if n = slipEscEnd then readBody E (out @ [slipEnd])
         else if n = slipEscEsc then readBody E (out @ [slipEsc])
         else throw (BadSlipEscape n))
     else readBody E (out @ [b])) l"

definition readFrame :: "'d env \<Rightarrow> duration \<Rightarrow> ('d, bytes) esp" where
  "readFrame E timeout =
     bind_io (setReadTimeout E timeout) (\<lambda>_.
     bind_io (seekStart E) (\<lambda>_.
     readBody E []))"

text \<open>
  The slice expression \<open>b[n:]\<close> panics when the port claims to have written more than it
  was given, or a negative count.
\<close>

function writeAll :: "'d env \<Rightarrow> bytes \<Rightarrow> ('d, unit) esp" where
  "writeAll E b l =
     (if b = [] then Some (Ok (), l)
      else let ((n, x), d) = t_write E b (dev l); l' = logged [EvWrite (take (nat n) b)] d l in
        case x of Some er \<Rightarrow> Some (Fail er, l')
        | None \<Rightarrow>
            if n = 0 then Some (Fail ShortWrite, l')
            else if n < 0 \<or> int (length b) < n then Some (Panic, l')
            else writeAll E (drop (nat n) b) l')"
  by pat_completeness auto
termination
  by (relation "measure (\<lambda>(E, b, l). length b)") auto

declare writeAll.simps [simp del]

lemma writeAll_Nil [simp]: "writeAll E [] l = Some (Ok (), l)"
  by (simp add: writeAll.simps)

text \<open>One round of the loop.\<close>

lemma writeAll_step:
  assumes "b \<noteq> []" and "t_write E b (dev l) = ((n, x), d)"
  shows "writeAll E b l =
    (let l' = logged [EvWrite (take (nat n) b)] d l in
     case x of Some er \<Rightarrow> Some (Fail er, l')
     | None \<Rightarrow> if n = 0 then Some (Fail ShortWrite, l')
         else if n < 0 \<or> int (length b) < n then Some (Panic, l')
         else writeAll E (drop (nat n) b) l')"
  using assms by (subst writeAll.simps) simp

lemma writeAll_round:
  assumes "b \<noteq> []" and "writeAll E b l = Some (r, l')"
  obtains n x d where "t_write E b (dev l) = ((n, x), d)"
    and "x \<noteq> None \<or> n \<le> 0 \<or> int (length b) < n \<Longrightarrow>
         l' = logged [EvWrite (take (nat n) b)] d l \<and> r \<noteq> Ok ()"
    and "x = None \<Longrightarrow> 0 < n \<Longrightarrow> n \<le> int (length b) \<Longrightarrow>
         writeAll E (drop (nat n) b) (logged [EvWrite (take (nat n) b)] d l) = Some (r, l')"
proof -
  obtain n x d where w: "t_write E b (dev l) = ((n, x), d)" by (metis surj_pair)
  show ?thesis
    by (rule that [OF w])
      (use assms writeAll_step [OF assms(1) w] in \<open>auto simp: Let_def split: if_splits option.splits\<close>)
qed

lemma writeAll_induct [consumes 1, case_names Nil Stop Go]:
  assumes "writeAll E b l = Some (r, l')"
    and "\<And>l. P [] l (Ok ()) l"
    and "\<And>b l r l' n d. b \<noteq> [] \<Longrightarrow> r \<noteq> Ok () \<Longrightarrow> l' = logged [EvWrite (take (nat n) b)] d l \<Longrightarrow> P b l r l'"
    and "\<And>b l r l' n d. b \<noteq> [] \<Longrightarrow> 0 < n \<Longrightarrow> n \<le> int (length b) \<Longrightarrow>
      P (drop (nat n) b) (logged [EvWrite (take (nat n) b)] d l) r l' \<Longrightarrow> P b l r l'"
  shows "P b l r l'"
  using assms(1)
proof (induction b arbitrary: l rule: length_induct)
  case (1 b)
  show ?case
  proof (cases "b = []")
    case True
    then show ?thesis using "1.prems" assms(2) by simp
  next
    case False
    from writeAll_round [OF this "1.prems"] obtain n x d where
      w: "t_write E b (dev l) = ((n, x), d)"
      and stop: "x \<noteq> None \<or> n \<le> 0 \<or> int (length b) < n \<Longrightarrow>
         l' = logged [EvWrite (take (nat n) b)] d l \<and> r \<noteq> Ok ()"
      and go: "x = None \<Longrightarrow> 0 < n \<Longrightarrow> n \<le> int (length b) \<Longrightarrow>
         writeAll E (drop (nat n) b) (logged [EvWrite (take (nat n) b)] d l) = Some (r, l')"
      by blast
    show ?thesis
    proof (cases "x \<noteq> None \<or> n \<le> 0 \<or> int (length b) < n")
      case True
      then show ?thesis using stop [OF True] assms(3) [OF False] by blast
    next
      case n: False
      then have pos: "0 < n" "n \<le> int (length b)" by auto
      then have "length (drop (nat n) b) < length b" using False by simp
      with 1 go n pos have "P (drop (nat n) b) (logged [EvWrite (take (nat n) b)] d l) r l'" by simp
      then show ?thesis by (rule assms(4) [OF False pos])
    qed
  qed
qed

text \<open>
  Induction over the runs of the read loops that return: one case per way a round ends.
\<close>

lemma readByte_eval:
  assumes "t_read E (Suc 0) (dev l) = ((bs, x), d)"
  shows "readByte E l =
    Some (case x of Some er \<Rightarrow> Fail er | None \<Rightarrow> (case bs of [] \<Rightarrow> Fail ErrTimeout | b # _ \<Rightarrow> Ok b),
          logged [EvRead bs] d l)"
  using assms by (simp add: readByte_def)

lemma readByte_cases:
  obtains (Byte) b l' where "readByte E l = Some (Ok b, l')" | (Err) e l' where "readByte E l = Some (Fail e, l')"
proof -
  obtain bs x d where "t_read E (Suc 0) (dev l) = ((bs, x), d)" by (metis surj_pair)
  from readByte_eval [OF this] show ?thesis
    by (cases x; cases bs) (auto intro: that)
qed

lemma seekStart_induct [consumes 1, case_names Err Found Skip]:
  assumes run: "seekStart E l = Some (r, l')"
    and err: "\<And>l e l'. readByte E l = Some (Fail e, l') \<Longrightarrow> P l (Fail e) l'"
    and found: "\<And>l l'. readByte E l = Some (Ok slipEnd, l') \<Longrightarrow> P l (Ok ()) l'"
    and skip: "\<And>l b l1 r l'. readByte E l = Some (Ok b, l1) \<Longrightarrow> b \<noteq> slipEnd \<Longrightarrow> P l1 r l' \<Longrightarrow> P l r l'"
  shows "P l r l'"
proof -
  define Q where "Q E' l y \<longleftrightarrow> (E' = E \<longrightarrow> P l (fst y) (snd y))" for E' l y
  have "Q E l (r, l')"
  proof (rule seekStart.raw_induct [OF _ run])
    fix seek E' l y
    assume IH: "\<And>E l y. seek E l = Some y \<Longrightarrow> Q E l y"
      and run: "bind_io (readByte E') (\<lambda>b. if b = slipEnd then ret () else seek E') l = Some y"
    show "Q E' l y"
      unfolding Q_def
    proof
      assume E: "E' = E"
      show "P l (fst y) (snd y)"
      proof (cases rule: readByte_cases [of E l])
        case (Byte b l1)
        then show ?thesis
          using run E found [of l l1] skip [of l b l1 "fst y" "snd y"] IH [of E l1 y]
          by (cases "b = slipEnd") (auto simp: bind_io_eval Q_def)
      next
        case (Err e l1)
        then show ?thesis using run E err [of l e l1] by (auto simp: bind_io_eval)
      qed
    qed
  qed
  then show ?thesis by (simp add: Q_def)
qed

lemma readBody_induct [consumes 1, case_names Err Collapse Done Plain EscErr EscBad Escaped]:
  assumes run: "readBody E out l = Some (r, l')"
    and err: "\<And>out l e l'. readByte E l = Some (Fail e, l') \<Longrightarrow> P out l (Fail e) l'"
    and collapse: "\<And>l l1 r l'. readByte E l = Some (Ok slipEnd, l1) \<Longrightarrow> P [] l1 r l' \<Longrightarrow> P [] l r l'"
    and fin: "\<And>out l l'. readByte E l = Some (Ok slipEnd, l') \<Longrightarrow> out \<noteq> [] \<Longrightarrow> P out l (Ok out) l'"
    and plain: "\<And>out l b l1 r l'. readByte E l = Some (Ok b, l1) \<Longrightarrow> b \<noteq> slipEnd \<Longrightarrow> b \<noteq> slipEsc \<Longrightarrow>
      P (out @ [b]) l1 r l' \<Longrightarrow> P out l r l'"
    and esc_err: "\<And>out l l1 e l'. readByte E l = Some (Ok slipEsc, l1) \<Longrightarrow>
      readByte E l1 = Some (Fail e, l') \<Longrightarrow> P out l (Fail e) l'"
    and esc_bad: "\<And>out l l1 n l'. readByte E l = Some (Ok slipEsc, l1) \<Longrightarrow>
      readByte E l1 = Some (Ok n, l') \<Longrightarrow> n \<noteq> slipEscEnd \<Longrightarrow> n \<noteq> slipEscEsc \<Longrightarrow>
      P out l (Fail (BadSlipEscape n)) l'"
    and escaped: "\<And>out l l1 n b l2 r l'. readByte E l = Some (Ok slipEsc, l1) \<Longrightarrow>
      readByte E l1 = Some (Ok n, l2) \<Longrightarrow>
      n = slipEscEnd \<and> b = slipEnd \<or> n = slipEscEsc \<and> b = slipEsc \<Longrightarrow>
      P (out @ [b]) l2 r l' \<Longrightarrow> P out l r l'"
  shows "P out l r l'"
proof -
  define Q where "Q E' out l y \<longleftrightarrow> (E' = E \<longrightarrow> P out l (fst y) (snd y))" for E' out l y
  have "Q E out l (r, l')"
  proof (rule readBody.raw_induct [OF _ run])
    fix body E' out l y
    assume IH: "\<And>E out l y. body E out l = Some y \<Longrightarrow> Q E out l y"
      and run: "bind_io (readByte E') (\<lambda>b.
       if b = slipEnd then (if out = [] then body E' out else ret out)
       else if b = slipEsc then bind_io (readByte E') (\<lambda>n.
           if n = slipEscEnd then body E' (out @ [slipEnd])
           else if n = slipEscEsc then body E' (out @ [slipEsc])
           else throw (BadSlipEscape n))
       else body E' (out @ [b])) l = Some y"
    have IH': "P out l (fst y) (snd y)" if "body E out l = Some y" for out l y
      using IH [OF that] by (simp add: Q_def)
    show "Q E' out l y"
      unfolding Q_def
    proof
      assume E: "E' = E"
      show "P out l (fst y) (snd y)"
      proof (cases rule: readByte_cases [of E l])
        case (Err e l1)
        then show ?thesis using run E err [of l e l1] by (auto simp: bind_io_eval)
      next
        case (Byte b l1)
        note first = this
        consider "b = slipEnd" | "b = slipEsc" | "b \<noteq> slipEnd" "b \<noteq> slipEsc" by blast
        then show ?thesis
        proof cases
          case 1
          then show ?thesis
            using run E first collapse [of l l1] fin [of l l1 out] IH' [of out l1]
            by (auto simp: bind_io_eval split: if_splits)
        next
          case 2
          show ?thesis
          proof (cases rule: readByte_cases [of E l1])
            case (Err e l2)
            then show ?thesis using run E first 2 esc_err [of l l1 e l2] by (auto simp: bind_io_eval)
          next
            case (Byte n l2)
            then show ?thesis
              using run E first 2 esc_bad [of l l1 n l2] IH' [of "out @ [slipEnd]" l2] IH' [of "out @ [slipEsc]" l2]
                escaped [of l l1 n l2 slipEnd out] escaped [of l l1 n l2 slipEsc out]
              by (auto simp: bind_io_eval split: if_splits)
          qed
        next
          case 3
          then show ?thesis using run E first plain [of l b l1 out] IH' [of "out @ [b]" l1]
            by (auto simp: bind_io_eval)
        qed
      qed
    qed
  qed
  then show ?thesis by (simp add: Q_def)
qed

section \<open>Request and reply\<close>

partial_function (option) awaitReply ::
  "'d env \<Rightarrow> byte \<Rightarrow> int \<Rightarrow> duration \<Rightarrow> 'd loader \<Rightarrow> ((err, response) outcome \<times> 'd loader) option" where
  "awaitReply E cmd deadline timeout l = bind_io (now E) (\<lambda>t.
     if t < deadline then
       bind_io (readFrame E timeout) (\<lambda>frame.
         case parseResponse frame of
           None \<Rightarrow> awaitReply E cmd deadline timeout
         | Some resp \<Rightarrow>
             if r_cmd resp \<noteq> cmd then awaitReply E cmd deadline timeout
             else bind_io get_io (\<lambda>l.
               if fst (status resp (stub l)) then ret resp
               else throw (CmdError cmd (snd (status resp (stub l))))))
     else throw ErrTimeout) l"

definition command :: "'d env \<Rightarrow> byte \<Rightarrow> bytes \<Rightarrow> u32 \<Rightarrow> duration \<Rightarrow> ('d, response) esp" where
  "command E cmd data chk timeout =
     bind_io (writeAll E (slipEncode (encodeCommand cmd data chk))) (\<lambda>_.
     bind_io (now E) (\<lambda>t.
     awaitReply E cmd (t + timeout) timeout))"

text \<open>The reply of a request: what \<open>awaitReply\<close> does with a packet that answers it.\<close>

definition checkReply :: "byte \<Rightarrow> bool \<Rightarrow> response \<Rightarrow> (err, response) outcome" where
  "checkReply cmd st resp =
     (if fst (status resp st) then Ok resp else Fail (CmdError cmd (snd (status resp st))))"

lemma awaitReply_induct [consumes 1, case_names Late Err Crash Skip Reply]:
  assumes run: "awaitReply E cmd deadline timeout l = Some (r, l')"
    and late: "\<And>l t l'. now E l = Some (Ok t, l') \<Longrightarrow> deadline \<le> t \<Longrightarrow> P l (Fail ErrTimeout) l'"
    and err: "\<And>l t l1 e l'. now E l = Some (Ok t, l1) \<Longrightarrow> readFrame E timeout l1 = Some (Fail e, l') \<Longrightarrow>
      P l (Fail e) l'"
    and crash: "\<And>l t l1 l'. now E l = Some (Ok t, l1) \<Longrightarrow> readFrame E timeout l1 = Some (Panic, l') \<Longrightarrow>
      P l Panic l'"
    and skip: "\<And>l t l1 frame l2 r l'. now E l = Some (Ok t, l1) \<Longrightarrow> t < deadline \<Longrightarrow>
      readFrame E timeout l1 = Some (Ok frame, l2) \<Longrightarrow>
      (\<forall>resp. parseResponse frame = Some resp \<longrightarrow> r_cmd resp \<noteq> cmd) \<Longrightarrow> P l2 r l' \<Longrightarrow> P l r l'"
    and reply: "\<And>l t l1 frame resp l'. now E l = Some (Ok t, l1) \<Longrightarrow> t < deadline \<Longrightarrow>
      readFrame E timeout l1 = Some (Ok frame, l') \<Longrightarrow> parseResponse frame = Some resp \<Longrightarrow> r_cmd resp = cmd \<Longrightarrow>
      P l (checkReply cmd (stub l') resp) l'"
  shows "P l r l'"
proof -
  define Q where "Q E' c dl t l y \<longleftrightarrow> (E' = E \<longrightarrow> c = cmd \<longrightarrow> dl = deadline \<longrightarrow> t = timeout \<longrightarrow> P l (fst y) (snd y))"
    for E' c dl t l y
  have "Q E cmd deadline timeout l (r, l')"
  proof (rule awaitReply.raw_induct [OF _ run])
    fix await E' c dl to l y
    assume IH: "\<And>E c dl t l y. await E c dl t l = Some y \<Longrightarrow> Q E c dl t l y"
      and run: "bind_io (now E') (\<lambda>t.
       if t < dl then bind_io (readFrame E' to) (\<lambda>frame.
         case parseResponse frame of None \<Rightarrow> await E' c dl to
         | Some resp \<Rightarrow> if r_cmd resp \<noteq> c then await E' c dl to
             else bind_io get_io (\<lambda>l. if fst (status resp (stub l)) then ret resp
               else throw (CmdError c (snd (status resp (stub l))))))
       else throw ErrTimeout) l = Some y"
    show "Q E' c dl to l y"
      unfolding Q_def
    proof (intro impI)
      assume E: "E' = E" "c = cmd" "dl = deadline" "to = timeout"
      have IH': "P l (fst y) (snd y)" if "await E cmd deadline timeout l = Some y" for l y
        using IH [OF that] by (simp add: Q_def)
      obtain t d where "time_now E (dev l) = (t, d)" by (metis surj_pair)
      then obtain l1 where now: "now E l = Some (Ok t, l1)" by (simp add: now_def)
      show "P l (fst y) (snd y)"
      proof (cases "t < deadline")
        case False
        then show ?thesis using run E now late [OF now] by (auto simp: bind_io_eval)
      next
        case True
        note run' = run [unfolded E bind_io_eval(1) [of "now E" l, OF now], simplified True if_True]
        show ?thesis
        proof (cases rule: io_exhaust [of "readFrame E timeout" l1])
          case None
          then show ?thesis using run' by (simp add: bind_io_eval)
        next
          case (Fail e l2)
          then show ?thesis using run' err [OF now Fail] by (auto simp: bind_io_eval)
        next
          case (Panic l2)
          then show ?thesis using run' crash [OF now Panic] by (auto simp: bind_io_eval)
        next
          case (Ok frame l2)
          note skip' = skip [OF now True Ok] and reply' = reply [OF now True Ok]
          from run' Ok show ?thesis
            by (auto simp: bind_io_eval split: option.splits if_splits intro: skip' IH')
              (metis (mono_tags) reply' checkReply_def fst_conv snd_conv)+
        qed
      qed
    qed
  qed
  then show ?thesis by (simp add: Q_def)
qed

section \<open>Reset and synchronisation\<close>

definition syncTimeout :: duration where "syncTimeout = 100 * millisecond"
definition cmdTimeout :: duration where "cmdTimeout = 3 * second"
definition connectAttempts :: nat where "connectAttempts = 7"

definition resetToBootloader :: "'d env \<Rightarrow> ('d, unit) esp" where
  "resetToBootloader E =
     bind_io (ignore_io (setDTR E False)) (\<lambda>_.
     bind_io (ignore_io (setRTS E True)) (\<lambda>_.
     bind_io (sleep E (100 * millisecond)) (\<lambda>_.
     bind_io (ignore_io (setDTR E True)) (\<lambda>_.
     bind_io (ignore_io (setRTS E False)) (\<lambda>_.
     bind_io (sleep E (50 * millisecond)) (\<lambda>_.
     bind_io (ignore_io (setDTR E False)) (\<lambda>_.
     ignore_io (flushInput E))))))))"

definition HardReset :: "'d env \<Rightarrow> ('d, unit) esp" where
  "HardReset E =
     bind_io (ignore_io (setRTS E True)) (\<lambda>_.
     bind_io (sleep E (100 * millisecond)) (\<lambda>_.
     ignore_io (setRTS E False)))"

definition syncPayload :: bytes where
  "syncPayload = [0x07, 0x07, 0x12, 0x20] @ replicate 32 0x55"

fun drainEchoes :: "'d env \<Rightarrow> nat \<Rightarrow> ('d, unit) esp" where
  "drainEchoes E 0 = ret ()"
| "drainEchoes E (Suc i) =
     try_io (readFrame E syncTimeout) (\<lambda>r. case r of Inl _ \<Rightarrow> ret () | Inr _ \<Rightarrow> drainEchoes E i)"

definition sync :: "'d env \<Rightarrow> ('d, unit) esp" where
  "sync E =
     bind_io (command E cmdSync syncPayload 0 syncTimeout) (\<lambda>_.
     drainEchoes E 7)"

text \<open>\<open>trySync\<close>: has one of \<open>i\<close> synchronisations succeeded?\<close>

fun trySync :: "'d env \<Rightarrow> nat \<Rightarrow> ('d, bool) esp" where
  "trySync E 0 = ret False"
| "trySync E (Suc i) = try_io (sync E) (\<lambda>r. case r of Inr _ \<Rightarrow> ret True | Inl _ \<Rightarrow> trySync E i)"

fun connectLoop :: "'d env \<Rightarrow> nat \<Rightarrow> ('d, unit) esp" where
  "connectLoop E 0 = throw FailedToSync"
| "connectLoop E (Suc n) =
     bind_io (ctxErr E) (\<lambda>_.
     bind_io (resetToBootloader E) (\<lambda>_.
     bind_io (trySync E 5) (\<lambda>ok.
     if ok then ret () else connectLoop E n)))"

definition Connect :: "'d env \<Rightarrow> ('d, unit) esp" where
  "Connect E = connectLoop E connectAttempts"

section \<open>Registers and identity\<close>

definition ReadReg :: "'d env \<Rightarrow> u32 \<Rightarrow> ('d, u32) esp" where
  "ReadReg E addr =
     bind_io (command E cmdReadReg (le32 addr) 0 cmdTimeout) (\<lambda>resp.
     ret (r_value resp))"

definition ChipID :: "'d env \<Rightarrow> ('d, u32) esp" where
  "ChipID E =
     bind_io (command E cmdGetSecurityInfo [] 0 cmdTimeout) (\<lambda>resp.
     bind_io get_io (\<lambda>l.
     let p = payload resp (stub l) in
     if length p < 16 then throw (SecurityInfoTooShort (length p))
     else ret (get32 (drop 12 p))))"

definition ensureChip :: "'d env \<Rightarrow> ('d, unit) esp" where
  "ensureChip E =
     bind_io get_io (\<lambda>l.
     if chip_of l \<noteq> None then ret ()
     else bind_io (wrap_io DetectChip (ChipID E)) (\<lambda>cid.
       case chips cid of
         None \<Rightarrow> throw (UnsupportedChip cid)
       | Some c \<Rightarrow> upd_io (\<lambda>l. l\<lparr>chip_of := Some c\<rparr>)))"

text \<open>\<open>l.chip\<close> after \<open>ensureChip\<close>; dereferencing a nil chip would panic.\<close>

definition theChip :: "('d, chip) esp" where
  "theChip = bind_io get_io (\<lambda>l. case chip_of l of None \<Rightarrow> panic | Some c \<Rightarrow> ret c)"

definition ChipOf :: "'d env \<Rightarrow> ('d, chip) esp" where
  "ChipOf E = bind_io (ensureChip E) (\<lambda>_. theChip)"

definition BaseMAC :: "'d env \<Rightarrow> ('d, bytes) esp" where
  "BaseMAC E =
     bind_io (ensureChip E) (\<lambda>_.
     bind_io theChip (\<lambda>c.
     bind_io (ReadReg E (MACEfuseReg c)) (\<lambda>mac0.
     bind_io (ReadReg E (MACEfuseReg c + 4)) (\<lambda>mac1.
     let buf = replicate 8 0;
         buf = overwrite 0 (be32 mac1) buf;
         buf = overwrite 4 (be32 mac0) buf
     in ret (drop 2 buf)))))"

end
