(* ===== verification/LoaderRel.thy ===== *)
theory LoaderRel
  imports Loader
begin

text \<open>
  What the operations of the loader can and cannot change. A relation between the state
  before and after that is a preorder and holds for each single call to the outside holds
  for every operation; the locales prove this once, and their interpretations give: the
  log only grows, reading never writes, the mode, the baud rate and the detected chip stay
  as they were.
\<close>

named_theorems keeps_intros "introduction rules for keeps"

definition keeps :: "('s \<Rightarrow> 's \<Rightarrow> bool) \<Rightarrow> ('s, 'e, 'a) io \<Rightarrow> bool" where
  "keeps R m \<longleftrightarrow> (\<forall>s r t. m s = Some (r, t) \<longrightarrow> R s t)"

lemma keepsI: "(\<And>s r t. m s = Some (r, t) \<Longrightarrow> R s t) \<Longrightarrow> keeps R m"
  by (simp add: keeps_def)

lemma keepsD: "keeps R m \<Longrightarrow> m s = Some (r, t) \<Longrightarrow> R s t"
  by (simp add: keeps_def)

lemma keeps_weaken: "keeps R m \<Longrightarrow> (\<And>s t. R s t \<Longrightarrow> Q s t) \<Longrightarrow> keeps Q m"
  by (auto simp: keeps_def)

section \<open>A preorder on states\<close>

locale io_preorder =
  fixes R :: "'s \<Rightarrow> 's \<Rightarrow> bool"
  assumes refl: "R s s" and trans: "R s t \<Longrightarrow> R t u \<Longrightarrow> R s u"
begin

lemma keeps_ret [keeps_intros]: "keeps R (ret a)"
  by (auto intro!: keepsI refl)

lemma keeps_throw [keeps_intros]: "keeps R (throw e)"
  by (auto intro!: keepsI refl)

lemma keeps_panic [keeps_intros]: "keeps R panic"
  by (auto intro!: keepsI refl)

lemma keeps_get [keeps_intros]: "keeps R get_io"
  by (auto intro!: keepsI refl)

lemma keeps_bind [keeps_intros]:
  assumes "keeps R m" and "\<And>a. keeps R (k a)"
  shows "keeps R (bind_io m k)"
proof (rule keepsI)
  fix s r t assume "bind_io m k s = Some (r, t)"
  then show "R s t"
    by (cases rule: bind_io_Some) (blast intro: trans dest: keepsD [OF assms(1)] keepsD [OF assms(2)])+
qed

lemma keeps_try [keeps_intros]:
  assumes "keeps R m" and "\<And>a. keeps R (k a)"
  shows "keeps R (try_io m k)"
proof (rule keepsI)
  fix s r t assume "try_io m k s = Some (r, t)"
  then show "R s t"
    by (cases rule: try_io_Some) (blast intro: trans dest: keepsD [OF assms(1)] keepsD [OF assms(2)])+
qed

lemma keeps_wrap [keeps_intros]: "keeps R m \<Longrightarrow> keeps R (wrap_io f m)"
  by (rule keepsI) (erule wrap_io_Some, erule keepsD)

lemma keeps_ignore [keeps_intros]: "keeps R m \<Longrightarrow> keeps R (ignore_io m)"
  by (rule keepsI) (erule ignore_io_Some, erule keepsD)

lemma keeps_if [keeps_intros]: "(c \<Longrightarrow> keeps R m) \<Longrightarrow> (\<not> c \<Longrightarrow> keeps R n) \<Longrightarrow> keeps R (if c then m else n)"
  by simp

lemma keeps_option [keeps_intros]:
  "(x = None \<Longrightarrow> keeps R m) \<Longrightarrow> (\<And>a. x = Some a \<Longrightarrow> keeps R (k a)) \<Longrightarrow> keeps R (case x of None \<Rightarrow> m | Some a \<Rightarrow> k a)"
  by (cases x) simp_all

lemma keeps_sum [keeps_intros]:
  "(\<And>a. keeps R (f a)) \<Longrightarrow> (\<And>b. keeps R (g b)) \<Longrightarrow> keeps R (case x of Inl a \<Rightarrow> f a | Inr b \<Rightarrow> g b)"
  by (cases x) simp_all

lemma keeps_upd: "(\<And>s. R s (f s)) \<Longrightarrow> keeps R (upd_io f)"
  by (auto intro!: keepsI)

lemma keeps_bind_get: "(\<And>s r t. k s s = Some (r, t) \<Longrightarrow> R s t) \<Longrightarrow> keeps R (bind_io get_io k)"
  by (auto intro!: keepsI)

end

section \<open>Operations that only read\<close>

locale read_rel = io_preorder R for R :: "'d loader \<Rightarrow> 'd loader \<Rightarrow> bool" +
  assumes read_step: "R l (logged [EvRead bs] d l)"
    and timeout_step: "R l (logged [EvSetReadTimeout t] d l)"
    and silent_step: "R l (logged [] d l)"
begin

lemma keeps_readByte [keeps_intros]: "keeps R (readByte E)"
  by (auto intro!: keepsI read_step simp: readByte_def split: prod.splits)

lemma keeps_setReadTimeout [keeps_intros]: "keeps R (setReadTimeout E t)"
  by (auto intro!: keepsI timeout_step simp: prim_defs split: prod.splits)

lemma keeps_now [keeps_intros]: "keeps R (now E)"
  by (auto intro!: keepsI silent_step simp: prim_defs split: prod.splits)

lemma keeps_ctxErr [keeps_intros]: "keeps R (ctxErr E)"
  by (auto intro!: keepsI silent_step simp: prim_defs split: prod.splits)

lemma readByte_step: "readByte E l = Some (r, l') \<Longrightarrow> R l l'"
  by (rule keepsD [OF keeps_readByte])

lemma now_step: "now E l = Some (r, l') \<Longrightarrow> R l l'"
  by (rule keepsD [OF keeps_now])

lemma keeps_seekStart [keeps_intros]: "keeps R (seekStart E)"
proof (rule keepsI)
  fix l r l'
  show "seekStart E l = Some (r, l') \<Longrightarrow> R l l'"
    by (induction rule: seekStart_induct) (blast intro: readByte_step trans)+
qed

lemma keeps_readBody [keeps_intros]: "keeps R (readBody E out)"
proof (rule keepsI)
  fix l r l'
  show "readBody E out l = Some (r, l') \<Longrightarrow> R l l'"
    by (induction rule: readBody_induct) (blast intro: readByte_step trans)+
qed

lemma keeps_readFrame [keeps_intros]: "keeps R (readFrame E t)"
  unfolding readFrame_def by (intro keeps_intros)

lemma keeps_awaitReply [keeps_intros]: "keeps R (awaitReply E c dl t)"
proof (rule keepsI)
  fix l r l'
  have frame: "R l1 l2" if "readFrame E t l1 = Some (q, l2)" for l1 q l2
    using that by (rule keepsD [OF keeps_readFrame])
  show "awaitReply E c dl t l = Some (r, l') \<Longrightarrow> R l l'"
    by (induction rule: awaitReply_induct) (blast intro: now_step frame trans)+
qed

lemma keeps_drainEchoes [keeps_intros]: "keeps R (drainEchoes E n)"
  by (induction n) (simp_all only: drainEchoes.simps, (intro keeps_intros; assumption)+)

lemma keeps_theChip [keeps_intros]: "keeps R theChip"
  unfolding theChip_def by (intro keeps_intros)

end

section \<open>Operations that also write and drive the lines\<close>

text \<open>Everything but closing the port.\<close>

locale io_rel = io_preorder R for R :: "'d loader \<Rightarrow> 'd loader \<Rightarrow> bool" +
  assumes step: "EvClose \<notin> set es \<Longrightarrow> R l (logged es d l)"
begin

lemma read_rel: "read_rel R"
  by unfold_locales (rule step; simp)+

end

sublocale io_rel \<subseteq> reads: read_rel R
  by (rule read_rel)

context io_rel
begin

lemma keeps_call: "e \<noteq> EvClose \<Longrightarrow> keeps R (call e f)"
  by (auto intro!: keepsI step simp: call_def split: prod.splits)

lemma keeps_setDTR [keeps_intros]: "keeps R (setDTR E v)" and
  keeps_setRTS [keeps_intros]: "keeps R (setRTS E v)" and
  keeps_setBaud [keeps_intros]: "keeps R (setBaud E b)" and
  keeps_flushInput [keeps_intros]: "keeps R (flushInput E)"
  by (simp_all add: prim_defs(2-) keeps_call)

lemma keeps_sleep [keeps_intros]: "keeps R (sleep E t)"
  by (auto intro!: keepsI step simp: sleep_def)

lemma keeps_progress [keeps_intros]: "keeps R (progress g n m)"
  by (auto intro!: keepsI step simp: progress_def refl)

lemma keeps_writeAll [keeps_intros]: "keeps R (writeAll E b)"
proof (rule keepsI)
  fix l r l'
  show "writeAll E b l = Some (r, l') \<Longrightarrow> R l l'"
  proof (induction rule: writeAll_induct)
    case (Go b l r l' n d)
    have "R l (logged [EvWrite (take (nat n) b)] d l)" by (rule step) simp
    with Go show ?case by (blast intro: trans)
  qed (auto intro: refl step)
qed

lemma keeps_command [keeps_intros]: "keeps R (command E c d k t)"
  unfolding command_def by (intro keeps_intros reads.keeps_now reads.keeps_awaitReply)

lemma keeps_resetToBootloader [keeps_intros]: "keeps R (resetToBootloader E)"
  unfolding resetToBootloader_def by (intro keeps_intros)

lemma keeps_HardReset [keeps_intros]: "keeps R (HardReset E)"
  unfolding HardReset_def by (intro keeps_intros)

lemma keeps_sync [keeps_intros]: "keeps R (sync E)"
  unfolding sync_def by (intro keeps_intros reads.keeps_drainEchoes)

lemma keeps_trySync [keeps_intros]: "keeps R (trySync E n)"
  by (induction n) (simp_all only: trySync.simps, (intro keeps_intros; assumption)+)

lemma keeps_connectLoop [keeps_intros]: "keeps R (connectLoop E n)"
  by (induction n) (simp_all only: connectLoop.simps, (intro keeps_intros reads.keeps_ctxErr; assumption?)+)

lemma keeps_Connect [keeps_intros]: "keeps R (Connect E)"
  unfolding Connect_def by (rule keeps_connectLoop)

lemma keeps_ReadReg [keeps_intros]: "keeps R (ReadReg E a)"
  unfolding ReadReg_def by (intro keeps_intros)

lemma keeps_ChipID [keeps_intros]: "keeps R (ChipID E)"
  unfolding ChipID_def Let_def by (intro keeps_intros)

end

section \<open>Operations that may detect the target\<close>

locale chip_rel = io_rel R for R :: "'d loader \<Rightarrow> 'd loader \<Rightarrow> bool" +
  assumes chip_stable: "R l l' \<Longrightarrow> chip_of l = None \<Longrightarrow> chips cid = Some c \<Longrightarrow> R l (l'\<lparr>chip_of := Some c\<rparr>)"
begin

lemma keeps_ensureChip [keeps_intros]: "keeps R (ensureChip E)"
proof (rule keepsI)
  fix l r l' assume run: "ensureChip E l = Some (r, l')"
  show "R l l'"
  proof (cases "chip_of l")
    case (Some c)
    with run show ?thesis by (simp add: ensureChip_def refl)
  next
    case None
    from run [unfolded ensureChip_def bind_io_get] None
    have "bind_io (wrap_io DetectChip (ChipID E)) (\<lambda>cid.
        case chips cid of None \<Rightarrow> throw (UnsupportedChip cid)
        | Some c \<Rightarrow> upd_io (\<lambda>l. l\<lparr>chip_of := Some c\<rparr>)) l = Some (r, l')" by simp
    then show ?thesis
    proof (cases rule: bind_io_Some)
      case (Ok cid l1)
      have "R l l1" by (rule keepsD [OF keeps_wrap [OF keeps_ChipID] Ok(1)])
      then show ?thesis using Ok(2) None
        by (auto split: option.splits intro: chip_stable)
    next
      case (Fail e)
      then show ?thesis by (intro keepsD [OF keeps_wrap [OF keeps_ChipID] Fail(1)])
    next
      case Panic
      then show ?thesis by (intro keepsD [OF keeps_wrap [OF keeps_ChipID] Panic(1)])
    qed
  qed
qed

lemma keeps_ChipOf [keeps_intros]: "keeps R (ChipOf E)"
  unfolding ChipOf_def by (intro keeps_intros reads.keeps_theChip)

lemma keeps_BaseMAC [keeps_intros]: "keeps R (BaseMAC E)"
  unfolding BaseMAC_def Let_def by (intro keeps_intros reads.keeps_theChip)

end

section \<open>The relations of the model\<close>

text \<open>Every operation only appends to the log, and none closes the port.\<close>

definition log_grows :: "'d loader \<Rightarrow> 'd loader \<Rightarrow> bool" where
  "log_grows l l' \<longleftrightarrow> (\<exists>es. evs l' = evs l @ es \<and> EvClose \<notin> set es)"

lemma log_grows_open: "log_grows l l' \<Longrightarrow> EvClose \<in> set (evs l') \<longleftrightarrow> EvClose \<in> set (evs l)"
  by (auto simp: log_grows_def)

interpretation log_only: chip_rel log_grows
  by unfold_locales (fastforce simp: log_grows_def)+

text \<open>Requests do not change the mode, the baud rate or the target.\<close>

definition same_fields :: "'d loader \<Rightarrow> 'd loader \<Rightarrow> bool" where
  "same_fields l l' \<longleftrightarrow> stub l' = stub l \<and> curBaud l' = curBaud l \<and> chip_of l' = chip_of l"

interpretation fields: io_rel same_fields
  by unfold_locales (auto simp: same_fields_def)

text \<open>Detection keeps the mode and the baud rate, and never replaces a target.\<close>

definition same_mode :: "'d loader \<Rightarrow> 'd loader \<Rightarrow> bool" where
  "same_mode l l' \<longleftrightarrow> stub l' = stub l \<and> curBaud l' = curBaud l \<and> (chip_of l \<noteq> None \<longrightarrow> chip_of l' = chip_of l)"

interpretation mode_kept: chip_rel same_mode
  by unfold_locales (auto simp: same_mode_def)

text \<open>Reading puts nothing on the line.\<close>

definition same_sent :: "'d loader \<Rightarrow> 'd loader \<Rightarrow> bool" where
  "same_sent l l' \<longleftrightarrow> sent l' = sent l"

interpretation quiet: read_rel same_sent
  by unfold_locales (auto simp: same_sent_def)

end
