(* ===== verification/LoaderLive.thy ===== *)
theory LoaderLive
  imports LoaderLine
begin

text \<open>
  When the loader's calls return. A port may deliver bytes for ever, and then a read loop
  never ends; the contract \<open>finite_input\<close> says that at any moment the chip has only
  finitely many bytes to deliver unless something is written, and under it every request
  returns. \<open>byte_stream\<close> is the stronger contract of a port that delivers given bytes in
  order and times out after them, and \<open>prompt_link\<close> adds that writes are accepted and the
  deadline does not pass.
\<close>

named_theorems returns_intros "introduction rules for returns"

definition returns :: "('s, 'e, 'a) io \<Rightarrow> bool" where
  "returns m \<longleftrightarrow> (\<forall>s. \<exists>r t. m s = Some (r, t))"

lemma returnsI: "(\<And>s. \<exists>r t. m s = Some (r, t)) \<Longrightarrow> returns m"
  by (simp add: returns_def)

lemma returnsE: assumes "returns m" obtains r t where "m s = Some (r, t)"
  using assms unfolding returns_def by blast

lemma returns_simple [returns_intros]:
  "returns (ret a)" "returns (throw e)" "returns panic" "returns get_io" "returns (upd_io f)"
  by (simp_all add: returns_def)

lemma returns_bind [returns_intros]:
  assumes "returns m" and "\<And>a. returns (k a)"
  shows "returns (bind_io m k)"
proof (rule returnsI)
  fix s
  from assms(1) obtain r t where m: "m s = Some (r, t)" by (rule returnsE)
  with assms(2) show "\<exists>r t. bind_io m k s = Some (r, t)"
    by (cases r) (auto simp: bind_io_eval returns_def)
qed

lemma returns_try [returns_intros]:
  assumes "returns m" and "\<And>a. returns (k a)"
  shows "returns (try_io m k)"
proof (rule returnsI)
  fix s
  from assms(1) obtain r t where m: "m s = Some (r, t)" by (rule returnsE)
  with assms(2) show "\<exists>r t. try_io m k s = Some (r, t)"
    by (cases r) (auto simp: try_io_eval returns_def)
qed

lemma returns_wrap [returns_intros]: "returns m \<Longrightarrow> returns (wrap_io f m)"
  unfolding wrap_io_def by (intro returns_intros) (auto simp: returns_def split: sum.split)

lemma returns_ignore [returns_intros]: "returns m \<Longrightarrow> returns (ignore_io m)"
  unfolding ignore_io_def by (intro returns_intros)

lemma returns_split [returns_intros]:
  "(c \<Longrightarrow> returns m) \<Longrightarrow> (\<not> c \<Longrightarrow> returns n) \<Longrightarrow> returns (if c then m else n)"
  "(x = None \<Longrightarrow> returns m) \<Longrightarrow> (\<And>a. x = Some a \<Longrightarrow> returns (k a)) \<Longrightarrow>
    returns (case x of None \<Rightarrow> m | Some a \<Rightarrow> k a)"
  "(\<And>a. returns (f a)) \<Longrightarrow> (\<And>b. returns (g b)) \<Longrightarrow> returns (case y of Inl a \<Rightarrow> f a | Inr b \<Rightarrow> g b)"
  by (auto split: option.split sum.split)

lemma returns_call [returns_intros]: "returns (call e f)"
  by (auto simp: returns_def call_def split: prod.split)

lemma returns_prims [returns_intros]:
  "returns (setBaud E b)" "returns (setDTR E v)" "returns (setRTS E v)" "returns (setReadTimeout E t)"
  "returns (flushInput E)" "returns (Close E)"
  unfolding setBaud_def setDTR_def setRTS_def setReadTimeout_def flushInput_def Close_def
  by (rule returns_call)+

lemma returns_silent [returns_intros]:
  "returns (sleep E t)" "returns (now E)" "returns (ctxErr E)" "returns (progress g n m)"
  by (auto simp: returns_def prim_defs split: prod.split)

lemma returns_writeAll [returns_intros]: "returns (writeAll E b)"
  by (simp add: returns_def writeAll_returns)

lemma returns_theChip [returns_intros]: "returns theChip"
  unfolding theChip_def by (intro returns_intros)

lemma returns_lines [returns_intros]: "returns (resetToBootloader E)" "returns (HardReset E)"
  unfolding resetToBootloader_def HardReset_def by (intro returns_intros)+

section \<open>Ports with finite input\<close>

locale finite_input =
  fixes E :: "'d env" and pend :: "'d \<Rightarrow> nat"
  assumes read_pend: "t_read E 1 d = ((b # bs, None), d') \<Longrightarrow> pend d' < pend d"
    and timeout_pend: "t_setReadTimeout E t d = (x, d') \<Longrightarrow> pend d' \<le> pend d"
    and clock_pend: "time_now E d = (n, d') \<Longrightarrow> pend d' \<le> pend d"
begin

abbreviation left :: "'d loader \<Rightarrow> nat" where
  "left l \<equiv> pend (dev l)"

lemma readByte_left: "readByte E l = Some (Ok b, l') \<Longrightarrow> left l' < left l"
proof -
  obtain bs x d where r: "t_read E 1 (dev l) = ((bs, x), d)" by (metis surj_pair)
  then show "readByte E l = Some (Ok b, l') \<Longrightarrow> left l' < left l"
    using readByte_eval [of E l bs x d] read_pend [of "dev l"]
    by (auto split: option.splits list.splits)
qed

lemma seekStart_left: "\<exists>r l'. seekStart E l = Some (r, l') \<and> (r = Ok () \<longrightarrow> left l' < left l)"
proof (induction "left l" arbitrary: l rule: less_induct)
  case less
  show ?case
  proof (cases rule: readByte_cases [of E l])
    case (Byte b l1)
    have lt: "left l1 < left l" by (rule readByte_left [OF Byte])
    from less [OF lt] show ?thesis
      using lt by (cases "b = slipEnd") (auto simp: seekStart.simps [of E l] bind_io_eval [of "readByte E"] Byte)
  next
    case (Err e l1)
    then show ?thesis by (simp add: seekStart.simps [of E l] bind_io_eval)
  qed
qed

lemma readBody_left: "\<exists>r l'. readBody E out l = Some (r, l') \<and> ((\<exists>p. r = Ok p) \<longrightarrow> left l' \<le> left l)"
proof (induction "left l" arbitrary: out l rule: less_induct)
  case less
  show ?case
  proof (cases rule: readByte_cases [of E l])
    case (Err e l1)
    then show ?thesis by (simp add: readBody.simps [of E out l] bind_io_eval)
  next
    case (Byte b l1)
    note b = this
    have lt: "left l1 < left l" by (rule readByte_left [OF Byte])
    note unfold = readBody.simps [of E _ l] bind_io_eval [of "readByte E"] b
    consider "b = slipEnd" | "b = slipEsc" | "b \<noteq> slipEnd" "b \<noteq> slipEsc" by blast
    then show ?thesis
    proof cases
      case 1
      with less [OF lt, of out] lt show ?thesis by (cases "out = []") (auto simp: unfold)
    next
      case 2
      show ?thesis
      proof (cases rule: readByte_cases [of E l1])
        case (Err e l2)
        then show ?thesis using 2 by (auto simp: unfold)
      next
        case (Byte n l2)
        have lt2: "left l2 < left l" using lt readByte_left [OF Byte] by simp
        from less [OF lt2, of "out @ [slipEnd]"] less [OF lt2, of "out @ [slipEsc]"] 2 Byte lt2
        show ?thesis by (auto simp: unfold)
      qed
    next
      case 3
      with less [OF lt, of "out @ [b]"] lt show ?thesis by (auto simp: unfold)
    qed
  qed
qed

lemma readFrame_left: "\<exists>r l'. readFrame E t l = Some (r, l') \<and> ((\<exists>p. r = Ok p) \<longrightarrow> left l' < left l)"
proof -
  obtain x d where s: "t_setReadTimeout E t (dev l) = (x, d)" by (metis surj_pair)
  define l0 where "l0 = logged [EvSetReadTimeout t] d l"
  have le: "left l0 \<le> left l" using timeout_pend [OF s] by (simp add: l0_def)
  have st: "setReadTimeout E t l = Some (case x of None \<Rightarrow> Ok () | Some er \<Rightarrow> Fail er, l0)"
    by (simp add: setReadTimeout_def call_def s l0_def)
  from seekStart_left [of l0] obtain r1 l1 where
    k: "seekStart E l0 = Some (r1, l1)" "r1 = Ok () \<longrightarrow> left l1 < left l0" by blast
  show ?thesis
  proof (cases "x = None \<and> r1 = Ok ()")
    case True
    with k st have "readFrame E t l = readBody E [] l1" "left l1 < left l"
      using le by (auto simp: readFrame_def bind_io_eval)
    with readBody_left [of "[]" l1] show ?thesis by force
  next
    case False
    then show ?thesis
      using st k by (cases x; cases r1) (auto simp: readFrame_def bind_io_eval)
  qed
qed

lemma returns_readFrame [returns_intros]: "returns (readFrame E t)"
  using readFrame_left unfolding returns_def by blast

lemma returns_awaitReply [returns_intros]: "returns (awaitReply E c dl t)"
proof (rule returnsI)
  show "\<exists>r l'. awaitReply E c dl t l = Some (r, l')" for l
  proof (induction "left l" arbitrary: l rule: less_induct)
    case less
    obtain ta d where n: "time_now E (dev l) = (ta, d)" by (metis surj_pair)
    define l0 where "l0 = logged [] d l"
    have now: "now E l = Some (Ok ta, l0)" and le: "left l0 \<le> left l"
      using clock_pend [OF n] by (simp_all add: now_def n l0_def)
    from readFrame_left [of t l0] obtain r l1 where
      f: "readFrame E t l0 = Some (r, l1)" and lt: "(\<exists>p. r = Ok p) \<longrightarrow> left l1 < left l0" by blast
    note unfold = awaitReply.simps [of E c dl t l] bind_io_eval [of "now E"] now bind_io_eval [of "readFrame E t"] f
    show ?case
    proof (cases r)
      case (Ok frame)
      with less [of l1] lt le have IH: "\<exists>r l'. awaitReply E c dl t l1 = Some (r, l')" by auto
      show ?thesis
        by (cases "ta < dl"; cases "parseResponse frame") (use IH Ok in \<open>auto simp: unfold\<close>)
    qed (cases "ta < dl"; simp add: unfold)+
  qed
qed

lemma returns_command [returns_intros]: "returns (command E c d k t)"
  unfolding command_def by (intro returns_intros)

lemma returns_drainEchoes [returns_intros]: "returns (drainEchoes E n)"
  by (induction n) (simp_all only: drainEchoes.simps, (intro returns_intros; assumption)+)

lemma returns_sync [returns_intros]: "returns (sync E)"
  unfolding sync_def by (intro returns_intros)

lemma returns_trySync [returns_intros]: "returns (trySync E n)"
  by (induction n) (simp_all only: trySync.simps, (intro returns_intros; assumption)+)

lemma returns_connectLoop [returns_intros]: "returns (connectLoop E n)"
  by (induction n) (simp_all only: connectLoop.simps, (intro returns_intros; assumption?)+)

lemma returns_Connect [returns_intros]: "returns (Connect E)"
  unfolding Connect_def by (rule returns_connectLoop)

lemma returns_ReadReg [returns_intros]: "returns (ReadReg E a)"
  unfolding ReadReg_def by (intro returns_intros)

lemma returns_ChipID [returns_intros]: "returns (ChipID E)"
  unfolding ChipID_def Let_def by (intro returns_intros)

lemma returns_ensureChip [returns_intros]: "returns (ensureChip E)"
  unfolding ensureChip_def by (intro returns_intros)

lemma returns_BaseMAC [returns_intros]: "returns (BaseMAC E)"
  unfolding BaseMAC_def Let_def by (intro returns_intros)

end

end
