(* ===== verification/LoaderStream.thy ===== *)
theory LoaderStream
  imports LoaderLive
begin

text \<open>
  The loader on a port that delivers a byte stream. \<open>byte_stream\<close> is the contract of such
  a port: the bytes come one by one in order, and after the last one a read times out.
  Under it the frame reader finds the next frame behind any noise and inverts the encoder.
  \<open>prompt_link\<close> adds that writes are accepted, in pieces of any size, and that the clock reads the
  same throughout: a link so fast that no time passes, which is the simplest way to say that no
  deadline expires while replies are waiting. Under it a request returns the reply that
  answers it, however many other packets come first. How long the timeouts are is not
  pinned by theorems about such a link.

  The test double at the end is an implementation of the \<open>Transport\<close> interface that
  replays recorded input; it meets the contracts and runs the witnesses.
\<close>

section \<open>Byte streams\<close>

locale byte_stream =
  fixes E :: "'d env" and stream :: "'d \<Rightarrow> bytes"
  assumes read_byte: "stream d = b # bs \<Longrightarrow> \<exists>d'. t_read E 1 d = (([b], None), d') \<and> stream d' = bs"
    and read_empty: "stream d = [] \<Longrightarrow> \<exists>d'. t_read E 1 d = (([], None), d') \<and> stream d' = []"
    and timeout_ok: "\<exists>d'. t_setReadTimeout E t d = (None, d') \<and> stream d' = stream d"
    and clock_stream: "stream (snd (time_now E d)) = stream d"

sublocale byte_stream \<subseteq> finite: finite_input E "\<lambda>d. length (stream d)"
proof
  fix d b bs d' assume r: "t_read E 1 d = ((b # bs, None), d')"
  show "length (stream d') < length (stream d)"
  proof (cases "stream d")
    case Nil
    with read_empty [OF Nil] r show ?thesis by auto
  next
    case (Cons x xs)
    with read_byte [OF Cons] r show ?thesis by auto
  qed
next
  fix t d x d' assume "t_setReadTimeout E t d = (x, d')"
  then show "length (stream d') \<le> length (stream d)" using timeout_ok [of t d] by auto
next
  fix d n d' assume "time_now E d = (n, d')"
  then show "length (stream d') \<le> length (stream d)" using clock_stream [of d] by simp
qed

context byte_stream
begin

abbreviation incoming :: "'d loader \<Rightarrow> bytes" where
  "incoming l \<equiv> stream (dev l)"

lemma readByte_stream:
  assumes "incoming l = b # bs"
  obtains l' where "readByte E l = Some (Ok b, l')" "incoming l' = bs"
proof -
  from read_byte [OF assms] obtain d' where "t_read E (Suc 0) (dev l) = (([b], None), d')" "stream d' = bs" by auto
  from readByte_eval [OF this(1)] this(2) show ?thesis by (auto intro: that)
qed

lemma readByte_timeout:
  assumes "incoming l = []"
  obtains l' where "readByte E l = Some (Fail ErrTimeout, l')" "incoming l' = []"
proof -
  from read_empty [OF assms] obtain d' where "t_read E (Suc 0) (dev l) = (([], None), d')" "stream d' = []" by auto
  from readByte_eval [OF this(1)] this(2) show ?thesis by (auto intro: that)
qed

text \<open>Everything up to a delimiter is skipped.\<close>

lemma seekStart_stream:
  "slipEnd \<notin> set noise \<Longrightarrow> incoming l = noise @ slipEnd # rest \<Longrightarrow>
   \<exists>l'. seekStart E l = Some (Ok (), l') \<and> incoming l' = rest"
proof (induction noise arbitrary: l)
  case Nil
  then obtain l' where "readByte E l = Some (Ok slipEnd, l')" "incoming l' = rest"
    by (auto elim: readByte_stream)
  then show ?case by (simp add: seekStart.simps [of E l] bind_io_eval)
next
  case (Cons x noise)
  then obtain l1 where "readByte E l = Some (Ok x, l1)" "incoming l1 = noise @ slipEnd # rest"
    by (auto elim: readByte_stream)
  with Cons show ?case by (auto simp: seekStart.simps [of E l] bind_io_eval)
qed

text \<open>Doubled delimiters collapse; then the body is unescaped up to the closing delimiter.\<close>

lemma readBody_delimiters:
  "incoming l = replicate n slipEnd @ rest \<Longrightarrow>
   \<exists>l'. incoming l' = rest \<and> readBody E [] l = readBody E [] l'"
proof (induction n arbitrary: l)
  case (Suc n)
  then obtain l1 where "readByte E l = Some (Ok slipEnd, l1)" "incoming l1 = replicate n slipEnd @ rest"
    by (auto elim: readByte_stream)
  with Suc.IH [of l1] show ?case by (auto simp: readBody.simps [of E _ l] bind_io_eval)
qed auto

lemma readBody_stream:
  "incoming l = slipBody p @ slipEnd # rest \<Longrightarrow> out @ p \<noteq> [] \<Longrightarrow>
   \<exists>l'. readBody E out l = Some (Ok (out @ p), l') \<and> incoming l' = rest"
proof (induction p arbitrary: out l)
  case Nil
  then obtain l' where "readByte E l = Some (Ok slipEnd, l')" "incoming l' = rest"
    by (auto elim: readByte_stream)
  with Nil show ?case by (auto simp: readBody.simps [of E out l] bind_io_eval)
next
  case (Cons b p)
  have IH: "\<exists>l'. readBody E (out @ [b]) l2 = Some (Ok (out @ b # p), l') \<and> incoming l' = rest"
    if "incoming l2 = slipBody p @ slipEnd # rest" for l2
    using Cons.IH [OF that, of "out @ [b]"] by simp
  show ?case
  proof (cases "b = slipEnd \<or> b = slipEsc")
    case True
    then obtain c where c: "slipEscape b = [slipEsc, c]"
      "c = slipEscEnd \<and> b = slipEnd \<or> c = slipEscEsc \<and> b = slipEsc"
      by (auto simp: slipEscape_def)
    then have "incoming l = slipEsc # c # slipBody p @ slipEnd # rest" using Cons.prems by simp
    then obtain l1 where r1: "readByte E l = Some (Ok slipEsc, l1)" "incoming l1 = c # slipBody p @ slipEnd # rest"
      by (rule readByte_stream)
    from r1(2) obtain l2 where r2: "readByte E l1 = Some (Ok c, l2)" "incoming l2 = slipBody p @ slipEnd # rest"
      by (rule readByte_stream)
    from IH [OF r2(2)] show ?thesis
      using c(2) by (auto simp: readBody.simps [of E out l] bind_io_eval r1 r2)
  next
    case False
    then have "incoming l = b # slipBody p @ slipEnd # rest" using Cons.prems by (simp add: slipEscape_def)
    then obtain l1 where r1: "readByte E l = Some (Ok b, l1)" "incoming l1 = slipBody p @ slipEnd # rest"
      by (rule readByte_stream)
    from IH [OF r1(2)] show ?thesis
      using False by (auto simp: readBody.simps [of E out l] bind_io_eval r1)
  qed
qed

lemma readFrame_stream:
  assumes "slipEnd \<notin> set noise" and "p \<noteq> []"
    and "incoming l = noise @ replicate n slipEnd @ slipEncode p @ rest"
  obtains l' where "readFrame E t l = Some (Ok p, l')" "incoming l' = rest"
proof -
  from timeout_ok obtain d where s: "t_setReadTimeout E t (dev l) = (None, d)" "stream d = incoming l" by blast
  define l0 where "l0 = logged [EvSetReadTimeout t] d l"
  have st: "setReadTimeout E t l = Some (Ok (), l0)"
    by (simp add: setReadTimeout_def call_def s l0_def)
  have "incoming l0 = noise @ slipEnd # replicate n slipEnd @ slipBody p @ slipEnd # rest"
    using assms(3) s(2)
    by (simp add: l0_def slipEncode_conv) (simp add: replicate_app_Cons_same)
  from seekStart_stream [OF assms(1) this] obtain l1 where
    k: "seekStart E l0 = Some (Ok (), l1)" "incoming l1 = replicate n slipEnd @ slipBody p @ slipEnd # rest" by blast
  from readBody_delimiters [OF k(2)] obtain l2 where
    c: "incoming l2 = slipBody p @ slipEnd # rest" "readBody E [] l1 = readBody E [] l2" by blast
  from readBody_stream [OF c(1), of "[]"] assms(2) obtain l' where
    "readBody E [] l2 = Some (Ok p, l')" "incoming l' = rest" by auto
  then show ?thesis
    using st k c by (intro that [of l']) (simp_all add: readFrame_def bind_io_eval)
qed

end

section \<open>Links that answer in time\<close>

text \<open>A packet that does not answer request \<open>c\<close>.\<close>

definition other_packet :: "byte \<Rightarrow> bytes \<Rightarrow> bool" where
  "other_packet c f \<longleftrightarrow> f \<noteq> [] \<and> (case parseResponse f of None \<Rightarrow> True | Some r \<Rightarrow> r_cmd r \<noteq> c)"

locale prompt_link = byte_stream E stream for E :: "'d env" and stream :: "'d \<Rightarrow> bytes" +
  assumes write_some: "b \<noteq> [] \<Longrightarrow> \<exists>n d'. t_write E b d = ((n, None), d') \<and> 0 < n \<and> n \<le> int (length b)
      \<and> stream d' = stream d"
    and clock_stands: "fst (time_now E d) = fst (time_now E d')"
begin

lemma writeAll_link: "\<exists>l'. writeAll E b l = Some (Ok (), l') \<and> incoming l' = incoming l"
proof (induction b arbitrary: l rule: length_induct)
  case (1 b)
  show ?case
  proof (cases "b = []")
    case False
    from write_some [OF False] obtain n d where
      w: "t_write E b (dev l) = ((n, None), d)" "0 < n" "n \<le> int (length b)" "stream d = incoming l" by blast
    define l1 where "l1 = logged [EvWrite (take (nat n) b)] d l"
    have "length (drop (nat n) b) < length b" using False w(2) by simp
    with "1.IH" obtain l' where "writeAll E (drop (nat n) b) l1 = Some (Ok (), l')" "incoming l' = incoming l1" by blast
    with w writeAll_step [OF False w(1)] show ?thesis by (auto simp: l1_def)
  qed simp
qed

lemma now_link: "\<exists>l'. now E l = Some (Ok (fst (time_now E d)), l') \<and> incoming l' = incoming l"
proof -
  obtain n d' where n: "time_now E (dev l) = (n, d')" by (metis surj_pair)
  then have "n = fst (time_now E d)" "stream d' = incoming l"
    using clock_stands [of "dev l" d] clock_stream [of "dev l"] by simp_all
  with n show ?thesis by (simp add: now_def)
qed

lemma awaitReply_link:
  assumes "fst (time_now E d) < dl" and "list_all (other_packet c) junk"
    and "parseResponse p = Some resp" and "r_cmd resp = c" and "p \<noteq> []"
    and "incoming l = concat (map slipEncode junk) @ slipEncode p @ rest"
  shows "\<exists>l'. awaitReply E c dl t l = Some (checkReply c (stub l) resp, l') \<and> incoming l' = rest"
  using assms(2,6)
proof (induction junk arbitrary: l)
  case Nil
  from now_link obtain l1 where n: "now E l = Some (Ok (fst (time_now E d)), l1)" "incoming l1 = incoming l" by blast
  from Nil n obtain l2 where f: "readFrame E t l1 = Some (Ok p, l2)" "incoming l2 = rest"
    using readFrame_stream [of "[]" p l1 0 rest t] assms(5) by auto
  have "stub l2 = stub l" using readFrame_fields [OF f(1)] now_fields [OF n(1)] by simp
  with n f assms show ?case
    by (auto simp: awaitReply.simps [of E c dl t l] bind_io_eval checkReply_def)
next
  case (Cons j junk)
  from now_link obtain l1 where n: "now E l = Some (Ok (fst (time_now E d)), l1)" "incoming l1 = incoming l" by blast
  let ?more = "concat (map slipEncode junk) @ slipEncode p @ rest"
  from Cons.prems n obtain l2 where f: "readFrame E t l1 = Some (Ok j, l2)" "incoming l2 = ?more"
    using readFrame_stream [of "[]" j l1 0 ?more t] by (auto simp: other_packet_def)
  have "stub l2 = stub l" using readFrame_fields [OF f(1)] now_fields [OF n(1)] by simp
  moreover have "awaitReply E c dl t l = awaitReply E c dl t l2"
    using Cons.prems n f assms(1)
    by (auto simp: awaitReply.simps [of E c dl t l] bind_io_eval other_packet_def split: option.splits)
  moreover have "\<exists>l'. awaitReply E c dl t l2 = Some (checkReply c (stub l2) resp, l') \<and> incoming l' = rest"
    using Cons.prems(1) f(2) by (intro Cons.IH) simp_all
  ultimately show ?case by (simp only:)
qed

text \<open>The request returns the reply that answers it, with the chip's verdict.\<close>

lemma command_link:
  assumes "0 < t" and "list_all (other_packet c) junk"
    and "length (p @ trailer (stub l) st ec) < 65536"
    and "incoming l = concat (map slipEncode junk) @ slipEncode (replyPacket c v (p @ trailer (stub l) st ec)) @ rest"
  shows "\<exists>l'. command E c d k t l =
      Some (if st = 0 then Ok \<lparr>r_cmd = c, r_value = v, r_data = p @ trailer (stub l) st ec\<rparr>
            else Fail (CmdError c ec), l') \<and> incoming l' = rest"
proof -
  let ?resp = "\<lparr>r_cmd = c, r_value = v, r_data = p @ trailer (stub l) st ec\<rparr>"
  from writeAll_link obtain l1 where
    w: "writeAll E (slipEncode (encodeCommand c d k)) l = Some (Ok (), l1)" "incoming l1 = incoming l" by blast
  from now_link obtain l2 where n: "now E l1 = Some (Ok (fst (time_now E (dev l))), l2)" "incoming l2 = incoming l1" by blast
  have st: "stub l2 = stub l" using now_fields [OF n(1)] writeAll_fields [OF w(1)] by simp
  have "parseResponse (replyPacket c v (p @ trailer (stub l) st ec)) = Some ?resp"
    using parseResponse_replyPacket [OF assms(3), of c v "[]"] by simp
  then have "\<exists>l'. awaitReply E c (fst (time_now E (dev l)) + t) t l2 = Some (checkReply c (stub l2) ?resp, l') \<and> incoming l' = rest"
    using assms n(2) w(2) by (intro awaitReply_link [where d = "dev l"]) (auto simp: replyPacket_def)
  moreover have "checkReply c (stub l2) ?resp = (if st = 0 then Ok ?resp else Fail (CmdError c ec))"
    using status_trailer [of ?resp p "stub l" st ec] by (simp add: checkReply_def \<open>stub l2 = stub l\<close>)
  ultimately show ?thesis
    using w n by (auto simp: command_def bind_io_eval)
qed

text \<open>The chip's answer \<open>v\<close>, \<open>p\<close> to request \<open>c\<close>, with status "success".\<close>

lemma command_answered:
  assumes "0 < t" and "length p < 65000"
    and "incoming l = slipEncode (replyPacket c v (p @ trailer (stub l) 0 ec)) @ rest"
  obtains l' where "command E c d k t l = Some (Ok \<lparr>r_cmd = c, r_value = v, r_data = p @ trailer (stub l) 0 ec\<rparr>, l')"
    and "incoming l' = rest" and "sent l' = sent l @ slipEncode (encodeCommand c d k)"
    and "stub l' = stub l" and "chip_of l' = chip_of l" and "curBaud l' = curBaud l"
proof -
  have "length (p @ trailer (stub l) 0 ec) < 65536"
    using assms(2) by (simp add: trailerLen_def)
  with command_link [OF assms(1), of c "[]" p l 0 ec v rest d k] assms(3) obtain l' where
    run: "command E c d k t l = Some (Ok \<lparr>r_cmd = c, r_value = v, r_data = p @ trailer (stub l) 0 ec\<rparr>, l')"
    and rest: "incoming l' = rest" by auto
  show ?thesis
    by (rule that [OF run rest command_Ok(1) [OF run] command_fields(1,3,2) [OF run]])
qed

end

section \<open>A test double\<close>

text \<open>
  A port that replays \<open>rx\<close> and accepts at most \<open>width\<close> bytes per write, with a clock that
  the program's own sleeps advance.
\<close>

record replay =
  rx :: bytes
  clock :: int

definition replay_env :: "nat \<Rightarrow> replay env" where
  "replay_env width = \<lparr>
     t_read = (\<lambda>n s. ((take n (rx s), None), s\<lparr>rx := drop n (rx s)\<rparr>)),
     t_write = (\<lambda>b s. ((int (min width (length b)), None), s)),
     t_close = (\<lambda>s. (None, s)),
     t_setBaud = (\<lambda>_ s. (None, s)),
     t_setDTR = (\<lambda>_ s. (None, s)),
     t_setRTS = (\<lambda>_ s. (None, s)),
     t_setReadTimeout = (\<lambda>_ s. (None, s)),
     t_flushInput = (\<lambda>s. (None, s)),
     time_now = (\<lambda>s. (0, s)),
     time_sleep = (\<lambda>t s. s\<lparr>clock := clock s + t\<rparr>),
     ctx_err = (\<lambda>s. (None, s))\<rparr>"

lemma replay_env_sel [simp]:
  "t_read (replay_env w) n s = ((take n (rx s), None), s\<lparr>rx := drop n (rx s)\<rparr>)"
  "t_write (replay_env w) b s = ((int (min w (length b)), None), s)"
  "t_close (replay_env w) s = (None, s)" "t_setBaud (replay_env w) m s = (None, s)"
  "t_setDTR (replay_env w) v s = (None, s)" "t_setRTS (replay_env w) v s = (None, s)"
  "t_setReadTimeout (replay_env w) t s = (None, s)" "t_flushInput (replay_env w) s = (None, s)"
  "time_now (replay_env w) s = (0, s)" "time_sleep (replay_env w) t s = s\<lparr>clock := clock s + t\<rparr>"
  "ctx_err (replay_env w) s = (None, s)"
  by (simp_all add: replay_env_def)

interpretation replayed: byte_stream "replay_env w" rx for w
  by unfold_locales auto

lemma replay_link: "0 < w \<Longrightarrow> prompt_link (replay_env w) rx"
  by unfold_locales (auto simp: min_def)

interpretation replayed_link: prompt_link "replay_env (Suc w)" rx for w
  by (rule replay_link) simp

definition replaying :: "bytes \<Rightarrow> replay loader" where
  "replaying bs = NewLoader \<lparr>rx = bs, clock = 0\<rparr>"

end
