(* ===== verification/Macs.thy ===== *)
theory Macs
  imports LoaderStream
begin

text \<open>
  The identity of the chip (\<open>esp/macs.go\<close> and the identity part of \<open>esp/loader.go\<close>):
  the interface MAC addresses derived from the factory base MAC, their renderings, and the
  reading of all of it over the bootloader. A \<open>[6]byte\<close> is a byte list of length 6.
\<close>

section \<open>Deriving the addresses\<close>

record macs =
  WiFiSTA :: bytes
  WiFiAP :: bytes
  BT :: bytes
  ETH :: bytes

definition macAdd :: "bytes \<Rightarrow> byte \<Rightarrow> bytes" where
  "macAdd base n = base[5 := base ! 5 + n]"

definition macLocal :: "bytes \<Rightarrow> bytes" where
  "macLocal u =
     (let m = u[0 := u ! 0 OR 0x02] in
      if m ! 0 = u ! 0 then m[0 := m ! 0 XOR 0x04] else m)"

definition DeriveMACs :: "bytes \<Rightarrow> int \<Rightarrow> macs" where
  "DeriveMACs base universal =
     (if 4 \<le> universal then
        \<lparr>WiFiSTA = macAdd base 0, WiFiAP = macAdd base 1, BT = macAdd base 2, ETH = macAdd base 3\<rparr>
      else
        let sta = macAdd base 0; bt = macAdd base 1 in
        \<lparr>WiFiSTA = sta, WiFiAP = macLocal sta, BT = bt, ETH = macLocal bt\<rparr>)"

lemma macAdd_0 [simp]: "macAdd base 0 = base"
  by (simp add: macAdd_def)

lemma length_mac [simp]: "length (macAdd base n) = length base" "length (macLocal u) = length u"
  by (simp_all add: macAdd_def macLocal_def Let_def)

lemma macAdd_nth: "length base = 6 \<Longrightarrow> macAdd base n ! 5 = base ! 5 + n"
  "i \<noteq> 5 \<Longrightarrow> macAdd base n ! i = base ! i"
  by (simp_all add: macAdd_def)

lemma macLocal_nth: "i \<noteq> 0 \<Longrightarrow> macLocal u ! i = u ! i"
  by (simp add: macLocal_def Let_def)

lemma macLocal_first:
  assumes "u \<noteq> []"
  shows "bit (macLocal u ! 0) 1" and "macLocal u ! 0 \<noteq> u ! 0"
proof -
  have two: "bit (2 :: byte) n \<longleftrightarrow> n = 1" for n by (auto simp: bit_2_iff)
  have four: "bit (4 :: byte) n \<longleftrightarrow> n = 2" for n
    using bit_exp_iff [of 2 n, where 'a = "8 word"] by auto
  have "bit (u ! 0 OR 2) 1" by (simp add: bit_or_iff two)
  then have "u ! 0 OR 2 = u ! 0 \<Longrightarrow> bit (u ! 0) 1" by simp
  then show "bit (macLocal u ! 0) 1"
    using assms by (auto simp: macLocal_def Let_def bit_or_iff bit_xor_iff two four)
  have "u ! 0 XOR 4 \<noteq> u ! 0"
  proof
    assume "u ! 0 XOR 4 = u ! 0"
    then have "bit (u ! 0 XOR 4) 2 \<longleftrightarrow> bit (u ! 0) 2" by simp
    then show False by (simp add: bit_xor_iff four)
  qed
  then show "macLocal u ! 0 \<noteq> u ! 0"
    using assms by (auto simp: macLocal_def Let_def)
qed

lemma distinct_last: "x ! 5 \<noteq> y ! 5 \<Longrightarrow> x \<noteq> (y :: bytes)"
  by blast

lemma byte_add_neq: "a + 1 \<noteq> (a :: byte)" "a + 2 \<noteq> a" "a + 3 \<noteq> a" "a + 1 \<noteq> a + 2" "a + 1 \<noteq> a + 3" "a + 2 \<noteq> a + 3"
  by simp_all

text \<open>The four interface addresses of a board are pairwise different, whatever the base
  address (also where the last octet wraps) and under both schemes.\<close>

theorem DeriveMACs_distinct:
  assumes "length base = 6"
  shows "distinct [WiFiSTA (DeriveMACs base n), WiFiAP (DeriveMACs base n), BT (DeriveMACs base n), ETH (DeriveMACs base n)]"
proof (cases "4 \<le> n")
  case True
  then show ?thesis
    using assms by (auto simp: DeriveMACs_def macAdd_nth dest!: arg_cong [where f = "\<lambda>m. m ! 5"])
next
  case False
  have ne: "base \<noteq> []" "macAdd base 1 \<noteq> []" using assms by (auto dest!: arg_cong [where f = length])
  have l: "macLocal base ! 5 = base ! 5" "macLocal (macAdd base 1) ! 5 = base ! 5 + 1" "macAdd base 1 ! 5 = base ! 5 + 1"
    using assms by (simp_all add: macLocal_nth macAdd_nth)
  have "base \<noteq> macLocal base" "macAdd base 1 \<noteq> macLocal (macAdd base 1)"
    using macLocal_first(2) [OF ne(1)] macLocal_first(2) [OF ne(2)] by metis+
  moreover have "base \<noteq> macAdd base 1" "base \<noteq> macLocal (macAdd base 1)" "macLocal base \<noteq> macAdd base 1"
    "macLocal base \<noteq> macLocal (macAdd base 1)"
    using l byte_add_neq(1) [of "base ! 5"] by metis+
  ultimately show ?thesis
    using False by (simp add: DeriveMACs_def Let_def)
qed

theorem DeriveMACs_distinct_witness:
  "distinct [WiFiSTA (DeriveMACs [0xfc, 0x01, 0x2c, 0xfe, 0x77, 0xff] 4), WiFiAP (DeriveMACs [0xfc, 0x01, 0x2c, 0xfe, 0x77, 0xff] 4),
     BT (DeriveMACs [0xfc, 0x01, 0x2c, 0xfe, 0x77, 0xff] 4), ETH (DeriveMACs [0xfc, 0x01, 0x2c, 0xfe, 0x77, 0xff] 4)]"
  by (rule DeriveMACs_distinct) simp

text \<open>With two universal addresses the station and Bluetooth addresses are the base
  address and its successor in the last octet, and the two other addresses are locally
  administered and differ from the universal ones in the first octet only.\<close>

theorem DeriveMACs_two_universal:
  assumes "length base = 6" and "n < 4"
  shows "WiFiSTA (DeriveMACs base n) = base \<and> BT (DeriveMACs base n) = base[5 := base ! 5 + 1]
    \<and> bit (WiFiAP (DeriveMACs base n) ! 0) 1 \<and> bit (ETH (DeriveMACs base n) ! 0) 1
    \<and> drop 1 (WiFiAP (DeriveMACs base n)) = drop 1 (WiFiSTA (DeriveMACs base n))
    \<and> drop 1 (ETH (DeriveMACs base n)) = drop 1 (BT (DeriveMACs base n))"
proof -
  have ne: "base \<noteq> []" "macAdd base 1 \<noteq> []" using assms(1) by (auto dest!: arg_cong [where f = length])
  have "drop 1 (macLocal u) = drop 1 u" for u
    by (simp add: macLocal_def Let_def)
  then show ?thesis
    using assms(2) macLocal_first(1) [OF ne(1)] macLocal_first(1) [OF ne(2)]
    by (simp add: DeriveMACs_def macAdd_def Let_def)
qed

theorem DeriveMACs_two_universal_witness:
  "let base = [0x68, 0xee, 0x8f, 0x52, 0x9a, 0xc8]; m = DeriveMACs base 2 in
   WiFiSTA m = base \<and> BT m = base[5 := base ! 5 + 1] \<and> bit (WiFiAP m ! 0) 1 \<and> bit (ETH m ! 0) 1
    \<and> drop 1 (WiFiAP m) = drop 1 (WiFiSTA m) \<and> drop 1 (ETH m) = drop 1 (BT m)"
  using DeriveMACs_two_universal [of "[0x68, 0xee, 0x8f, 0x52, 0x9a, 0xc8]" 2] by (simp add: Let_def)

section \<open>Rendering\<close>

definition FormatMAC :: "bytes \<Rightarrow> string" where
  "FormatMAC m = hex2 (m ! 0) @ '':'' @ hex2 (m ! 1) @ '':'' @ hex2 (m ! 2) @ '':'' @
     hex2 (m ! 3) @ '':'' @ hex2 (m ! 4) @ '':'' @ hex2 (m ! 5)"

definition HexID :: "bytes \<Rightarrow> string" where
  "HexID m = hex2 (m ! 0) @ hex2 (m ! 1) @ hex2 (m ! 2) @ hex2 (m ! 3) @ hex2 (m ! 4) @ hex2 (m ! 5)"

definition EUI64Hex :: "bytes \<Rightarrow> string" where
  "EUI64Hex m = hex2 (m ! 0) @ hex2 (m ! 1) @ hex2 (m ! 2) @ ''fffe'' @ hex2 (m ! 3) @ hex2 (m ! 4) @ hex2 (m ! 5)"

lemma length6_conv: "length m = 6 \<Longrightarrow> m = [m ! 0, m ! 1, m ! 2, m ! 3, m ! 4, m ! 5]"
  by (rule nth_equalityI) (auto simp: less_Suc_eq numeral_eq_Suc)

lemma HexID_hexEncode:
  assumes "length m = 6"
  shows "HexID m = hexEncode m"
proof -
  have "hexEncode m = hexEncode [m ! 0, m ! 1, m ! 2, m ! 3, m ! 4, m ! 5]"
    by (rule arg_cong [OF length6_conv [OF assms]])
  then show ?thesis by (simp add: HexID_def hexEncode_def)
qed

lemma EUI64Hex_hexEncode: "length m = 6 \<Longrightarrow> EUI64Hex m = hexEncode (take 3 m @ [0xff, 0xfe] @ drop 3 m)"
proof -
  have "hexEncode [0xff, 0xfe] = ''fffe''" by (simp add: hexEncode_def hex2_def hexDigit_def)
  moreover assume "length m = 6"
  then have "take 3 m = [m ! 0, m ! 1, m ! 2]" "drop 3 m = [m ! 3, m ! 4, m ! 5]"
    by (subst length6_conv, simp, simp)+
  ultimately show ?thesis
    by (simp add: EUI64Hex_def hexEncode_append) (simp add: hexEncode_def)
qed

lemma hex2_inject: "hex2 a = hex2 b \<Longrightarrow> a = b"
  using hexDecode_hex2 [of a "[]"] hexDecode_hex2 [of b "[]"] by simp

lemma length_hex2 [simp]: "length (hex2 b) = 2"
  by (simp add: hex2_def)

text \<open>Each of the three renderings determines the address: no two boards share a board
  id, in either form, or a printed MAC.\<close>

theorem renderings_injective:
  assumes "length m = 6" and "length m' = 6"
  shows "(HexID m = HexID m' \<longleftrightarrow> m = m') \<and> (EUI64Hex m = EUI64Hex m' \<longleftrightarrow> m = m') \<and> (FormatMAC m = FormatMAC m' \<longleftrightarrow> m = m')"
proof (intro conjI)
  show "HexID m = HexID m' \<longleftrightarrow> m = m'"
    using assms by (simp add: HexID_hexEncode)
  have "take 3 m @ [0xff, 0xfe] @ drop 3 m = take 3 m' @ [0xff, 0xfe] @ drop 3 m' \<longleftrightarrow> m = m'"
    using assms by (auto simp: append_eq_append_conv) (metis append_take_drop_id)
  then show "EUI64Hex m = EUI64Hex m' \<longleftrightarrow> m = m'"
    using assms by (simp add: EUI64Hex_hexEncode)
  show "FormatMAC m = FormatMAC m' \<longleftrightarrow> m = m'"
  proof
    assume "FormatMAC m = FormatMAC m'"
    then have "\<forall>i \<in> {0, 1, 2, 3, 4, 5}. m ! i = m' ! i"
      by (auto simp: FormatMAC_def append_eq_append_conv dest!: hex2_inject)
    then show "m = m'"
      using length6_conv [OF assms(1)] length6_conv [OF assms(2)] by simp
  qed simp
qed

theorem renderings_injective_witness:
  "let m = [0xfc, 0x01, 0x2c, 0xfe, 0x77, 0xbc]; m' = [0xfc, 0x01, 0x2c, 0xfe, 0x77, 0xbe] in
   (HexID m = HexID m' \<longleftrightarrow> m = m') \<and> (EUI64Hex m = EUI64Hex m' \<longleftrightarrow> m = m') \<and> (FormatMAC m = FormatMAC m' \<longleftrightarrow> m = m')"
  unfolding Let_def by (rule renderings_injective) simp_all

section \<open>Reading the identity\<close>

definition MACs :: "'d env \<Rightarrow> ('d, macs) esp" where
  "MACs E =
     bind_io (ensureChip E) (\<lambda>_.
     bind_io (BaseMAC E) (\<lambda>base.
     bind_io theChip (\<lambda>c.
     ret (DeriveMACs base (UniversalMACs c)))))"

text \<open>The wire format of a request and of an answer with status "success".\<close>

definition requestFrame :: "byte \<Rightarrow> bytes \<Rightarrow> bytes" where
  "requestFrame c d = slipEncode (encodeCommand c d 0)"

definition answerFrame :: "bool \<Rightarrow> byte \<Rightarrow> u32 \<Rightarrow> bytes \<Rightarrow> bytes" where
  "answerFrame st c v p = slipEncode (replyPacket c v (p @ trailer st 0 0))"

lemma timeouts_pos [simp]: "0 < cmdTimeout" "0 < syncTimeout"
  by (simp_all add: cmdTimeout_def syncTimeout_def second_def millisecond_def)

lemma theChip_apply [simp]: "chip_of l = Some c \<Longrightarrow> theChip l = Some (Ok c, l)"
  by (simp add: theChip_def)

lemma ensureChip_known [simp]: "chip_of l = Some c \<Longrightarrow> ensureChip E l = Some (Ok (), l)"
  by (simp add: ensureChip_def)

context prompt_link
begin

lemma ReadReg_answered:
  assumes "incoming l = answerFrame (stub l) cmdReadReg v [] @ rest"
  obtains l' where "ReadReg E a l = Some (Ok v, l')" "incoming l' = rest"
    "sent l' = sent l @ requestFrame cmdReadReg (le32 a)" "stub l' = stub l" "chip_of l' = chip_of l"
  by (rule command_answered [of cmdTimeout "[]" l cmdReadReg v 0 rest "le32 a" 0])
    (use assms in \<open>auto simp: answerFrame_def ReadReg_def requestFrame_def bind_io_eval intro: that\<close>)

lemma ChipID_answered:
  assumes "incoming l = answerFrame (stub l) cmdGetSecurityInfo v p @ rest" and "16 \<le> length p" "length p < 65000"
  obtains l' where "ChipID E l = Some (Ok (get32 (drop 12 p)), l')" "incoming l' = rest"
    "sent l' = sent l @ requestFrame cmdGetSecurityInfo []" "stub l' = stub l" "chip_of l' = chip_of l"
proof (rule command_answered [of cmdTimeout p l cmdGetSecurityInfo v 0 rest "[]" 0])
  fix l'
  assume run: "command E cmdGetSecurityInfo [] 0 cmdTimeout l
      = Some (Ok \<lparr>r_cmd = cmdGetSecurityInfo, r_value = v, r_data = p @ trailer (stub l) 0 0\<rparr>, l')"
    and st: "incoming l' = rest" "sent l' = sent l @ slipEncode (encodeCommand cmdGetSecurityInfo [] 0)"
      "stub l' = stub l" "chip_of l' = chip_of l"
  have "ChipID E l = Some (Ok (get32 (drop 12 p)), l')"
    using run st assms(2)
    by (simp add: ChipID_def bind_io_eval payload_trailer [where p = p and s = 0 and e = 0] Let_def)
  then show thesis using st by (intro that [of l']) (simp_all add: requestFrame_def)
qed (use assms in \<open>simp_all add: answerFrame_def\<close>)

lemma ensureChip_answered:
  assumes "incoming l = answerFrame (stub l) cmdGetSecurityInfo v p @ rest" and "16 \<le> length p" "length p < 65000"
    and "chip_of l = None" and "chips (get32 (drop 12 p)) = Some ch"
  obtains l' where "ensureChip E l = Some (Ok (), l')" "incoming l' = rest"
    "sent l' = sent l @ requestFrame cmdGetSecurityInfo []" "stub l' = stub l" "chip_of l' = Some ch"
proof (rule ChipID_answered [OF assms(1-3)])
  fix l'
  assume run: "ChipID E l = Some (Ok (get32 (drop 12 p)), l')" and st: "incoming l' = rest"
    "sent l' = sent l @ requestFrame cmdGetSecurityInfo []" "stub l' = stub l"
  have "ensureChip E l = Some (Ok (), l'\<lparr>chip_of := Some ch\<rparr>)"
    using assms(4,5) run by (simp add: ensureChip_def bind_io_eval wrap_io_eval)
  then show thesis using st by (intro that [of "l'\<lparr>chip_of := Some ch\<rparr>"]) simp_all
qed

lemma MACs_answered:
  assumes "incoming l = answerFrame (stub l) cmdGetSecurityInfo v p
      @ answerFrame (stub l) cmdReadReg mac0 [] @ answerFrame (stub l) cmdReadReg mac1 [] @ rest"
    and "16 \<le> length p" "length p < 65000"
    and "chip_of l = None" and "chips (get32 (drop 12 p)) = Some ch"
  shows "\<exists>l'. MACs E l = Some (Ok (DeriveMACs (drop 2 (be32 mac1 @ be32 mac0)) (UniversalMACs ch)), l')
    \<and> incoming l' = rest \<and> chip_of l' = Some ch
    \<and> sent l' = sent l @ requestFrame cmdGetSecurityInfo []
        @ requestFrame cmdReadReg (le32 (MACEfuseReg ch)) @ requestFrame cmdReadReg (le32 (MACEfuseReg ch + 4))"
proof -
  from ensureChip_answered [OF assms] obtain l1 where e: "ensureChip E l = Some (Ok (), l1)"
    "incoming l1 = answerFrame (stub l) cmdReadReg mac0 [] @ answerFrame (stub l) cmdReadReg mac1 [] @ rest"
    "sent l1 = sent l @ requestFrame cmdGetSecurityInfo []" "stub l1 = stub l" "chip_of l1 = Some ch" by blast
  from e(2,4) have "incoming l1 = answerFrame (stub l1) cmdReadReg mac0 [] @ answerFrame (stub l) cmdReadReg mac1 [] @ rest"
    by simp
  then obtain l2 where r0: "ReadReg E (MACEfuseReg ch) l1 = Some (Ok mac0, l2)"
    "incoming l2 = answerFrame (stub l) cmdReadReg mac1 [] @ rest"
    "sent l2 = sent l1 @ requestFrame cmdReadReg (le32 (MACEfuseReg ch))" "stub l2 = stub l1" "chip_of l2 = chip_of l1"
    by (rule ReadReg_answered)
  from r0(2,4) e(4) have "incoming l2 = answerFrame (stub l2) cmdReadReg mac1 [] @ rest" by simp
  then obtain l3 where r1: "ReadReg E (MACEfuseReg ch + 4) l2 = Some (Ok mac1, l3)" "incoming l3 = rest"
    "sent l3 = sent l2 @ requestFrame cmdReadReg (le32 (MACEfuseReg ch + 4))" "chip_of l3 = chip_of l2"
    by (rule ReadReg_answered)
  have "overwrite 4 (be32 mac0) (overwrite 0 (be32 mac1) (replicate 8 0)) = be32 mac1 @ be32 mac0"
    by (simp add: overwrite_def be32_def numeral_eq_Suc)
  then have "BaseMAC E l1 = Some (Ok (drop 2 (be32 mac1 @ be32 mac0)), l3)"
    using e r0 r1 by (simp add: BaseMAC_def bind_io_eval Let_def)
  then show ?thesis
    using e r0 r1 by (simp add: MACs_def bind_io_eval)
qed

end

text \<open>C17. On a link that answers, \<open>MACs\<close> identifies the chip from its security information,
  reads the two eFuse registers of that target (low word first), assembles the base address
  from the low six bytes and derives the addresses with the target's scheme; the three
  requests are all it sends, and the detected target is remembered.\<close>

theorem MACs_correct:
  assumes "prompt_link E stream"
    and "stream (dev l) = answerFrame (stub l) cmdGetSecurityInfo v p
      @ answerFrame (stub l) cmdReadReg mac0 [] @ answerFrame (stub l) cmdReadReg mac1 [] @ rest"
    and "16 \<le> length p" and "length p < 65000"
    and "chip_of l = None" and "chips (get32 (drop 12 p)) = Some ch"
  shows "\<exists>l'. MACs E l = Some (Ok (DeriveMACs (drop 2 (be32 mac1 @ be32 mac0)) (UniversalMACs ch)), l')
    \<and> stream (dev l') = rest \<and> chip_of l' = Some ch
    \<and> sent l' = sent l @ requestFrame cmdGetSecurityInfo []
        @ requestFrame cmdReadReg (le32 (MACEfuseReg ch)) @ requestFrame cmdReadReg (le32 (MACEfuseReg ch + 4))"
  by (rule prompt_link.MACs_answered [OF assms])

text \<open>The ESP32-C6 of the README, on a port that takes five bytes per write.\<close>

theorem MACs_correct_witness:
  "\<exists>l'. MACs (replay_env 5) (replaying (answerFrame False cmdGetSecurityInfo 0 (replicate 12 0 @ le32 13 @ le32 0)
        @ answerFrame False cmdReadReg 0x2cfe77bc [] @ answerFrame False cmdReadReg 0x0000fc01 [] @ []))
      = Some (Ok \<lparr>WiFiSTA = [0xfc, 0x01, 0x2c, 0xfe, 0x77, 0xbc], WiFiAP = [0xfc, 0x01, 0x2c, 0xfe, 0x77, 0xbd],
                  BT = [0xfc, 0x01, 0x2c, 0xfe, 0x77, 0xbe], ETH = [0xfc, 0x01, 0x2c, 0xfe, 0x77, 0xbf]\<rparr>, l')"
proof -
  let ?p = "replicate 12 0 @ le32 13 @ le32 0"
  have ch: "chips (get32 (drop 12 ?p)) = Some \<lparr>chipID = 13, chipName = ''esp32c6'', MACEfuseReg = 0x600B0844,
      UniversalMACs = 4, stubJSON = StubC6JSON\<rparr>"
    by (simp add: chips_def ChipIDESP32S3_def ChipIDESP32C6_def)
  have mac: "drop 2 (be32 0x0000fc01 @ be32 0x2cfe77bc) = [0xfc, 0x01, 0x2c, 0xfe, 0x77, 0xbc :: byte]"
    by (simp add: be32_def)
  show ?thesis
    using MACs_correct [of "replay_env 5" rx "replaying (answerFrame False cmdGetSecurityInfo 0 ?p
        @ answerFrame False cmdReadReg 0x2cfe77bc [] @ answerFrame False cmdReadReg 0x0000fc01 [] @ [])",
        OF replay_link _ _ _ _ ch, of 0 "0x2cfe77bc" "0x0000fc01" "[]"]
    unfolding mac by (auto simp: replaying_def NewLoader_def DeriveMACs_def macAdd_def)
qed

end
