(* ===== verification/LoaderSpec.thy ===== *)
theory LoaderSpec
  imports Macs
begin

text \<open>
  The properties of the loader (\<open>esp/slip.go\<close>, \<open>esp/protocol.go\<close>, \<open>esp/loader.go\<close>): the
  frame reader against the encoder, what a request that succeeds has done, when the calls
  return and when they do not, and the reset and connection sequence.
\<close>

section \<open>Packets\<close>

text \<open>Changing one byte of a payload always changes its checksum, and swapping bytes
  never does: the chip's check sees every single-byte error on the line.\<close>

theorem checksum_detects_byte:
  "checksum (xs @ a # ys) = checksum (xs @ b # ys) \<longleftrightarrow> a = b"
  by (simp add: checksum_conv xor_left_cancel xor_right_cancel xor.left_commute [of _ "xorBytes xs"])

text \<open>The parser of replies inverts the chip's encoding, whatever follows the packet in the
  frame, and the trailer is split off at the length of the mode: four bytes on the ROM
  loader, two under the stub.\<close>

theorem parseResponse_reply:
  assumes "length (p @ trailer st s e) < 65536"
  shows "\<exists>r. parseResponse (replyPacket c v (p @ trailer st s e) @ junk) = Some r
    \<and> r_cmd r = c \<and> r_value r = v \<and> payload r st = p \<and> status r st = (s = 0, e)"
  using parseResponse_replyPacket [OF assms, of c v junk]
  by (auto intro!: exI simp: payload_trailer [where p = p and s = s and e = e] status_trailer [where p = p])

theorem parseResponse_reply_witness:
  "\<exists>r. parseResponse (replyPacket cmdReadReg 0x12345678 ([] @ trailer False 0 0) @ [1, 2]) = Some r
    \<and> r_cmd r = cmdReadReg \<and> r_value r = 0x12345678 \<and> payload r False = [] \<and> status r False = ((0 :: byte) = 0, 0)"
  by (rule parseResponse_reply) (simp add: trailerLen_def)

section \<open>Frames on a stream\<close>

text \<open>C6. The frame reader inverts the SLIP encoder: behind any noise without a delimiter and
  any number of extra delimiters it returns exactly the payload that was encoded, and
  leaves the port at the byte after the frame.\<close>

theorem readFrame_inverts_slipEncode:
  assumes "byte_stream E stream" and "slipEnd \<notin> set noise" and "p \<noteq> []"
    and "stream (dev l) = noise @ replicate n slipEnd @ slipEncode p @ rest"
  shows "\<exists>l'. readFrame E t l = Some (Ok p, l') \<and> stream (dev l') = rest"
  using byte_stream.readFrame_stream [OF assms] by blast

theorem readFrame_inverts_slipEncode_witness:
  "\<exists>l'. readFrame (replay_env 1) syncTimeout (replaying ([1, 2, slipEsc] @ replicate 2 slipEnd
      @ slipEncode [0xC0, 0xDB, 7] @ [9])) = Some (Ok [0xC0, 0xDB, 7], l') \<and> rx (dev l') = [9]"
  by (rule readFrame_inverts_slipEncode [OF replayed.byte_stream_axioms, where noise = "[1, 2, slipEsc]" and n = 2])
    (simp_all add: replaying_def NewLoader_def slip_consts)

section \<open>Requests\<close>

text \<open>C8. A request that succeeds has put its whole frame on the line, exactly once, however
  the port split the writes, and returns a reply that carries its opcode and the status
  "success" for the loader's mode; it leaves mode, baud rate and target as they were.\<close>

theorem command_success:
  assumes "command E c d k t l = Some (Ok resp, l')"
  shows "sent l' = sent l @ slipEncode (encodeCommand c d k)
    \<and> r_cmd resp = c \<and> fst (status resp (stub l))
    \<and> stub l' = stub l \<and> curBaud l' = curBaud l \<and> chip_of l' = chip_of l"
  using command_Ok [OF assms] command_fields [OF assms] by simp

theorem command_success_witness:
  "\<exists>resp l'. command (replay_env 3) cmdReadReg (le32 0x600B0844) 0 cmdTimeout
      (replaying (answerFrame False cmdReadReg 5 [])) = Some (Ok resp, l')
    \<and> sent l' = slipEncode (encodeCommand cmdReadReg (le32 0x600B0844) 0)
    \<and> r_cmd resp = cmdReadReg \<and> fst (status resp False)"
proof -
  have link: "prompt_link (replay_env 3) rx" by (rule replay_link) simp
  obtain l' where run: "command (replay_env 3) cmdReadReg (le32 0x600B0844) 0 cmdTimeout
      (replaying (answerFrame False cmdReadReg 5 []))
      = Some (Ok \<lparr>r_cmd = cmdReadReg, r_value = 5, r_data = [] @ trailer False 0 0\<rparr>, l')"
    by (rule prompt_link.command_answered [OF link, of cmdTimeout "[]" "replaying (answerFrame False cmdReadReg 5 [])"
          cmdReadReg 5 0 "[]" "le32 0x600B0844" 0])
      (simp_all add: replaying_def NewLoader_def answerFrame_def)
  from command_success [OF run] show ?thesis
    using run by (auto simp: replaying_def NewLoader_def sent_def)
qed

text \<open>C7. On a link that answers in time a request skips every packet that does not answer it
  and ends as the chip's status says: with the reply, or with the chip's error code.\<close>

theorem command_selects_reply:
  assumes "prompt_link E stream" and "0 < t" and "list_all (other_packet c) junk"
    and "length (p @ trailer (stub l) st ec) < 65536"
    and "stream (dev l) = concat (map slipEncode junk) @ slipEncode (replyPacket c v (p @ trailer (stub l) st ec)) @ rest"
  shows "\<exists>l'. command E c d k t l =
      Some (if st = 0 then Ok \<lparr>r_cmd = c, r_value = v, r_data = p @ trailer (stub l) st ec\<rparr>
            else Fail (CmdError c ec), l') \<and> stream (dev l') = rest"
  by (rule prompt_link.command_link [OF assms])

theorem command_selects_reply_witness:
  "\<exists>l'. command (replay_env 64) cmdReadReg (le32 0) 0 cmdTimeout
      (replaying (concat (map slipEncode [[1, 2, 3], replyPacket cmdSync 0 (trailer False 0 0)])
        @ slipEncode (replyPacket cmdReadReg 0 ([] @ trailer False 1 5)) @ [7]))
    = Some (Fail (CmdError cmdReadReg 5), l') \<and> rx (dev l') = [7]"
  using command_selects_reply [of "replay_env 64" rx cmdTimeout cmdReadReg
      "[[1, 2, 3], replyPacket cmdSync 0 (trailer False 0 0)]" "[]"
      "replaying (concat (map slipEncode [[1, 2, 3], replyPacket cmdSync 0 (trailer False 0 0)])
        @ slipEncode (replyPacket cmdReadReg 0 ([] @ trailer False 1 5)) @ [7])" 1 5 0 "[7]" "le32 0" 0]
    parseResponse_replyPacket [of "trailer False 0 0" cmdSync 0 "[]"]
  by (simp add: replaying_def NewLoader_def replay_link other_packet_def trailerLen_def cmd_defs
      parseResponse_def [of "[1, 2, 3]"]) (simp add: replyPacket_def)

text \<open>A request that fails, at whatever point, has put no more than a prefix of its own
  frame on the line and changed none of the loader's fields, so it can be sent again.\<close>

theorem command_failure:
  assumes "command E c d k t l = Some (r, l')"
  shows "\<exists>j. sent l' = sent l @ take j (slipEncode (encodeCommand c d k))
    \<and> stub l' = stub l \<and> curBaud l' = curBaud l \<and> chip_of l' = chip_of l"
  using command_sent [OF assms] command_fields [OF assms] by simp

theorem command_failure_witness:
  "\<exists>l'. command (replay_env 0) cmdSync syncPayload 0 syncTimeout (replaying []) = Some (Fail ShortWrite, l')
    \<and> (\<exists>j. sent l' = take j (slipEncode (encodeCommand cmdSync syncPayload 0)))"
proof -
  have ne: "slipEncode (encodeCommand cmdSync syncPayload 0) \<noteq> []" by (simp add: slipEncode_conv)
  obtain l' where run: "command (replay_env 0) cmdSync syncPayload 0 syncTimeout (replaying []) = Some (Fail ShortWrite, l')"
    by (simp add: command_def bind_io_def writeAll_step [OF ne replay_env_sel(2)])
  from command_failure [OF run] run show ?thesis
    by (auto simp: replaying_def NewLoader_def sent_def)
qed

section \<open>When calls return\<close>

text \<open>C18. Connecting ends: if at every moment the chip has only finitely many bytes to send,
  every request returns, and so does the whole connection sequence.\<close>

theorem Connect_returns:
  assumes "finite_input E pend"
  shows "(\<forall>c d k t l. \<exists>r l'. command E c d k t l = Some (r, l')) \<and> (\<forall>l. \<exists>r l'. Connect E l = Some (r, l'))"
  using finite_input.returns_command [OF assms] finite_input.returns_Connect [OF assms]
  by (simp add: returns_def)

theorem Connect_returns_witness:
  "\<exists>r l'. Connect (replay_env 4) (replaying [1, 2, 3]) = Some (r, l')"
  using Connect_returns [OF replayed.finite.finite_input_axioms] by blast

text \<open>C19. The deadline of a request does not bound it: the clock is looked at between frames
  only, so on a line that delivers bytes without a frame delimiter for ever the request
  never returns, whatever its timeout and whatever the clock says.\<close>

theorem noise_hangs_command:
  assumes noise: "\<And>d. \<exists>b d'. t_read E 1 d = (([b], None), d') \<and> b \<noteq> slipEnd"
    and timeout_ok: "\<And>t d. fst (t_setReadTimeout E t d) = None"
    and write_ok: "writeAll E (slipEncode (encodeCommand c d k)) l = Some (Ok (), l1)"
    and clock: "fst (time_now E (snd (time_now E (dev l1)))) < fst (time_now E (dev l1)) + t"
  shows "command E c d k t l = None"
proof -
  have byte: "\<exists>b l'. readByte E l = Some (Ok b, l') \<and> b \<noteq> slipEnd" for l
    using noise [of "dev l"] readByte_eval [of E l] by fastforce
  have seek: "seekStart E l = None" for l
  proof (rule ccontr)
    assume "seekStart E l \<noteq> None"
    then obtain r l' where "seekStart E l = Some (r, l')" by auto
    then show False
    proof (induction rule: seekStart_induct)
      case (Err l e l') then show ?case using byte [of l] by auto
    next
      case (Found l l') then show ?case using byte [of l] by auto
    qed
  qed
  have frame: "readFrame E t l = None" for l
  proof -
    have "\<exists>l'. setReadTimeout E t l = Some (Ok (), l')"
      using timeout_ok [of t "dev l"] by (auto simp: setReadTimeout_def call_def split: prod.split)
    then show ?thesis by (auto simp: readFrame_def bind_io_eval seek)
  qed
  obtain n d1 where n: "time_now E (dev l1) = (n, d1)" by (metis surj_pair)
  obtain m d2 where m: "time_now E d1 = (m, d2)" by (metis surj_pair)
  have "m < n + t" using clock by (simp add: n m)
  then show ?thesis
    using write_ok by (simp add: command_def bind_io_eval now_def n m awaitReply.simps frame)
qed

text \<open>A line that delivers the sync filler byte for ever.\<close>

definition noisy_env :: "replay env" where
  "noisy_env = (replay_env 64)\<lparr>t_read := (\<lambda>n s. (([0x55], None), s))\<rparr>"

lemma noisy_env_sel [simp]:
  "t_read noisy_env n s = (([0x55], None), s)"
  "t_write noisy_env b s = ((int (min 64 (length b)), None), s)"
  "t_setReadTimeout noisy_env t s = (None, s)" "time_now noisy_env s = (0, s)"
  by (simp_all add: noisy_env_def replay_env_def)

theorem noise_hangs_command_witness:
  "command noisy_env cmdSync syncPayload 0 syncTimeout (replaying []) = None"
proof -
  let ?b = "slipEncode (encodeCommand cmdSync syncPayload 0)"
  have b: "?b \<noteq> []" "length ?b \<le> 64"
    by (simp add: slipEncode_conv) code_simp
  have w: "writeAll noisy_env ?b (replaying []) = Some (Ok (), logged [EvWrite ?b] (dev (replaying [])) (replaying []))"
    using b(2) by (simp only: writeAll_step [OF b(1) noisy_env_sel(2)] Let_def option.case) (simp add: b(1))
  show ?thesis
    by (rule noise_hangs_command [OF _ _ w]) (simp_all add: slipEnd_def)
qed

section \<open>Reset and connection\<close>

text \<open>The reset into the bootloader always returns, ignores what the port answers, and
  drives the lines in this order: release IO0, hold reset, wait 100 ms, pull IO0 low, release
  reset, wait 50 ms, release IO0, drop the pending input.\<close>

theorem resetToBootloader_log:
  "\<exists>l'. resetToBootloader E l = Some (Ok (), l')
    \<and> evs l' = evs l @ [EvSetDTR False, EvSetRTS True, EvSleep 100000000, EvSetDTR True, EvSetRTS False,
        EvSleep 50000000, EvSetDTR False, EvFlushInput]"
proof -
  have call: "\<exists>l'. ignore_io (call e f) l = Some (Ok (), l') \<and> evs l' = evs l @ [e]"
    for e and f :: "'a \<Rightarrow> err option \<times> 'a" and l :: "'a loader"
    by (cases "f (dev l)"; cases "fst (f (dev l))")
      (auto simp: ignore_io_def try_io_def call_def)
  have step: "\<exists>l'. bind_io m k l = Some (Ok (), l') \<and> evs l' = evs l @ e # es"
    if "\<exists>l'. m l = Some (Ok (), l') \<and> evs l' = evs l @ [e]"
      and "\<And>l. \<exists>l'. k () l = Some (Ok (), l') \<and> evs l' = evs l @ es"
    for m :: "('a, unit) esp" and k :: "unit \<Rightarrow> ('a, unit) esp" and e es l
    using that(1) that(2) by (fastforce simp: bind_io_eval)
  have sl: "\<exists>l'. sleep E t l = Some (Ok (), l') \<and> evs l' = evs l @ [EvSleep t]" for t l
    by (simp add: sleep_def)
  have ms: "100 * millisecond = 100000000" "50 * millisecond = 50000000" by (simp_all add: millisecond_def)
  show ?thesis
    unfolding resetToBootloader_def setDTR_def setRTS_def flushInput_def ms
    by (intro step call sl)
qed

end
