(* ===== verification/Security.thy ===== *)
theory Security
  imports Macs
begin

text \<open>
  The security state of a chip (\<open>esp/security.go\<close>): decoding the reply to
  \<open>GET_SECURITY_INFO\<close> and reading the flags, the flash-encryption counter and the key
  purposes.
\<close>

definition secFlagSecureBootEn :: u32 where "secFlagSecureBootEn = 1"
definition secFlagSecureDownloadEn :: u32 where "secFlagSecureDownloadEn = 4"
definition secFlagKeyRevoke0 :: u32 where "secFlagKeyRevoke0 = 8"
definition secFlagKeyRevoke1 :: u32 where "secFlagKeyRevoke1 = 16"
definition secFlagKeyRevoke2 :: u32 where "secFlagKeyRevoke2 = 32"

definition keyPurposeNames :: "byte \<rightharpoonup> string" where
  "keyPurposeNames =
     [0 \<mapsto> ''USER/empty'', 1 \<mapsto> ''RESERVED'', 2 \<mapsto> ''XTS_AES_256_KEY_1'', 3 \<mapsto> ''XTS_AES_256_KEY_2'',
      4 \<mapsto> ''XTS_AES_128_KEY'', 5 \<mapsto> ''HMAC_DOWN_ALL'', 6 \<mapsto> ''HMAC_DOWN_JTAG'',
      7 \<mapsto> ''HMAC_DOWN_DIGITAL_SIGNATURE'', 8 \<mapsto> ''HMAC_UP'', 9 \<mapsto> ''SECURE_BOOT_DIGEST0'',
      10 \<mapsto> ''SECURE_BOOT_DIGEST1'', 11 \<mapsto> ''SECURE_BOOT_DIGEST2'', 12 \<mapsto> ''ECDSA_KEY'']"

definition KeyPurposeName :: "byte \<Rightarrow> string" where
  "KeyPurposeName p =
     (case keyPurposeNames p of Some n \<Rightarrow> n | None \<Rightarrow> ''unknown('' @ showNat (unat p) @ '')'')"

record securityInfo =
  Flags :: u32
  FlashCryptCnt :: byte
  KeyPurposes :: bytes
  SecChipID :: u32
  APIVersion :: u32
  HasExtended :: bool

definition SecureBoot :: "securityInfo \<Rightarrow> bool" where
  "SecureBoot s = (Flags s AND secFlagSecureBootEn \<noteq> 0)"

definition SecureDownload :: "securityInfo \<Rightarrow> bool" where
  "SecureDownload s = (Flags s AND secFlagSecureDownloadEn \<noteq> 0)"

definition onesCount8 :: "byte \<Rightarrow> nat" where
  "onesCount8 b = length (filter (bit b) [0..<8])"

definition FlashEncryption :: "securityInfo \<Rightarrow> bool" where
  "FlashEncryption s = (onesCount8 (FlashCryptCnt s) mod 2 = 1)"

definition KeyRevocations :: "securityInfo \<Rightarrow> bool \<times> bool \<times> bool" where
  "KeyRevocations s =
     (Flags s AND secFlagKeyRevoke0 \<noteq> 0, Flags s AND secFlagKeyRevoke1 \<noteq> 0, Flags s AND secFlagKeyRevoke2 \<noteq> 0)"

text \<open>The decoding of a payload, and the request around it.\<close>

definition decodeSecurityInfo :: "bytes \<Rightarrow> securityInfo" where
  "decodeSecurityInfo p =
     (let si = \<lparr>Flags = get32 p, FlashCryptCnt = p ! 4, KeyPurposes = take 7 (drop 5 p),
                SecChipID = 0, APIVersion = 0, HasExtended = False\<rparr> in
      if 20 \<le> length p then
        si\<lparr>SecChipID := get32 (drop 12 p), APIVersion := get32 (drop 16 p), HasExtended := True\<rparr>
      else si)"

definition SecurityInfo :: "'d env \<Rightarrow> ('d, securityInfo) esp" where
  "SecurityInfo E =
     bind_io (command E cmdGetSecurityInfo [] 0 cmdTimeout) (\<lambda>resp.
     bind_io get_io (\<lambda>l.
     let p = payload resp (stub l) in
     if length p < 12 then throw (SecurityInfoTooShort (length p))
     else ret (decodeSecurityInfo p)))"

section \<open>Decoding\<close>

lemma get32_append [simp]: "4 \<le> length a \<Longrightarrow> get32 (a @ b) = get32 a"
  by (cases a) (auto simp: get32_def nth_append)

lemma decodeSecurityInfo_layout:
  assumes "length kp = 7"
  shows "decodeSecurityInfo (le32 fl @ [cnt] @ kp @ ext) =
    \<lparr>Flags = fl, FlashCryptCnt = cnt, KeyPurposes = kp,
     SecChipID = (if 8 \<le> length ext then get32 ext else 0),
     APIVersion = (if 8 \<le> length ext then get32 (drop 4 ext) else 0),
     HasExtended = (8 \<le> length ext)\<rparr>"
proof -
  have "(le32 fl @ [cnt] @ kp @ ext) ! 4 = cnt" by (simp add: le32_def)
  then show ?thesis
    using assms by (simp add: decodeSecurityInfo_def Let_def)
qed

context prompt_link
begin

lemma SecurityInfo_answered:
  assumes "incoming l = answerFrame (stub l) cmdGetSecurityInfo v p @ rest" and "length p < 65000"
  shows "\<exists>l'. SecurityInfo E l =
      Some (if length p < 12 then Fail (SecurityInfoTooShort (length p)) else Ok (decodeSecurityInfo p), l')
    \<and> incoming l' = rest"
proof (rule command_answered [of cmdTimeout p l cmdGetSecurityInfo v 0 rest "[]" 0])
  fix l'
  assume run: "command E cmdGetSecurityInfo [] 0 cmdTimeout l
      = Some (Ok \<lparr>r_cmd = cmdGetSecurityInfo, r_value = v, r_data = p @ trailer (stub l) 0 0\<rparr>, l')"
    and st: "incoming l' = rest" "stub l' = stub l"
  then show ?thesis
    by (auto simp: SecurityInfo_def bind_io_eval payload_trailer [where p = p and s = 0 and e = 0] Let_def)
qed (use assms in \<open>simp_all add: answerFrame_def\<close>)

end

text \<open>C20. On a link that answers, \<open>SecurityInfo\<close> decodes the packed layout field by field:
  flags, flash-encryption counter and the seven key purposes; the chip id and API version
  exactly when both are there, and zero otherwise.\<close>

theorem SecurityInfo_correct:
  assumes "prompt_link E stream" and "length kp = 7" and "length ext < 64000"
    and "stream (dev l) = answerFrame (stub l) cmdGetSecurityInfo v (le32 fl @ [cnt] @ kp @ ext) @ rest"
  shows "\<exists>l'. SecurityInfo E l = Some (Ok \<lparr>Flags = fl, FlashCryptCnt = cnt, KeyPurposes = kp,
               SecChipID = (if 8 \<le> length ext then get32 ext else 0),
               APIVersion = (if 8 \<le> length ext then get32 (drop 4 ext) else 0),
               HasExtended = (8 \<le> length ext)\<rparr>, l') \<and> stream (dev l') = rest"
proof -
  have "length (le32 fl @ [cnt] @ kp @ ext) < 65000" using assms(2,3) by simp
  from prompt_link.SecurityInfo_answered [OF assms(1,4) this] show ?thesis
    using assms(2) decodeSecurityInfo_layout [OF assms(2), of fl cnt ext] by auto
qed

theorem SecurityInfo_correct_witness:
  "\<exists>l'. SecurityInfo (replay_env 9) (replaying (answerFrame False cmdGetSecurityInfo 0
        (le32 0x29 @ [7] @ [4, 9, 10, 11, 0, 0, 0] @ (le32 13 @ le32 1)) @ [3]))
      = Some (Ok \<lparr>Flags = 0x29, FlashCryptCnt = 7, KeyPurposes = [4, 9, 10, 11, 0, 0, 0], SecChipID = 13,
                  APIVersion = 1, HasExtended = True\<rparr>, l') \<and> rx (dev l') = [3]"
  using SecurityInfo_correct [of "replay_env 9" rx "[4, 9, 10, 11, 0, 0, 0]" "le32 13 @ le32 1"
      "replaying (answerFrame False cmdGetSecurityInfo 0
        (le32 0x29 @ [7] @ [4, 9, 10, 11, 0, 0, 0] @ (le32 13 @ le32 1)) @ [3])"
      0 "0x29" 7 "[3]", OF replay_link]
  by (simp add: replaying_def NewLoader_def)

section \<open>Flags\<close>

lemma and_exp_neq_0: "(w AND 2 ^ n \<noteq> 0) \<longleftrightarrow> bit w n" for w :: u32
  by (simp add: and_exp_eq_0_iff_not_bit)

text \<open>Each predicate on the flags reads exactly one bit: secure boot bit 0, secure download
  bit 2, the three key revocations bits 3, 4 and 5.\<close>

theorem security_flags_bits:
  "(SecureBoot s \<longleftrightarrow> bit (Flags s) 0) \<and> (SecureDownload s \<longleftrightarrow> bit (Flags s) 2)
   \<and> KeyRevocations s = (bit (Flags s) 3, bit (Flags s) 4, bit (Flags s) 5)"
  using and_exp_neq_0 [of "Flags s" 0] and_exp_neq_0 [of "Flags s" 2] and_exp_neq_0 [of "Flags s" 3]
    and_exp_neq_0 [of "Flags s" 4] and_exp_neq_0 [of "Flags s" 5]
  by (simp add: SecureBoot_def SecureDownload_def KeyRevocations_def secFlagSecureBootEn_def
      secFlagSecureDownloadEn_def secFlagKeyRevoke0_def secFlagKeyRevoke1_def secFlagKeyRevoke2_def)

lemma filter_flip_one:
  "distinct xs \<Longrightarrow> i \<in> set xs \<Longrightarrow>
   even (length (filter (\<lambda>x. P x \<noteq> (x = i)) xs)) \<longleftrightarrow> odd (length (filter P xs))"
proof (induction xs)
  case (Cons x xs)
  show ?case
  proof (cases "x = i")
    case True
    then have "filter (\<lambda>x. P x \<noteq> (x = i)) xs = filter P xs"
      using Cons.prems by (intro filter_cong) auto
    then show ?thesis using True by auto
  next
    case False
    then show ?thesis using Cons by auto
  qed
qed simp

lemma FlashEncryption_odd: "FlashEncryption s \<longleftrightarrow> odd (onesCount8 (FlashCryptCnt s))"
  by (simp add: FlashEncryption_def odd_iff_mod_2_eq_one)

text \<open>Flash encryption follows the parity of the counter: an erased counter means off, and
  burning any one further bit of it turns encryption on or off again.\<close>

theorem FlashEncryption_parity:
  assumes "i < 8"
  shows "\<not> FlashEncryption (s\<lparr>FlashCryptCnt := 0\<rparr>)
    \<and> (FlashEncryption (s\<lparr>FlashCryptCnt := flip_bit i (FlashCryptCnt s)\<rparr>) \<longleftrightarrow> \<not> FlashEncryption s)"
proof -
  have "filter (bit (flip_bit i (FlashCryptCnt s))) [0..<8] = filter (\<lambda>x. bit (FlashCryptCnt s) x \<noteq> (x = i)) [0..<8]"
    by (rule filter_cong) (auto simp: bit_flip_bit_iff)
  then have "even (onesCount8 (flip_bit i (FlashCryptCnt s))) \<longleftrightarrow> odd (onesCount8 (FlashCryptCnt s))"
    using filter_flip_one [of "[0..<8]" i "bit (FlashCryptCnt s)"] assms by (simp only: onesCount8_def) simp
  then show ?thesis
    by (simp add: FlashEncryption_odd) (simp add: onesCount8_def)
qed

theorem FlashEncryption_parity_witness:
  "let s = \<lparr>Flags = 0, FlashCryptCnt = 1, KeyPurposes = replicate 7 0, SecChipID = 0, APIVersion = 0, HasExtended = False\<rparr> in
   \<not> FlashEncryption (s\<lparr>FlashCryptCnt := 0\<rparr>)
    \<and> (FlashEncryption (s\<lparr>FlashCryptCnt := flip_bit 1 (FlashCryptCnt s)\<rparr>) \<longleftrightarrow> \<not> FlashEncryption s)"
  unfolding Let_def by (rule FlashEncryption_parity) simp

end
