(* ===== verification/Flash.thy ===== *)
theory Flash
  imports Macs Digest
begin

text \<open>
  Programming the flash (\<open>esp/flash.go\<close>). The compressor of \<open>compress/zlib\<close> is a
  parameter: which of the many streams for the same data it emits is not documented, only
  that a stream inflates to the data, which is a hypothesis where it matters.
\<close>

section \<open>Requests\<close>

definition flashBeginTimeout :: duration where "flashBeginTimeout = 60 * second"

definition put32 :: "nat \<Rightarrow> u32 \<Rightarrow> bytes \<Rightarrow> bytes" where
  "put32 off v b = overwrite off (le32 v) b"

lemma length_put32 [simp]: "off + 4 \<le> length b \<Longrightarrow> length (put32 off v b) = length b"
  by (simp add: put32_def)

text \<open>\<open>void m\<close>: the reply is dropped, the error returned.\<close>

definition void :: "('d, 'a) esp \<Rightarrow> ('d, unit) esp" where
  "void m = bind_io m (\<lambda>_. ret ())"

definition flashBlockSize :: "bool \<Rightarrow> u32" where
  "flashBlockSize st = (if st then 0x4000 else 0x400)"

definition SpiAttach :: "'d env \<Rightarrow> ('d, unit) esp" where
  "SpiAttach E = bind_io get_io (\<lambda>l.
     if stub l then ret ()
     else void (command E cmdSpiAttach (replicate 8 0) 0 cmdTimeout))"

definition SpiSetParams :: "'d env \<Rightarrow> u32 \<Rightarrow> ('d, unit) esp" where
  "SpiSetParams E flashSize =
     (let d = replicate 24 0;
          d = put32 0 0 d;
          d = put32 4 flashSize d;
          d = put32 8 0x10000 d;
          d = put32 12 0x1000 d;
          d = put32 16 0x100 d;
          d = put32 20 0xffff d
      in void (command E cmdSpiSetParams d 0 cmdTimeout))"

definition ChangeBaud :: "'d env \<Rightarrow> int \<Rightarrow> ('d, unit) esp" where
  "ChangeBaud E newBaud = bind_io get_io (\<lambda>l.
     let old = (if stub l then word_of_int (curBaud l) else 0);
         d = replicate 8 0;
         d = put32 0 (word_of_int newBaud) d;
         d = put32 4 old d
     in bind_io (command E cmdChangeBaudrate d 0 cmdTimeout) (\<lambda>_.
        bind_io (setBaud E newBaud) (\<lambda>_.
        bind_io (upd_io (\<lambda>l. l\<lparr>curBaud := newBaud\<rparr>)) (\<lambda>_.
        bind_io (sleep E (50 * millisecond)) (\<lambda>_.
        flushInput E)))))"

definition flashBeginData :: "bool \<Rightarrow> u32 \<Rightarrow> u32 \<Rightarrow> bytes" where
  "flashBeginData st sz offset =
     (let bs = flashBlockSize st;
          numBlocks = (sz + bs - 1) div bs;
          n = (if st then 16 else 20);
          d = replicate n 0;
          d = put32 0 sz d;
          d = put32 4 numBlocks d;
          d = put32 8 bs d;
          d = put32 12 offset d
      in d)"

definition flashBegin :: "'d env \<Rightarrow> u32 \<Rightarrow> u32 \<Rightarrow> ('d, unit) esp" where
  "flashBegin E sz offset = bind_io get_io (\<lambda>l.
     void (command E cmdFlashBegin (flashBeginData (stub l) sz offset) 0 flashBeginTimeout))"

text \<open>The data of a block request: length, sequence number, two zero words, the block.\<close>

definition blockData :: "u32 \<Rightarrow> bytes \<Rightarrow> bytes" where
  "blockData seq block =
     (let d = replicate (16 + length block) 0;
          d = put32 0 (of_nat (length block)) d;
          d = put32 4 seq d;
          d = overwrite 16 block d
      in d)"

definition flashBlock :: "'d env \<Rightarrow> u32 \<Rightarrow> bytes \<Rightarrow> ('d, unit) esp" where
  "flashBlock E seq block =
     void (command E cmdFlashData (blockData seq block) (checksum block) cmdTimeout)"

definition md5Text :: "bytes \<Rightarrow> err + string" where
  "md5Text p =
     (if 32 \<le> length p then Inr (toLower (bytes_str (take 32 p)))
      else if 16 \<le> length p then Inr (hexEncode (take 16 p))
      else Inl (ShortMD5 (length p)))"

definition md5Data :: "u32 \<Rightarrow> u32 \<Rightarrow> bytes" where
  "md5Data offset sz =
     (let d = replicate 16 0; d = put32 0 offset d; d = put32 4 sz d in d)"

definition flashMD5 :: "'d env \<Rightarrow> u32 \<Rightarrow> u32 \<Rightarrow> ('d, string) esp" where
  "flashMD5 E offset sz =
     bind_io (command E cmdSpiFlashMD5 (md5Data offset sz) 0 flashBeginTimeout) (\<lambda>resp.
     bind_io get_io (\<lambda>l.
     case md5Text (payload resp (stub l)) of Inl e \<Rightarrow> throw e | Inr s \<Rightarrow> ret s))"

text \<open>The check at the end of both write paths.\<close>

definition verifyMD5 :: "'d env \<Rightarrow> u32 \<Rightarrow> u32 \<Rightarrow> bytes \<Rightarrow> ('d, unit) esp" where
  "verifyMD5 E offset sz data =
     bind_io (wrap_io (MD5At offset) (flashMD5 E offset sz)) (\<lambda>got.
     if got \<noteq> hexEncode (md5Sum data) then throw (MD5Mismatch offset got (hexEncode (md5Sum data)))
     else ret ())"

section \<open>Raw blocks\<close>

definition padBlocks :: "nat \<Rightarrow> bytes \<Rightarrow> bytes" where
  "padBlocks bs data =
     (let rem = length data mod bs in
      if rem \<noteq> 0 then data @ replicate (bs - rem) 0xFF else data)"

text \<open>Up to \<open>n\<close> more attempts for one block; the result is the last error, or nil.\<close>

fun retryBlock :: "'d env \<Rightarrow> nat \<Rightarrow> bytes \<Rightarrow> nat \<Rightarrow> err option \<Rightarrow> ('d, err option) esp" where
  "retryBlock E seq block 0 e = ret e"
| "retryBlock E seq block (Suc n) e =
     try_io (flashBlock E (of_nat seq) block) (\<lambda>r.
       case r of
         Inr _ \<Rightarrow> ret None
       | Inl e' \<Rightarrow>
           bind_io (ignore_io (flushInput E)) (\<lambda>_.
           bind_io (sleep E (10 * millisecond)) (\<lambda>_.
           retryBlock E seq block n (Some e'))))"

text \<open>The blocks from number \<open>seq\<close> on, \<open>n\<close> of them.\<close>

fun rawLoop :: "'d env \<Rightarrow> u32 \<Rightarrow> bytes \<Rightarrow> nat \<Rightarrow> nat \<Rightarrow> bool \<Rightarrow> nat \<Rightarrow> nat \<Rightarrow> ('d, unit) esp" where
  "rawLoop E offset padded bs tot prog seq 0 = ret ()"
| "rawLoop E offset padded bs tot prog seq (Suc n) =
     bind_io (retryBlock E seq (take bs (drop (seq * bs) padded)) 3 None) (\<lambda>err.
     case err of
       Some e \<Rightarrow> throw (FlashDataAt seq offset e)
     | None \<Rightarrow>
         bind_io (progress prog (int seq + 1) (int tot)) (\<lambda>_.
         rawLoop E offset padded bs tot prog (Suc seq) n))"

definition writeFlashRaw :: "'d env \<Rightarrow> u32 \<Rightarrow> bytes \<Rightarrow> bool \<Rightarrow> ('d, unit) esp" where
  "writeFlashRaw E offset data prog = bind_io get_io (\<lambda>l.
     let bs = unat (flashBlockSize (stub l));
         padded = padBlocks bs data;
         sz = of_nat (length padded);
         tot = length padded div bs
     in bind_io (wrap_io (FlashBeginAt offset) (flashBegin E sz offset)) (\<lambda>_.
        bind_io (rawLoop E offset padded bs tot prog 0 tot) (\<lambda>_.
        verifyMD5 E offset sz padded)))"

section \<open>Compressed stream\<close>

fun deflLoop :: "'d env \<Rightarrow> u32 \<Rightarrow> bytes \<Rightarrow> nat \<Rightarrow> nat \<Rightarrow> bool \<Rightarrow> nat \<Rightarrow> nat \<Rightarrow> ('d, unit) esp" where
  "deflLoop E offset zbuf bs tot prog seq 0 = ret ()"
| "deflLoop E offset zbuf bs tot prog seq (Suc n) =
     (let start = seq * bs;
          stop = min (start + bs) (length zbuf);
          chunk = take (stop - start) (drop start zbuf)
      in bind_io (wrap_io (FlashDeflDataAt seq offset)
           (command E cmdFlashDeflData (blockData (of_nat seq) chunk) (checksum chunk) cmdTimeout)) (\<lambda>_.
         bind_io (progress prog (int seq + 1) (int tot)) (\<lambda>_.
         deflLoop E offset zbuf bs tot prog (Suc seq) n)))"

definition deflBeginData :: "u32 \<Rightarrow> u32 \<Rightarrow> u32 \<Rightarrow> u32 \<Rightarrow> bytes" where
  "deflBeginData sz numBlocks bs offset =
     (let d = replicate 16 0;
          d = put32 0 sz d;
          d = put32 4 numBlocks d;
          d = put32 8 bs d;
          d = put32 12 offset d
      in d)"

definition writeFlashCompressed ::
  "'d env \<Rightarrow> (bytes \<Rightarrow> err + bytes) \<Rightarrow> u32 \<Rightarrow> bytes \<Rightarrow> bool \<Rightarrow> ('d, unit) esp" where
  "writeFlashCompressed E zlib offset data prog =
     (case zlib data of
        Inl e \<Rightarrow> throw e
      | Inr zbuf \<Rightarrow> bind_io get_io (\<lambda>l.
          let bs = unat (flashBlockSize (stub l));
              numBlocks = (length zbuf + bs - 1) div bs;
              sz = of_nat (length data)
          in bind_io (wrap_io (FlashDeflBeginAt offset)
               (command E cmdFlashDeflBegin (deflBeginData sz (of_nat numBlocks) (of_nat bs) offset) 0 flashBeginTimeout)) (\<lambda>_.
             bind_io (deflLoop E offset zbuf bs numBlocks prog 0 numBlocks) (\<lambda>_.
             verifyMD5 E offset sz data))))"

definition WriteFlash ::
  "'d env \<Rightarrow> (bytes \<Rightarrow> err + bytes) \<Rightarrow> u32 \<Rightarrow> bytes \<Rightarrow> bool \<Rightarrow> ('d, unit) esp" where
  "WriteFlash E zlib offset data prog = bind_io get_io (\<lambda>l.
     if stub l then writeFlashCompressed E zlib offset data prog
     else writeFlashRaw E offset data prog)"

definition FlashFinish :: "'d env \<Rightarrow> bool \<Rightarrow> ('d, unit) esp" where
  "FlashFinish E reboot =
     (let d = replicate 4 0;
          d = (if reboot then d else put32 0 1 d)
      in void (command E cmdFlashEnd d 0 cmdTimeout))"

end
