(* ===== verification/ChipLine.thy ===== *)
theory ChipLine
  imports Flash
begin

text \<open>
  The chip's end of the line, as a specification: a receiver that reads the bytes the
  loader has put on the line one by one, closes a packet at every SLIP delimiter and runs
  it. What running a packet does is the argument \<open>exec\<close>; the locale \<open>executor\<close> says only
  that bytes which are not a request are ignored. \<open>delivers exec m ps\<close> states that a
  successful run of \<open>m\<close> makes the chip execute exactly the packets \<open>ps\<close>, in order.
\<close>

section \<open>The receiver\<close>

definition recv :: "(bytes \<Rightarrow> 's \<Rightarrow> 's) \<Rightarrow> bytes \<times> 's \<Rightarrow> byte \<Rightarrow> bytes \<times> 's" where
  "recv exec st b =
     (if b = slipEnd then ([], fold exec (closed (fst st)) (snd st)) else (fst st @ [b], snd st))"

definition receive :: "(bytes \<Rightarrow> 's \<Rightarrow> 's) \<Rightarrow> bytes \<times> 's \<Rightarrow> bytes \<Rightarrow> bytes \<times> 's" where
  "receive exec st line = foldl (recv exec) st line"

lemma receive_append: "receive exec st (a @ b) = receive exec (receive exec st a) b"
  by (simp add: receive_def)

lemma receive_Nil [simp]: "receive exec st [] = st"
  by (simp add: receive_def)

lemma receive_End: "receive exec (acc, s) (slipEnd # bs) = receive exec ([], fold exec (closed acc) s) bs"
  by (simp add: receive_def recv_def)

lemma receive_notin: "slipEnd \<notin> set xs \<Longrightarrow> receive exec (acc, s) xs = (acc @ xs, s)"
  by (induction xs arbitrary: acc) (auto simp: receive_def recv_def)

text \<open>The receiver runs the frames of the line in order.\<close>

lemma receive_wireFrames: "snd (receive exec ([], s) line) = fold exec (wireFrames line) s"
proof -
  have "snd (receive exec (acc, s) line) = fold exec (deframe acc line) s" for acc
  proof (induction line arbitrary: acc s)
    case (Cons b line)
    show ?case
    proof (cases "b = slipEnd")
      case True
      then show ?thesis using Cons by (simp only: True receive_End deframe_End fold_append comp_apply)
    next
      case False
      then have "receive exec (acc, s) (b # line) = receive exec (acc @ [b], s) line"
        by (simp add: receive_def recv_def)
      then show ?thesis using Cons False by simp
    qed
  qed simp
  then show ?thesis by (simp add: wireFrames_def)
qed

text \<open>A whole frame closes what was pending and runs its packet.\<close>

lemma receive_slipEncode:
  "p \<noteq> [] \<Longrightarrow> receive exec (acc, s) (slipEncode p) = ([], exec p (fold exec (closed acc) s))"
  by (simp add: slipEncode_conv receive_End receive_append receive_notin closed_def unslip_slipBody)

text \<open>A cut frame leaves a prefix of its packet pending, unless the closing delimiter came too.\<close>

lemma receive_cut:
  assumes "p \<noteq> []"
  obtains "take k (slipEncode p) = []"
    | acc' where "receive exec (acc, s) (take k (slipEncode p)) = (acc', fold exec (closed acc) s)"
        "\<forall>q \<in> set (closed acc'). \<exists>j. q = take j p"
    | "receive exec (acc, s) (take k (slipEncode p)) = ([], exec p (fold exec (closed acc) s))"
proof (cases k)
  case 0
  then show ?thesis using that(1) by simp
next
  case (Suc m)
  show ?thesis
  proof (cases "m \<le> length (slipBody p)")
    case True
    then have cut: "take k (slipEncode p) = slipEnd # take m (slipBody p)"
      using Suc by (simp add: slipEncode_conv)
    have "slipEnd \<notin> set (take m (slipBody p))" by (meson in_set_takeD slipEnd_notin_body)
    then have "receive exec (acc, s) (take k (slipEncode p)) = (take m (slipBody p), fold exec (closed acc) s)"
      unfolding cut by (simp add: receive_End receive_notin)
    moreover have "\<forall>q \<in> set (closed (take m (slipBody p))). \<exists>j. q = take j p"
      using unslip_take_slipBody [of m p] by (auto simp: closed_def)
    ultimately show ?thesis by (rule that(2))
  next
    case False
    then have "take k (slipEncode p) = slipEncode p" using Suc by (simp add: slipEncode_conv)
    then show ?thesis using that(3) assms by (simp add: receive_slipEncode)
  qed
qed

section \<open>Delivery\<close>

definition delivers :: "(bytes \<Rightarrow> 's \<Rightarrow> 's) \<Rightarrow> ('d, 'a) esp \<Rightarrow> bytes list \<Rightarrow> bool" where
  "delivers exec m ps \<longleftrightarrow> (\<forall>l a l'. m l = Some (Ok a, l') \<longrightarrow>
     (\<exists>w. sent l' = sent l @ w \<and> (\<forall>s. receive exec ([], s) w = ([], fold exec ps s))))"

lemma deliversI:
  "(\<And>l a l'. m l = Some (Ok a, l') \<Longrightarrow>
     \<exists>w. sent l' = sent l @ w \<and> (\<forall>s. receive exec ([], s) w = ([], fold exec ps s))) \<Longrightarrow> delivers exec m ps"
  by (auto simp: delivers_def)

lemma deliversE:
  assumes "delivers exec m ps" and "m l = Some (Ok a, l')"
  obtains w where "sent l' = sent l @ w" "\<forall>s. receive exec ([], s) w = ([], fold exec ps s)"
  using assms unfolding delivers_def by blast

named_theorems delivers_intros "introduction rules for delivers"

lemma delivers_silent:
  assumes "\<And>l a l'. m l = Some (Ok a, l') \<Longrightarrow> sent l' = sent l"
  shows "delivers exec m []"
  using assms by (auto simp: delivers_def)

lemma delivers_ret [delivers_intros]: "delivers exec (ret a) []"
  and delivers_get: "delivers exec get_io []"
  and delivers_progress: "delivers exec (progress g n k) []"
  and delivers_sleep: "delivers exec (sleep E t) []"
  and delivers_throw: "delivers exec (throw e) ps"
  by (auto simp: delivers_def progress_def sleep_def)

lemma delivers_bind [delivers_intros]:
  assumes "delivers exec m ps" and "\<And>a. delivers exec (k a) qs"
  shows "delivers exec (bind_io m k) (ps @ qs)"
proof (rule deliversI)
  fix l b l'
  assume "bind_io m k l = Some (Ok b, l')"
  then obtain a l1 where m: "m l = Some (Ok a, l1)" and k: "k a l1 = Some (Ok b, l')"
    by (auto simp: bind_io_Ok)
  obtain w where "sent l1 = sent l @ w" "\<forall>s. receive exec ([], s) w = ([], fold exec ps s)"
    by (rule deliversE [OF assms(1) m])
  moreover obtain v where "sent l' = sent l1 @ v" "\<forall>s. receive exec ([], s) v = ([], fold exec qs s)"
    by (rule deliversE [OF assms(2) k])
  ultimately show "\<exists>w. sent l' = sent l @ w \<and> (\<forall>s. receive exec ([], s) w = ([], fold exec (ps @ qs) s))"
    by (intro exI [of _ "w @ v"]) (simp add: receive_append)
qed

lemma delivers_bind_silent: "delivers exec m [] \<Longrightarrow> (\<And>a. delivers exec (k a) qs) \<Longrightarrow> delivers exec (bind_io m k) qs"
  using delivers_bind [of exec m "[]" k qs] by simp

lemma delivers_wrap [delivers_intros]: "delivers exec m ps \<Longrightarrow> delivers exec (wrap_io f m) ps"
  by (auto simp: delivers_def wrap_io_Ok)

text \<open>A successful request delivers its packet, and nothing else.\<close>

lemma delivers_command [delivers_intros]: "delivers exec (command E c d k t) [encodeCommand c d k]"
  by (rule deliversI) (auto dest!: command_Ok(1) simp: receive_slipEncode)

lemma delivers_void [delivers_intros]: "delivers exec m ps \<Longrightarrow> delivers exec (void m) ps"
  unfolding void_def using delivers_bind [of exec m ps "\<lambda>_. ret ()" "[]"] by (simp add: delivers_ret)

lemma delivers_get_bind:
  assumes "\<And>l a l'. k l l = Some (Ok a, l') \<Longrightarrow>
     \<exists>w. sent l' = sent l @ w \<and> (\<forall>s. receive exec ([], s) w = ([], fold exec ps s))"
  shows "delivers exec (bind_io get_io k) ps"
  using assms by (auto intro!: deliversI)

section \<open>Executors\<close>

text \<open>
  Attempts at one request: however often it was cut or answered with an error before it
  succeeded, the chip ends up having run it, provided running it twice is the same as once.
\<close>

definition attempted :: "(bytes \<Rightarrow> 's \<Rightarrow> 's) \<Rightarrow> byte \<Rightarrow> bytes \<Rightarrow> u32 \<Rightarrow> bytes \<times> 's \<Rightarrow> bytes \<times> 's \<Rightarrow> bool" where
  "attempted exec c d k st st' \<longleftrightarrow> (snd st' = snd st \<or> snd st' = exec (encodeCommand c d k) (snd st))
     \<and> (\<forall>q \<in> set (closed (fst st')). \<exists>j. q = take j (encodeCommand c d k))"

text \<open>A chip that ignores what is not a request.\<close>

locale executor =
  fixes exec :: "bytes \<Rightarrow> 's \<Rightarrow> 's"
  assumes ignores: "parseRequest p = None \<Longrightarrow> exec p s = s"
begin

text \<open>A request that may be cut and sent again: whatever was left pending, running it is
  harmless, because a proper prefix of a request is not a request.\<close>

lemma pending_harmless:
  assumes "length d < 65536" and "\<forall>q \<in> set (closed acc). \<exists>j. q = take j (encodeCommand c d k)"
  shows "fold exec (closed acc) s = s \<or> fold exec (closed acc) s = exec (encodeCommand c d k) s"
proof -
  have "closed acc = [] \<or> (\<exists>q. closed acc = [q])"
    by (simp add: closed_def split: option.split)
  then consider "closed acc = []" | q where "closed acc = [q]" by blast
  then show ?thesis
  proof cases
    case (2 q)
    then obtain j where q: "q = take j (encodeCommand c d k)" using assms(2) by auto
    show ?thesis
    proof (cases "j < 8 + length d")
      case True
      then have "exec q s = s" using ignores parseRequest_cut [OF assms(1) True] q by simp
      then show ?thesis using 2 by simp
    next
      case False
      then have "q = encodeCommand c d k" using q by simp
      then show ?thesis using 2 by simp
    qed
  qed simp
qed

lemma attempted_step:
  assumes "length d < 65536"
    and twice: "\<And>s. exec (encodeCommand c d k) (exec (encodeCommand c d k) s) = exec (encodeCommand c d k) s"
    and "attempted exec c d k st0 (acc, s)"
  shows "attempted exec c d k st0 (receive exec (acc, s) (take n (slipEncode (encodeCommand c d k))))"
    and "receive exec (acc, s) (slipEncode (encodeCommand c d k)) = ([], exec (encodeCommand c d k) (snd st0))"
proof -
  let ?p = "encodeCommand c d k"
  from assms(3) have s: "s = snd st0 \<or> s = exec ?p (snd st0)"
    and pend: "\<forall>q \<in> set (closed acc). \<exists>j. q = take j ?p"
    by (auto simp: attempted_def)
  have t: "fold exec (closed acc) s = snd st0 \<or> fold exec (closed acc) s = exec ?p (snd st0)"
    using pending_harmless [OF assms(1) pend, of s] s twice by auto
  show "receive exec (acc, s) (slipEncode ?p) = ([], exec ?p (snd st0))"
    using t twice by (auto simp: receive_slipEncode)
  show "attempted exec c d k st0 (receive exec (acc, s) (take n (slipEncode ?p)))"
  proof (rule receive_cut [where p = ?p and k = n and exec = exec and acc = acc and s = s])
    assume none: "take n (slipEncode ?p) = []"
    show ?thesis unfolding none receive_Nil by (rule assms(3))
  next
    fix acc'
    assume "receive exec (acc, s) (take n (slipEncode ?p)) = (acc', fold exec (closed acc) s)"
      and "\<forall>q \<in> set (closed acc'). \<exists>j. q = take j ?p"
    then show ?thesis using t by (simp add: attempted_def)
  next
    assume "receive exec (acc, s) (take n (slipEncode ?p)) = ([], exec ?p (fold exec (closed acc) s))"
    then show ?thesis using t twice by (auto simp: attempted_def)
  qed simp
qed

end

end
