(* ===== verification/FlashLine.thy ===== *)
theory FlashLine
  imports ChipLine
begin

text \<open>
  What the write paths of \<open>esp/flash.go\<close> put on the line: the packets of a raw and of a
  compressed session, and the proof that a successful call delivers exactly these, in
  order, to any chip that ignores what is not a request; for the raw path also through
  failed and repeated attempts, on a chip for which a block written twice is a block
  written once.
\<close>

section \<open>Layout of the requests\<close>

lemma flashBeginData_conv:
  "flashBeginData st sz off = le32 sz @ le32 ((sz + flashBlockSize st - 1) div flashBlockSize st)
     @ le32 (flashBlockSize st) @ le32 off @ (if st then [] else [0, 0, 0, 0])"
  by (simp add: flashBeginData_def put32_def overwrite_def le32_def Let_def numeral_eq_Suc)

lemma blockData_conv:
  "blockData seq block = le32 (of_nat (length block)) @ le32 seq @ replicate 8 0 @ block"
proof -
  have "replicate (16 + length block) (0 :: byte) = replicate 16 0 @ replicate (length block) 0"
    by (simp add: replicate_add)
  then show ?thesis
    by (simp add: blockData_def put32_def overwrite_def le32_def Let_def numeral_eq_Suc)
qed

lemma deflBeginData_conv: "deflBeginData sz n bs off = le32 sz @ le32 n @ le32 bs @ le32 off"
  by (simp add: deflBeginData_def put32_def overwrite_def le32_def Let_def numeral_eq_Suc)

lemma md5Data_conv: "md5Data off sz = le32 off @ le32 sz @ replicate 8 0"
  by (simp add: md5Data_def put32_def overwrite_def le32_def Let_def numeral_eq_Suc)

lemma length_requests [simp]:
  "length (flashBeginData st sz off) = (if st then 16 else 20)"
  "length (blockData seq block) = 16 + length block"
  "length (deflBeginData sz n bs off) = 16" "length (md5Data off sz) = 16"
  by (simp_all add: flashBeginData_conv blockData_conv deflBeginData_conv md5Data_conv)

lemma unat_flashBlockSize [simp]: "unat (flashBlockSize st) = (if st then 16384 else 1024)"
  by (simp add: flashBlockSize_def)

section \<open>The sessions\<close>

definition rawPacket :: "bytes \<Rightarrow> nat \<Rightarrow> nat \<Rightarrow> bytes" where
  "rawPacket padded bs i =
     (let block = take bs (drop (i * bs) padded)
      in encodeCommand cmdFlashData (blockData (of_nat i) block) (checksum block))"

definition rawPackets :: "bool \<Rightarrow> u32 \<Rightarrow> bytes \<Rightarrow> bytes list" where
  "rawPackets st off data =
     (let bs = unat (flashBlockSize st); padded = padBlocks bs data; sz = of_nat (length padded) in
      [encodeCommand cmdFlashBegin (flashBeginData st sz off) 0]
      @ map (rawPacket padded bs) [0..<length padded div bs]
      @ [encodeCommand cmdSpiFlashMD5 (md5Data off sz) 0])"

definition deflPacket :: "bytes \<Rightarrow> nat \<Rightarrow> nat \<Rightarrow> bytes" where
  "deflPacket zbuf bs i =
     (let chunk = take bs (drop (i * bs) zbuf)
      in encodeCommand cmdFlashDeflData (blockData (of_nat i) chunk) (checksum chunk))"

definition deflPackets :: "bool \<Rightarrow> u32 \<Rightarrow> nat \<Rightarrow> bytes \<Rightarrow> bytes list" where
  "deflPackets st off n zbuf =
     (let bs = unat (flashBlockSize st); numBlocks = (length zbuf + bs - 1) div bs in
      [encodeCommand cmdFlashDeflBegin (deflBeginData (of_nat n) (of_nat numBlocks) (of_nat bs) off) 0]
      @ map (deflPacket zbuf bs) [0..<numBlocks]
      @ [encodeCommand cmdSpiFlashMD5 (md5Data off (of_nat n)) 0])"

section \<open>Common steps\<close>

lemma delivers_verifyMD5:
  "delivers exec (verifyMD5 E off sz data) [encodeCommand cmdSpiFlashMD5 (md5Data off sz) 0]"
proof -
  have k: "delivers exec (bind_io get_io (\<lambda>l. case md5Text (payload resp (stub l)) of Inl e \<Rightarrow> throw e | Inr s \<Rightarrow> ret s)) []"
    for resp
    by (rule delivers_silent) (auto split: sum.splits)
  have "delivers exec (flashMD5 E off sz) ([encodeCommand cmdSpiFlashMD5 (md5Data off sz) 0] @ [])"
    unfolding flashMD5_def by (intro delivers_bind delivers_command k)
  then have md5: "delivers exec (wrap_io (MD5At off) (flashMD5 E off sz)) [encodeCommand cmdSpiFlashMD5 (md5Data off sz) 0]"
    by (intro delivers_wrap) simp
  have "delivers exec (verifyMD5 E off sz data) ([encodeCommand cmdSpiFlashMD5 (md5Data off sz) 0] @ [])"
    unfolding verifyMD5_def
    by (intro delivers_bind md5) (auto intro: delivers_silent)
  then show ?thesis by simp
qed

lemma delivers_flashBegin:
  "flashBegin E sz off l = Some (Ok (), l') \<Longrightarrow>
   sent l' = sent l @ slipEncode (encodeCommand cmdFlashBegin (flashBeginData (stub l) sz off) 0)"
  by (auto simp: flashBegin_def void_def bind_io_Ok dest: command_Ok(1))

section \<open>The compressed session\<close>

lemma delivers_deflLoop:
  "delivers exec (deflLoop E off zbuf bs tot prog seq n) (map (deflPacket zbuf bs) [seq..<seq + n])"
proof (induction n arbitrary: seq)
  case 0
  then show ?case by (simp add: delivers_ret del: ret_apply)
next
  case (Suc n)
  have chunk: "take (min (seq * bs + bs) (length zbuf) - seq * bs) (drop (seq * bs) zbuf) = take bs (drop (seq * bs) zbuf)"
    by (simp add: min_def take_all)
  have "delivers exec (deflLoop E off zbuf bs tot prog seq (Suc n))
      ([deflPacket zbuf bs seq] @ [] @ map (deflPacket zbuf bs) [Suc seq..<Suc seq + n])"
    unfolding deflLoop.simps Let_def chunk deflPacket_def
    by (intro delivers_bind delivers_wrap delivers_command delivers_progress Suc.IH [unfolded deflPacket_def Let_def])
  moreover have "map (deflPacket zbuf bs) [seq..<seq + Suc n]
      = [deflPacket zbuf bs seq] @ [] @ map (deflPacket zbuf bs) [Suc seq..<Suc seq + n]"
    by (simp add: upt_conv_Cons del: upt_Suc)
  ultimately show ?case by (simp only:)
qed

text \<open>A successful compressed write delivers the whole session, without repetition.\<close>

lemma writeFlashCompressed_delivers:
  assumes "writeFlashCompressed E zlib off data prog l = Some (Ok (), l')" and "zlib data = Inr zbuf"
  obtains w where "sent l' = sent l @ w"
    "\<forall>s. receive exec ([], s) w = ([], fold exec (deflPackets (stub l) off (length data) zbuf) s)"
proof -
  let ?bs = "unat (flashBlockSize (stub l))"
  let ?n = "(length zbuf + ?bs - 1) div ?bs"
  let ?m = "bind_io (wrap_io (FlashDeflBeginAt off) (command E cmdFlashDeflBegin
        (deflBeginData (of_nat (length data)) (of_nat ?n) (of_nat ?bs) off) 0 flashBeginTimeout)) (\<lambda>_.
     bind_io (deflLoop E off zbuf ?bs ?n prog 0 ?n) (\<lambda>_.
     verifyMD5 E off (of_nat (length data)) data))"
  have "?m l = Some (Ok (), l')"
    using assms by (simp add: writeFlashCompressed_def Let_def)
  moreover have "delivers exec ?m (deflPackets (stub l) off (length data) zbuf)"
    unfolding deflPackets_def Let_def
    by (intro delivers_bind delivers_wrap delivers_command delivers_verifyMD5)
      (use delivers_deflLoop [of exec E off zbuf ?bs ?n prog 0 ?n] in simp)
  ultimately show ?thesis by (auto intro: that elim: deliversE)
qed

section \<open>The raw session\<close>

lemma quiet_pause:
  "bind_io (ignore_io (flushInput E)) (\<lambda>_. bind_io (sleep E t) (\<lambda>_. m)) l = m (logged [EvFlushInput, EvSleep t]
     (time_sleep E t (snd (t_flushInput E (dev l)))) l)"
proof -
  obtain x d where "t_flushInput E (dev l) = (x, d)" by (metis surj_pair)
  then show ?thesis
    by (cases x) (simp_all add: bind_io_def ignore_io_def try_io_def flushInput_def call_def sleep_def logged_def)
qed

lemma flashBlock_Ok: "flashBlock E seq block l = Some (Ok (), l') \<Longrightarrow>
    sent l' = sent l @ slipEncode (encodeCommand cmdFlashData (blockData seq block) (checksum block))"
  by (auto simp: flashBlock_def void_def bind_io_Ok dest: command_Ok(1))

lemma flashBlock_any: "flashBlock E seq block l = Some (r, l') \<Longrightarrow>
    \<exists>j. sent l' = sent l @ take j (slipEncode (encodeCommand cmdFlashData (blockData seq block) (checksum block)))"
  unfolding flashBlock_def void_def by (erule bind_io_Some) (auto dest: command_sent)

context executor
begin

lemma retryBlock_delivers:
  assumes "length block < 65000"
    and twice: "\<And>s. exec (encodeCommand cmdFlashData (blockData (of_nat seq) block) (checksum block))
        (exec (encodeCommand cmdFlashData (blockData (of_nat seq) block) (checksum block)) s)
      = exec (encodeCommand cmdFlashData (blockData (of_nat seq) block) (checksum block)) s"
  shows "retryBlock E seq block n (Some e) l = Some (Ok None, l') \<Longrightarrow>
    attempted exec cmdFlashData (blockData (of_nat seq) block) (checksum block) st0 st \<Longrightarrow>
    \<exists>w. sent l' = sent l @ w \<and> receive exec st w
      = ([], exec (encodeCommand cmdFlashData (blockData (of_nat seq) block) (checksum block)) (snd st0))"
proof (induction n arbitrary: e l st)
  case (Suc n)
  let ?p = "encodeCommand cmdFlashData (blockData (of_nat seq) block) (checksum block)"
  have len: "length (blockData (of_nat seq) block) < 65536" using assms(1) by simp
  obtain acc s where st: "st = (acc, s)" by (cases st)
  note step = attempted_step [OF len twice Suc.prems(2) [unfolded st]]
  from Suc.prems(1) show ?case
    unfolding retryBlock.simps
  proof (cases rule: try_io_Some)
    case (Ok a l1)
    then show ?thesis using flashBlock_Ok [of E "of_nat seq" block l l1] step(2) by (auto simp: st)
  next
    case (Fail e' l1)
    then obtain j where j: "sent l1 = sent l @ take j (slipEncode ?p)" by (blast dest: flashBlock_any)
    let ?l2 = "logged [EvFlushInput, EvSleep (10 * millisecond)]
      (time_sleep E (10 * millisecond) (snd (t_flushInput E (dev l1)))) l1"
    from Fail(2) have "retryBlock E seq block n (Some e') ?l2 = Some (Ok None, l')"
      by (simp add: quiet_pause)
    from Suc.IH [OF this step(1) [of j]] obtain w where
      "sent l' = sent ?l2 @ w" "receive exec (receive exec (acc, s) (take j (slipEncode ?p))) w = ([], exec ?p (snd st0))"
      by blast
    then show ?thesis
      using j by (intro exI [of _ "take j (slipEncode ?p) @ w"]) (simp add: receive_append st)
  qed simp
qed simp

lemma delivers_rawLoop:
  assumes "bs < 65000"
    and twice: "\<And>i s. seq \<le> i \<Longrightarrow> i < seq + n \<Longrightarrow>
        exec (rawPacket padded bs i) (exec (rawPacket padded bs i) s) = exec (rawPacket padded bs i) s"
  shows "delivers exec (rawLoop E off padded bs tot prog seq n) (map (rawPacket padded bs) [seq..<seq + n])"
  using twice
proof (induction n arbitrary: seq)
  case 0
  then show ?case by (simp add: delivers_ret del: ret_apply)
next
  case (Suc n)
  let ?b = "take bs (drop (seq * bs) padded)"
  have len: "length ?b < 65000" using assms(1) by simp
  have tw: "exec (encodeCommand cmdFlashData (blockData (of_nat seq) ?b) (checksum ?b))
        (exec (encodeCommand cmdFlashData (blockData (of_nat seq) ?b) (checksum ?b)) s)
      = exec (encodeCommand cmdFlashData (blockData (of_nat seq) ?b) (checksum ?b)) s" for s
    using Suc.prems [of seq s] by (simp add: rawPacket_def Let_def)
  have IH: "delivers exec (rawLoop E off padded bs tot prog (Suc seq) n) (map (rawPacket padded bs) [Suc seq..<Suc seq + n])"
    by (rule Suc.IH) (use Suc.prems in auto)
  show ?case
  proof (rule deliversI)
    fix l a l'
    assume "rawLoop E off padded bs tot prog seq (Suc n) l = Some (Ok a, l')"
    then obtain l1 l2 where r: "retryBlock E seq ?b 3 None l = Some (Ok None, l1)"
      and p: "progress prog (int seq + 1) (int tot) l1 = Some (Ok (), l2)"
      and k: "rawLoop E off padded bs tot prog (Suc seq) n l2 = Some (Ok a, l')"
      by (auto simp: bind_io_Ok simp del: retryBlock.simps split: option.splits)
    have "retryBlock E seq ?b 3 (Some ErrTimeout) l = retryBlock E seq ?b 3 None l"
      by (simp only: numeral_3_eq_3 retryBlock.simps)
    then have "retryBlock E seq ?b 3 (Some ErrTimeout) l = Some (Ok None, l1)"
      using r by simp
    moreover have "attempted exec cmdFlashData (blockData (of_nat seq) ?b) (checksum ?b) ([], s) ([], s)" for s
      by (simp add: attempted_def)
    ultimately have "\<exists>w. sent l1 = sent l @ w \<and> receive exec ([], s) w = ([], exec (rawPacket padded bs seq) s)" for s
      using retryBlock_delivers [OF len tw] by (fastforce simp: rawPacket_def Let_def)
    then obtain w where w: "sent l1 = sent l @ w" "\<forall>s. receive exec ([], s) w = ([], exec (rawPacket padded bs seq) s)"
      by (metis same_append_eq)
    obtain v where v: "sent l' = sent l2 @ v"
      "\<forall>s. receive exec ([], s) v = ([], fold exec (map (rawPacket padded bs) [Suc seq..<Suc seq + n]) s)"
      by (rule deliversE [OF IH k])
    have "sent l2 = sent l1" using p by (auto simp: progress_def split: if_splits)
    moreover have "[seq..<seq + Suc n] = seq # [Suc seq..<Suc seq + n]" by (simp add: upt_rec [of seq])
    ultimately show "\<exists>w. sent l' = sent l @ w \<and>
        (\<forall>s. receive exec ([], s) w = ([], fold exec (map (rawPacket padded bs) [seq..<seq + Suc n]) s))"
      using w v by (intro exI [of _ "w @ v"]) (simp add: receive_append)
  qed
qed

text \<open>A successful raw write delivers the whole session.\<close>

lemma writeFlashRaw_delivers:
  assumes run: "writeFlashRaw E off data prog l = Some (Ok (), l')"
    and twice: "\<And>p s. p \<in> set (rawPackets (stub l) off data) \<Longrightarrow> exec p (exec p s) = exec p s"
  obtains w where "sent l' = sent l @ w"
    "\<forall>s. receive exec ([], s) w = ([], fold exec (rawPackets (stub l) off data) s)"
proof -
  let ?bs = "unat (flashBlockSize (stub l))"
  let ?padded = "padBlocks ?bs data"
  let ?n = "length ?padded div ?bs"
  let ?opening = "encodeCommand cmdFlashBegin (flashBeginData (stub l) (of_nat (length ?padded)) off) 0"
  let ?rest = "bind_io (rawLoop E off ?padded ?bs ?n prog 0 ?n) (\<lambda>_. verifyMD5 E off (of_nat (length ?padded)) ?padded)"
  from run obtain l1 where b: "flashBegin E (of_nat (length ?padded)) off l = Some (Ok (), l1)"
    and r: "?rest l1 = Some (Ok (), l')"
    by (auto simp: writeFlashRaw_def Let_def bind_io_Ok wrap_io_Ok)
  have "delivers exec (rawLoop E off ?padded ?bs ?n prog 0 ?n) (map (rawPacket ?padded ?bs) [0..<0 + ?n])"
    by (rule delivers_rawLoop) (use twice in \<open>auto simp: rawPackets_def Let_def\<close>)
  then have "delivers exec ?rest (map (rawPacket ?padded ?bs) [0..<0 + ?n]
      @ [encodeCommand cmdSpiFlashMD5 (md5Data off (of_nat (length ?padded))) 0])"
    by (rule delivers_bind) (rule delivers_verifyMD5)
  from this r obtain v where v: "sent l' = sent l1 @ v"
    "\<forall>s. receive exec ([], s) v = ([], fold exec (map (rawPacket ?padded ?bs) [0..<0 + ?n]
      @ [encodeCommand cmdSpiFlashMD5 (md5Data off (of_nat (length ?padded))) 0]) s)"
    by (rule deliversE)
  show ?thesis
    by (rule that [of "slipEncode ?opening @ v"])
      (use v delivers_flashBegin [OF b] in \<open>simp_all add: receive_append receive_slipEncode rawPackets_def Let_def\<close>)
qed

end

end
