(* ===== verification/FlashLink.thy ===== *)
theory FlashLink
  imports Flash
begin

text \<open>
  Writing the flash on a link that answers: with a success reply to every request the write
  paths run to their end, and the answer to the last one, the chip's MD5, decides between
  success and the mismatch error.
\<close>

section \<open>The digest the chip sends\<close>

text \<open>The ROM loader sends 32 hexadecimal characters, the stub 16 bytes.\<close>

lemma md5Text_forms [simp]:
  "length d = 16 \<Longrightarrow> md5Text d = Inr (hexEncode d)"
  "length d = 16 \<Longrightarrow> md5Text (str_bytes (hexEncode d)) = Inr (hexEncode d)"
  by (simp_all add: md5Text_def)

definition verdict :: "u32 \<Rightarrow> bytes \<Rightarrow> string \<Rightarrow> (err, unit) outcome" where
  "verdict offset data got =
     (if got = hexEncode (md5Sum data) then Ok ()
      else Fail (MD5Mismatch offset got (hexEncode (md5Sum data))))"

lemma progress_step: "\<exists>l'. progress g n m l = Some (Ok (), l') \<and> dev l' = dev l \<and> stub l' = stub l"
  by (simp add: progress_def)

text \<open>\<open>answers c n\<close>: a success reply to each of \<open>n\<close> requests with opcode \<open>c\<close>.\<close>

definition answers :: "bool \<Rightarrow> byte \<Rightarrow> nat \<Rightarrow> bytes" where
  "answers st c n = concat (replicate n (answerFrame st c 0 []))"

lemma answers_simps [simp]:
  "answers st c 0 = []" "answers st c (Suc n) = answerFrame st c 0 [] @ answers st c n"
  by (simp_all add: answers_def)

context prompt_link
begin

lemma command_ack:
  assumes "incoming l = answerFrame (stub l) c 0 [] @ rest" and "0 < t"
  obtains r l' where "command E c d k t l = Some (Ok r, l')" "incoming l' = rest" "stub l' = stub l"
  by (rule command_answered [of t "[]" l c 0 0 rest d k]) (use assms in \<open>auto simp: answerFrame_def\<close>)

lemma flashBeginTimeout_pos [simp]: "0 < flashBeginTimeout"
  by (simp add: flashBeginTimeout_def second_def millisecond_def)

lemma verifyMD5_answered:
  assumes "incoming l = answerFrame (stub l) cmdSpiFlashMD5 0 dg @ rest" and "length dg < 65000"
    and "md5Text dg = Inr got"
  shows "\<exists>l'. verifyMD5 E off sz data l = Some (verdict off data got, l') \<and> incoming l' = rest \<and> stub l' = stub l"
proof (rule command_answered [of flashBeginTimeout dg l cmdSpiFlashMD5 0 0 rest "md5Data off sz" 0])
  fix l'
  assume run: "command E cmdSpiFlashMD5 (md5Data off sz) 0 flashBeginTimeout l
      = Some (Ok \<lparr>r_cmd = cmdSpiFlashMD5, r_value = 0, r_data = dg @ trailer (stub l) 0 0\<rparr>, l')"
    and st: "incoming l' = rest" "stub l' = stub l"
  have "flashMD5 E off sz l = Some (Ok got, l')"
    using run st assms(3)
    by (simp add: flashMD5_def bind_io_eval payload_trailer [where p = dg and s = 0 and e = 0])
  then show ?thesis
    using st by (simp add: verifyMD5_def bind_io_eval wrap_io_eval verdict_def)
qed (use assms in \<open>simp_all add: answerFrame_def\<close>)

lemma deflLoop_answered:
  "incoming l = answers (stub l) cmdFlashDeflData n @ rest \<Longrightarrow>
   \<exists>l'. deflLoop E off zbuf bs tot prog seq n l = Some (Ok (), l') \<and> incoming l' = rest \<and> stub l' = stub l"
proof (induction n arbitrary: seq l)
  case (Suc n)
  let ?chunk = "take (min (seq * bs + bs) (length zbuf) - seq * bs) (drop (seq * bs) zbuf)"
  from Suc.prems have "incoming l = answerFrame (stub l) cmdFlashDeflData 0 [] @ answers (stub l) cmdFlashDeflData n @ rest"
    by simp
  from command_ack [OF this timeouts_pos(1)] obtain r l1 where
    c: "command E cmdFlashDeflData (blockData (of_nat seq) ?chunk) (checksum ?chunk) cmdTimeout l = Some (Ok r, l1)"
      "incoming l1 = answers (stub l) cmdFlashDeflData n @ rest" "stub l1 = stub l" by metis
  obtain l2 where p: "progress prog (int seq + 1) (int tot) l1 = Some (Ok (), l2)" "dev l2 = dev l1" "stub l2 = stub l1"
    using progress_step by blast
  with c have "incoming l2 = answers (stub l2) cmdFlashDeflData n @ rest" by simp
  from Suc.IH [OF this, of "Suc seq"] show ?case
    using c p by (simp add: bind_io_eval wrap_io_eval Let_def)
qed simp

lemma rawLoop_answered:
  "incoming l = answers (stub l) cmdFlashData n @ rest \<Longrightarrow>
   \<exists>l'. rawLoop E off padded bs tot prog seq n l = Some (Ok (), l') \<and> incoming l' = rest \<and> stub l' = stub l"
proof (induction n arbitrary: seq l)
  case (Suc n)
  let ?block = "take bs (drop (seq * bs) padded)"
  from Suc.prems have "incoming l = answerFrame (stub l) cmdFlashData 0 [] @ answers (stub l) cmdFlashData n @ rest"
    by simp
  from command_ack [OF this timeouts_pos(1)] obtain r l1 where
    c: "command E cmdFlashData (blockData (of_nat seq) ?block) (checksum ?block) cmdTimeout l = Some (Ok r, l1)"
      "incoming l1 = answers (stub l) cmdFlashData n @ rest" "stub l1 = stub l" by metis
  have retry: "retryBlock E seq ?block 3 None l = Some (Ok None, l1)"
    using c(1) by (simp add: numeral_3_eq_3 flashBlock_def void_def try_io_eval bind_io_eval)
  obtain l2 where p: "progress prog (int seq + 1) (int tot) l1 = Some (Ok (), l2)" "dev l2 = dev l1" "stub l2 = stub l1"
    using progress_step by blast
  with c have "incoming l2 = answers (stub l2) cmdFlashData n @ rest" by simp
  from Suc.IH [OF this, of "Suc seq"] show ?case
    using c p retry by (simp add: bind_io_eval del: retryBlock.simps)
qed simp

lemma writeFlashCompressed_answered:
  assumes "zlib data = Inr zbuf" and "n = (length zbuf + unat (flashBlockSize (stub l)) - 1) div unat (flashBlockSize (stub l))"
    and "incoming l = answerFrame (stub l) cmdFlashDeflBegin 0 [] @ answers (stub l) cmdFlashDeflData n
      @ answerFrame (stub l) cmdSpiFlashMD5 0 dg @ rest"
    and "length dg < 65000" and "md5Text dg = Inr got"
  shows "\<exists>l'. writeFlashCompressed E zlib off data prog l = Some (verdict off data got, l') \<and> incoming l' = rest"
proof -
  let ?bs = "unat (flashBlockSize (stub l))"
  obtain r l1 where b: "command E cmdFlashDeflBegin (deflBeginData (of_nat (length data)) (of_nat n) (of_nat ?bs) off) 0
      flashBeginTimeout l = Some (Ok r, l1)"
    and l1: "incoming l1 = answers (stub l) cmdFlashDeflData n @ answerFrame (stub l) cmdSpiFlashMD5 0 dg @ rest" "stub l1 = stub l"
    by (rule command_ack [OF assms(3) flashBeginTimeout_pos])
  obtain l2 where loop: "deflLoop E off zbuf ?bs n prog 0 n l1 = Some (Ok (), l2)"
    "incoming l2 = answerFrame (stub l) cmdSpiFlashMD5 0 dg @ rest" "stub l2 = stub l"
    using deflLoop_answered [of l1 n "answerFrame (stub l) cmdSpiFlashMD5 0 dg @ rest" off zbuf ?bs n prog 0] l1 by auto
  obtain l3 where "verifyMD5 E off (of_nat (length data)) data l2 = Some (verdict off data got, l3)" "incoming l3 = rest"
    using verifyMD5_answered [of l2 dg rest got off "of_nat (length data)" data] loop assms(4,5) by auto
  then show ?thesis
    using assms(1) b loop
    by (simp add: writeFlashCompressed_def Let_def bind_io_eval wrap_io_eval assms(2) [symmetric] del: One_nat_def)
qed

lemma writeFlashRaw_answered:
  assumes "padded = padBlocks (unat (flashBlockSize (stub l))) data"
    and "n = length padded div unat (flashBlockSize (stub l))"
    and "incoming l = answerFrame (stub l) cmdFlashBegin 0 [] @ answers (stub l) cmdFlashData n
      @ answerFrame (stub l) cmdSpiFlashMD5 0 dg @ rest"
    and "length dg < 65000" and "md5Text dg = Inr got"
  shows "\<exists>l'. writeFlashRaw E off data prog l = Some (verdict off padded got, l') \<and> incoming l' = rest"
proof -
  let ?bs = "unat (flashBlockSize (stub l))"
  obtain r l1 where b: "command E cmdFlashBegin (flashBeginData (stub l) (of_nat (length padded)) off) 0
      flashBeginTimeout l = Some (Ok r, l1)"
    and l1: "incoming l1 = answers (stub l) cmdFlashData n @ answerFrame (stub l) cmdSpiFlashMD5 0 dg @ rest" "stub l1 = stub l"
    by (rule command_ack [OF assms(3) flashBeginTimeout_pos])
  then have fb: "flashBegin E (of_nat (length padded)) off l = Some (Ok (), l1)"
    by (simp add: flashBegin_def void_def bind_io_eval)
  obtain l2 where loop: "rawLoop E off padded ?bs n prog 0 n l1 = Some (Ok (), l2)"
    "incoming l2 = answerFrame (stub l) cmdSpiFlashMD5 0 dg @ rest" "stub l2 = stub l"
    using rawLoop_answered [of l1 n "answerFrame (stub l) cmdSpiFlashMD5 0 dg @ rest" off padded ?bs n prog 0] l1 by auto
  obtain l3 where "verifyMD5 E off (of_nat (length padded)) padded l2 = Some (verdict off padded got, l3)" "incoming l3 = rest"
    using verifyMD5_answered [of l2 dg rest got off "of_nat (length padded)" padded] loop assms(4,5) by auto
  then show ?thesis
    using fb loop
    by (simp add: writeFlashRaw_def Let_def bind_io_eval wrap_io_eval assms(1,2) [symmetric])
qed

end

end
