(* ===== verification/FlashChip.thy ===== *)
theory FlashChip
  imports FlashLine FlashLink
begin

text \<open>
  The flash of the chip as the protocol documents it, and the end-to-end correctness of the
  write paths against it: a call of \<open>WriteFlash\<close> that returns without error has put bytes
  on the line that make a chip erase and program exactly the region asked for.

  The memory is a function from addresses to bytes. Erasing works on whole 4 KiB sectors
  and sets them to 0xFF; programming can only clear bits, as in NOR flash. The inflater of
  the stub is the argument \<open>inflate\<close>.
\<close>

section \<open>The flash\<close>

record flashChip =
  mem :: "nat \<Rightarrow> byte"
  fbase :: nat
  fblk :: nat
  fstream :: bytes
  fleft :: nat

definition eraseRange :: "nat \<Rightarrow> nat \<Rightarrow> (nat \<Rightarrow> byte) \<Rightarrow> (nat \<Rightarrow> byte)" where
  "eraseRange off n m = (\<lambda>a. if off div 4096 * 4096 \<le> a \<and> a < (off + n + 4095) div 4096 * 4096 then 0xFF else m a)"

definition programAt :: "nat \<Rightarrow> bytes \<Rightarrow> (nat \<Rightarrow> byte) \<Rightarrow> (nat \<Rightarrow> byte)" where
  "programAt off bs m = (\<lambda>a. if off \<le> a \<and> a < off + length bs then m a AND bs ! (a - off) else m a)"

definition blockOk :: "bytes \<Rightarrow> u32 \<Rightarrow> bool" where
  "blockOk d k \<longleftrightarrow> 16 \<le> length d \<and> unat (get32 d) = length d - 16 \<and> k = checksum (drop 16 d)"

definition execFlash :: "(bytes \<Rightarrow> bytes option) \<Rightarrow> bytes \<Rightarrow> flashChip \<Rightarrow> flashChip" where
  "execFlash inflate pkt s =
     (case parseRequest pkt of
        None \<Rightarrow> s
      | Some (c, d, k) \<Rightarrow>
          if c = cmdFlashBegin \<and> 16 \<le> length d then
            s\<lparr>mem := eraseRange (unat (get32 (drop 12 d))) (unat (get32 d)) (mem s),
              fbase := unat (get32 (drop 12 d)), fblk := unat (get32 (drop 8 d))\<rparr>
          else if c = cmdFlashData \<and> blockOk d k then
            s\<lparr>mem := programAt (fbase s + unat (get32 (drop 4 d)) * fblk s) (drop 16 d) (mem s)\<rparr>
          else if c = cmdFlashDeflBegin \<and> 16 \<le> length d then
            s\<lparr>mem := eraseRange (unat (get32 (drop 12 d))) (unat (get32 d)) (mem s),
              fbase := unat (get32 (drop 12 d)), fstream := [], fleft := unat (get32 (drop 4 d))\<rparr>
          else if c = cmdFlashDeflData \<and> blockOk d k \<and> 0 < fleft s then
            s\<lparr>fstream := fstream s @ drop 16 d, fleft := fleft s - 1,
              mem := (if fleft s = 1 then
                        (case inflate (fstream s @ drop 16 d) of
                           None \<Rightarrow> mem s | Some out \<Rightarrow> programAt (fbase s) out (mem s))
                      else mem s)\<rparr>
          else s)"

interpretation flash_chip: executor "execFlash inflate" for inflate
  by unfold_locales (simp add: execFlash_def)

lemma flash_cmds_distinct [simp]:
  "cmdFlashData \<noteq> cmdFlashBegin" "cmdFlashDeflBegin \<noteq> cmdFlashBegin" "cmdFlashDeflBegin \<noteq> cmdFlashData"
  "cmdFlashDeflData \<noteq> cmdFlashBegin" "cmdFlashDeflData \<noteq> cmdFlashData" "cmdFlashDeflData \<noteq> cmdFlashDeflBegin"
  "cmdSpiFlashMD5 \<noteq> cmdFlashBegin" "cmdSpiFlashMD5 \<noteq> cmdFlashData" "cmdSpiFlashMD5 \<noteq> cmdFlashDeflBegin"
  "cmdSpiFlashMD5 \<noteq> cmdFlashDeflData"
  by (simp_all add: cmd_defs)

lemma get32_word0 [simp]: "get32 (le32 a @ xs) = a"
  by (rule get32_le32)

lemma unat_of_nat_u32: "n < 2 ^ 32 \<Longrightarrow> unat (of_nat n :: u32) = n"
  by (simp add: unat_of_nat)

section \<open>Executing the requests\<close>

lemma exec_flashBegin:
  "execFlash inflate (encodeCommand cmdFlashBegin (flashBeginData st sz off) k) s =
    s\<lparr>mem := eraseRange (unat off) (unat sz) (mem s), fbase := unat off, fblk := unat (flashBlockSize st)\<rparr>"
  by (simp add: execFlash_def parseRequest_encodeCommand del: unat_flashBlockSize) (simp add: flashBeginData_conv)

lemma exec_deflBegin:
  "execFlash inflate (encodeCommand cmdFlashDeflBegin (deflBeginData sz n bs off) k) s =
    s\<lparr>mem := eraseRange (unat off) (unat sz) (mem s), fbase := unat off, fstream := [], fleft := unat n\<rparr>"
  by (simp add: execFlash_def parseRequest_encodeCommand) (simp add: deflBeginData_conv)

lemma exec_md5 [simp]: "execFlash inflate (encodeCommand cmdSpiFlashMD5 (md5Data off sz) k) s = s"
  by (simp add: execFlash_def parseRequest_encodeCommand)

lemma blockOk_blockData: "length b < 65000 \<Longrightarrow> blockOk (blockData seq b) (checksum b)"
  by (simp add: blockOk_def blockData_conv unat_of_nat_u32)

lemma blockData_fields [simp]:
  "get32 (drop 4 (blockData seq b)) = seq" "drop 16 (blockData seq b) = b"
  by (simp_all add: blockData_conv)

lemma exec_block:
  "length b < 65000 \<Longrightarrow>
   execFlash inflate (encodeCommand cmdFlashData (blockData seq b) (checksum b)) s =
     s\<lparr>mem := programAt (fbase s + unat seq * fblk s) b (mem s)\<rparr>"
  by (simp add: execFlash_def parseRequest_encodeCommand blockOk_blockData)

lemma exec_deflBlock:
  "length b < 65000 \<Longrightarrow> 0 < fleft s \<Longrightarrow>
   execFlash inflate (encodeCommand cmdFlashDeflData (blockData seq b) (checksum b)) s =
     s\<lparr>fstream := fstream s @ b, fleft := fleft s - 1,
       mem := (if fleft s = 1 then (case inflate (fstream s @ b) of
                 None \<Rightarrow> mem s | Some out \<Rightarrow> programAt (fbase s) out (mem s)) else mem s)\<rparr>"
  by (simp add: execFlash_def parseRequest_encodeCommand blockOk_blockData)

lemma programAt_twice [simp]: "programAt off b (programAt off b m) = programAt off b m"
  by (auto simp: programAt_def and.assoc)

lemma eraseRange_twice [simp]: "eraseRange off n (eraseRange off n m) = eraseRange off n m"
  by (auto simp: eraseRange_def)

text \<open>Every packet of a raw session may be run twice.\<close>

lemma raw_twice:
  assumes "p \<in> set (rawPackets st off data)"
  shows "execFlash inflate p (execFlash inflate p s) = execFlash inflate p s"
proof -
  have "length (take (unat (flashBlockSize st)) xs) < 65000" for xs :: bytes
    by (cases st) (simp_all add: min_def)
  note block = exec_block [OF this]
  show ?thesis
    using assms
    by (auto simp: rawPackets_def rawPacket_def Let_def exec_flashBegin block simp del: unat_flashBlockSize)
qed

section \<open>Erased and programmed\<close>

lemma ff_and [simp]: "0xFF AND b = (b :: byte)"
proof -
  have "(0xFF :: byte) = - 1" by simp
  then show ?thesis by (simp only: and.left_neutral)
qed

lemma erased_covers: "off \<le> a \<Longrightarrow> a < off + n \<Longrightarrow> eraseRange off n m a = 0xFF"
proof -
  assume a: "off \<le> a" "a < off + n"
  have "off div 4096 * 4096 \<le> off" by simp
  moreover have "off + n \<le> (off + n + 4095) div 4096 * 4096" by linarith
  ultimately show ?thesis using a by (auto simp: eraseRange_def)
qed

definition inSectors :: "nat \<Rightarrow> nat \<Rightarrow> nat \<Rightarrow> bool" where
  "inSectors off n a \<longleftrightarrow> off div 4096 * 4096 \<le> a \<and> a < (off + n + 4095) div 4096 * 4096"

lemma eraseRange_other: "\<not> inSectors off n a \<Longrightarrow> eraseRange off n m a = m a"
  by (auto simp: eraseRange_def inSectors_def)

lemma inSectors_covers: "off \<le> a \<Longrightarrow> a < off + n \<Longrightarrow> inSectors off n a"
  using erased_covers [of off a n "\<lambda>_. 0"] by (auto simp: eraseRange_def inSectors_def split: if_splits)

lemma programAt_Nil [simp]: "programAt off [] m = m"
  by (rule ext) (auto simp: programAt_def)

lemma programAt_append:
  "programAt (off + length a) b (programAt off a m) = programAt off (a @ b) m"
  by (rule ext) (auto simp: programAt_def nth_append)

text \<open>The blocks of a session program the image as a whole.\<close>

lemma fold_rawPackets:
  assumes "0 < bs" and "bs < 65000" and "length padded < 2 ^ 32" and "fblk s = bs"
  shows "n * bs \<le> length padded \<Longrightarrow>
    fold (execFlash inflate) (map (rawPacket padded bs) [0..<n]) s
      = s\<lparr>mem := programAt (fbase s) (take (n * bs) padded) (mem s)\<rparr>"
proof (induction n)
  case 0
  then show ?case by simp
next
  case (Suc n)
  let ?b = "take bs (drop (n * bs) padded)"
  have le: "n * bs \<le> length padded" using Suc.prems by simp
  have "n \<le> n * bs" using assms(1) by simp
  then have n: "unat (of_nat n :: u32) = n" using le assms(3) by (intro unat_of_nat_u32) linarith
  have len: "length ?b < 65000" using assms(2) by simp
  have "Suc n * bs = n * bs + bs" by simp
  then have "take (Suc n * bs) padded = take (n * bs) padded @ ?b" by (simp only: take_add)
  moreover have "length (take (n * bs) padded) = n * bs" using le by simp
  ultimately show ?case
    using Suc.IH [OF le] exec_block [OF len] n assms(4) programAt_append [of "fbase s" "take (n * bs) padded" ?b "mem s"]
    by (simp add: rawPacket_def Let_def)
qed

lemma length_padBlocks: "0 < bs \<Longrightarrow> bs dvd length (padBlocks bs data)"
  "length data \<le> length (padBlocks bs data)" "0 < bs \<Longrightarrow> length (padBlocks bs data) < length data + bs"
proof -
  assume bs: "0 < bs"
  show "bs dvd length (padBlocks bs data)"
  proof (cases "length data mod bs = 0")
    case False
    have "length data + (bs - length data mod bs) = length data div bs * bs + bs"
      using mod_less_divisor [OF bs, of "length data"] div_mult_mod_eq [of "length data" bs] by linarith
    then show ?thesis using False by (simp add: padBlocks_def Let_def)
  qed (auto simp: padBlocks_def Let_def)
  show "length (padBlocks bs data) < length data + bs" using bs by (simp add: padBlocks_def Let_def)
next
  show "length data \<le> length (padBlocks bs data)" by (simp add: padBlocks_def Let_def)
qed

lemma padBlocks_nth:
  "i < length data \<Longrightarrow> padBlocks bs data ! i = data ! i"
  "length data \<le> i \<Longrightarrow> i < length (padBlocks bs data) \<Longrightarrow> padBlocks bs data ! i = 0xFF"
  by (auto simp: padBlocks_def Let_def nth_append split: if_splits)

lemma exec_rawPackets:
  assumes "length (padBlocks (unat (flashBlockSize st)) data) < 2 ^ 32"
  shows "mem (fold (execFlash inflate) (rawPackets st off data) s) =
    programAt (unat off) (padBlocks (unat (flashBlockSize st)) data)
      (eraseRange (unat off) (length (padBlocks (unat (flashBlockSize st)) data)) (mem s))"
proof -
  define bs padded where "bs = unat (flashBlockSize st)" and "padded = padBlocks bs data"
  have bs: "0 < bs" "bs < 65000" by (simp_all add: bs_def)
  have all: "length padded div bs * bs = length padded"
    using length_padBlocks(1) [OF bs(1), of data] by (simp add: padded_def)
  let ?s = "s\<lparr>mem := eraseRange (unat off) (length padded) (mem s), fbase := unat off, fblk := bs\<rparr>"
  have "fold (execFlash inflate) (map (rawPacket padded bs) [0..<length padded div bs]) ?s
      = ?s\<lparr>mem := programAt (fbase ?s) (take (length padded div bs * bs) padded) (mem ?s)\<rparr>"
    using assms bs by (intro fold_rawPackets) (simp_all add: padded_def bs_def all)
  then show ?thesis
    using assms
    by (simp add: rawPackets_def Let_def bs_def [symmetric] padded_def [symmetric] exec_flashBegin unat_of_nat_u32 all
        del: unat_flashBlockSize)
qed

lemma programmed_region:
  "i < length data \<Longrightarrow> programAt off data (eraseRange off (length data) m) (off + i) = data ! i"
  by (simp add: programAt_def erased_covers)

lemma programmed_other:
  "\<not> inSectors off (length data) a \<Longrightarrow> programAt off data (eraseRange off (length data) m) a = m a"
  using inSectors_covers [of off a "length data"] by (auto simp: programAt_def eraseRange_other)

text \<open>The chunks of a compressed session: the stream grows, and the last chunk programs it.\<close>

lemma take_Suc_block: "take (Suc n * bs) xs = take (n * bs) xs @ take bs (drop (n * bs) xs)"
proof -
  have "Suc n * bs = n * bs + bs" by simp
  then show ?thesis by (simp only: take_add)
qed

lemma exec_deflPacket:
  assumes "0 < bs" and "bs < 65000" and "0 < fleft s"
  shows "execFlash inflate (deflPacket zbuf bs i) s =
     s\<lparr>fstream := fstream s @ take bs (drop (i * bs) zbuf), fleft := fleft s - 1,
       mem := (if fleft s = 1 then (case inflate (fstream s @ take bs (drop (i * bs) zbuf)) of
                 None \<Rightarrow> mem s | Some out \<Rightarrow> programAt (fbase s) out (mem s)) else mem s)\<rparr>"
proof -
  have "length (take bs (drop (i * bs) zbuf)) < 65000" using assms(2) by simp
  from exec_deflBlock [OF this assms(3)] show ?thesis by (simp add: deflPacket_def Let_def)
qed

lemma fold_deflPackets:
  assumes "0 < bs" and "bs < 65000" and "fstream s = []" and "fleft s = Suc m"
  shows "n \<le> m \<Longrightarrow> fold (execFlash inflate) (map (deflPacket zbuf bs) [0..<n]) s
      = s\<lparr>fstream := take (n * bs) zbuf, fleft := Suc m - n\<rparr>"
proof (induction n)
  case 0
  then show ?case using assms(3,4) by (cases s) simp
next
  case (Suc n)
  then show ?case
    using exec_deflPacket [OF assms(1,2)] by (simp add: take_Suc_block [simplified])
qed

lemma exec_deflPackets:
  assumes "zbuf \<noteq> []" and "length zbuf + 16384 \<le> 2 ^ 32" and "n < 2 ^ 32" and "inflate zbuf = Some out"
  shows "mem (fold (execFlash inflate) (deflPackets st off n zbuf) s) =
    programAt (unat off) out (eraseRange (unat off) n (mem s))"
proof -
  define bs tot where "bs = unat (flashBlockSize st)" and "tot = (length zbuf + bs - 1) div bs"
  have bs: "0 < bs" "bs \<le> 16384" by (simp_all add: bs_def)
  have pos: "0 < length zbuf" using assms(1) by simp
  have "tot \<le> length zbuf + bs - 1" by (simp add: tot_def)
  then have tot32: "tot < 2 ^ 32" using assms(2) bs pos by linarith
  have "length zbuf \<le> tot * bs" unfolding tot_def by (rule ceil_div_bound [OF bs(1)])
  moreover from this have "tot \<noteq> 0" using pos by (cases tot) simp_all
  ultimately obtain m where m: "tot = Suc m" and len: "length zbuf \<le> Suc m * bs" by (cases tot) auto
  have all: "take (m * bs) zbuf @ take bs (drop (m * bs) zbuf) = zbuf"
    using take_all [OF len] by (simp only: take_Suc_block)
  let ?s = "s\<lparr>mem := eraseRange (unat off) n (mem s), fbase := unat off, fstream := [], fleft := Suc m\<rparr>"
  have "fold (execFlash inflate) (map (deflPacket zbuf bs) [0..<m]) ?s = ?s\<lparr>fstream := take (m * bs) zbuf, fleft := 1\<rparr>"
    using fold_deflPackets [OF bs(1) _ _ _ order_refl, of ?s m inflate zbuf] bs by simp
  then have last: "mem (fold (execFlash inflate) (map (deflPacket zbuf bs) [0..<m] @ [deflPacket zbuf bs m]) ?s)
      = programAt (unat off) out (eraseRange (unat off) n (mem s))"
    using bs by (simp add: exec_deflPacket all assms(4))
  have "map (deflPacket zbuf bs) [0..<tot] = map (deflPacket zbuf bs) [0..<m] @ [deflPacket zbuf bs m]"
    using m by simp
  moreover have "execFlash inflate (encodeCommand cmdFlashDeflBegin (deflBeginData (of_nat n) (of_nat tot) (of_nat bs) off) 0) s = ?s"
    using unat_of_nat_u32 [OF tot32] assms(3) m by (simp add: exec_deflBegin unat_of_nat_u32 del: of_nat_Suc)
  ultimately show ?thesis
    using last
    by (simp add: deflPackets_def Let_def bs_def [symmetric] tot_def [symmetric] del: unat_flashBlockSize One_nat_def)
qed

section \<open>The write paths against the chip\<close>

text \<open>What a successful write puts on the line, and what it does to the memory.\<close>

lemma WriteFlash_raw_line:
  assumes "WriteFlash E zlib off data prog l = Some (Ok (), l')" and "\<not> stub l"
    and "length data + 1024 \<le> 2 ^ 32"
  obtains w where "sent l' = sent l @ w"
    and "\<And>inflate s. \<exists>s'. receive (execFlash inflate) ([], s) w = ([], s')
      \<and> mem s' = programAt (unat off) (padBlocks 1024 data) (eraseRange (unat off) (length (padBlocks 1024 data)) (mem s))"
proof -
  let ?p = "padBlocks 1024 data"
  have run: "writeFlashRaw E off data prog l = Some (Ok (), l')"
    using assms by (simp add: WriteFlash_def)
  have "\<exists>w. sent l' = sent l @ w \<and>
      (\<forall>s. receive (execFlash inflate) ([], s) w = ([], fold (execFlash inflate) (rawPackets (stub l) off data) s))" for inflate
    by (rule flash_chip.writeFlashRaw_delivers [where inflate = inflate, OF run raw_twice]) blast+
  then obtain w where w: "sent l' = sent l @ w" and
    line: "\<And>inflate s. receive (execFlash inflate) ([], s) w = ([], fold (execFlash inflate) (rawPackets (stub l) off data) s)"
    by (metis same_append_eq)
  have len: "length ?p < 2 ^ 32" using length_padBlocks(3) [of 1024 data] assms(3) by simp
  show ?thesis
  proof (rule that [OF w])
    fix inflate s
    show "\<exists>s'. receive (execFlash inflate) ([], s) w = ([], s') \<and> mem s' = programAt (unat off) ?p (eraseRange (unat off) (length ?p) (mem s))"
      using exec_rawPackets [of "stub l" data inflate off s] len assms(2) by (simp add: line)
  qed
qed

lemma WriteFlash_stub_line:
  assumes "WriteFlash E zlib off data prog l = Some (Ok (), l')" and "stub l"
    and "zlib data = Inr zbuf" and "zbuf \<noteq> []" and "length zbuf + 16384 \<le> 2 ^ 32" and "length data < 2 ^ 32"
  obtains w where "sent l' = sent l @ w"
    and "\<And>inflate s. inflate zbuf = Some data \<Longrightarrow> \<exists>s'. receive (execFlash inflate) ([], s) w = ([], s')
      \<and> mem s' = programAt (unat off) data (eraseRange (unat off) (length data) (mem s))"
proof -
  have run: "writeFlashCompressed E zlib off data prog l = Some (Ok (), l')"
    using assms by (simp add: WriteFlash_def)
  have "\<exists>w. sent l' = sent l @ w \<and>
      (\<forall>s. receive (execFlash inflate) ([], s) w
        = ([], fold (execFlash inflate) (deflPackets (stub l) off (length data) zbuf) s))" for inflate
    by (rule writeFlashCompressed_delivers [OF run assms(3)]) blast
  then obtain w where w: "sent l' = sent l @ w" and
    line: "\<And>inflate s. receive (execFlash inflate) ([], s) w
        = ([], fold (execFlash inflate) (deflPackets (stub l) off (length data) zbuf) s)"
    by (metis same_append_eq)
  show ?thesis
  proof (rule that [OF w])
    fix inflate s assume "inflate zbuf = Some data"
    from exec_deflPackets [where inflate = inflate, OF assms(4-6) this, of "stub l" off s]
    show "\<exists>s'. receive (execFlash inflate) ([], s) w = ([], s') \<and> mem s' = programAt (unat off) data (eraseRange (unat off) (length data) (mem s))"
      by (simp add: line)
  qed
qed

text \<open>C2. On the ROM loader: if \<open>WriteFlash\<close> returns without error, then the bytes it has put
  on the line, however they were split, cut off and sent again on the way, make the chip's
  flash hold the image at the given offset, 0xFF from the end of the image to the end of
  the last block, and what it held before in every sector outside.\<close>

theorem WriteFlash_raw_programs:
  assumes "WriteFlash E zlib off data prog l = Some (Ok (), l')" and "\<not> stub l"
    and "length data + 1024 \<le> 2 ^ 32"
  shows "\<exists>w. sent l' = sent l @ w \<and> (\<forall>inflate s. let m = mem (snd (receive (execFlash inflate) ([], s) w)) in
      (\<forall>i < length data. m (unat off + i) = data ! i)
    \<and> (\<forall>i. length data \<le> i \<and> i < length (padBlocks 1024 data) \<longrightarrow> m (unat off + i) = 0xFF)
    \<and> (\<forall>a. \<not> inSectors (unat off) (length (padBlocks 1024 data)) a \<longrightarrow> m a = mem s a))"
proof (rule WriteFlash_raw_line [OF assms])
  fix w
  assume w: "sent l' = sent l @ w"
    and line: "\<And>inflate s. \<exists>s'. receive (execFlash inflate) ([], s) w = ([], s')
      \<and> mem s' = programAt (unat off) (padBlocks 1024 data) (eraseRange (unat off) (length (padBlocks 1024 data)) (mem s))"
  have "mem (snd (receive (execFlash inflate) ([], s) w))
      = programAt (unat off) (padBlocks 1024 data) (eraseRange (unat off) (length (padBlocks 1024 data)) (mem s))" for inflate s
    using line [of inflate s] by auto
  then show ?thesis
    using w length_padBlocks(2) [of data 1024]
    by (intro exI [of _ w]) (auto simp: Let_def programmed_region programmed_other padBlocks_nth)
qed

text \<open>The image \<open>[1, 2, 3]\<close> at 0x10000, on a port that takes seven bytes per write.\<close>

theorem WriteFlash_raw_programs_witness:
  "\<exists>l l' w. WriteFlash (replay_env 7) Inr 0x10000 [1, 2, 3] True l = Some (Ok (), l')
    \<and> sent l' = sent l @ w
    \<and> mem (snd (receive (execFlash Some) ([], \<lparr>mem = (\<lambda>_. 0), fbase = 0, fblk = 0, fstream = [], fleft = 0\<rparr>) w)) 0x10001 = 2"
proof -
  let ?p = "padBlocks 1024 [1, 2, 3]"
  let ?l = "replaying (answerFrame False cmdFlashBegin 0 [] @ answers False cmdFlashData 1
    @ answerFrame False cmdSpiFlashMD5 0 (str_bytes (hexEncode (md5Sum ?p))) @ [])"
  have "length ?p = 1024" by (simp add: padBlocks_def Let_def)
  then obtain l' where "writeFlashRaw (replay_env 7) 0x10000 [1, 2, 3] True ?l = Some (Ok (), l')"
    using prompt_link.writeFlashRaw_answered [OF replay_link [of 7], of ?p ?l "[1, 2, 3]" 1
        "str_bytes (hexEncode (md5Sum ?p))" "[]" "hexEncode (md5Sum ?p)" "0x10000" True]
    by (auto simp: replaying_def NewLoader_def verdict_def)
  then have run: "WriteFlash (replay_env 7) Inr 0x10000 [1, 2, 3] True ?l = Some (Ok (), l')"
    by (simp add: WriteFlash_def replaying_def NewLoader_def)
  have "\<not> stub ?l" by (simp add: replaying_def NewLoader_def)
  from WriteFlash_raw_programs [OF run this] obtain w where w: "sent l' = sent ?l @ w"
    and m: "\<And>inflate s i. i < 3 \<Longrightarrow> mem (snd (receive (execFlash inflate) ([], s) w)) (0x10000 + i) = [1, 2, 3] ! i"
    by (auto simp: Let_def)
  show ?thesis
    using run w m [of 1] by (intro exI conjI) simp_all
qed

text \<open>C3. Under the stub: if \<open>WriteFlash\<close> returns without error, then the bytes it has put on
  the line make a chip whose inflater undoes the compressor hold exactly the image in the
  region asked for, and leave every sector outside as it was.\<close>

theorem WriteFlash_stub_programs:
  assumes "WriteFlash E zlib off data prog l = Some (Ok (), l')" and "stub l"
    and "zlib data = Inr zbuf" and "zbuf \<noteq> []" and "length zbuf + 16384 \<le> 2 ^ 32" and "length data < 2 ^ 32"
  shows "\<exists>w. sent l' = sent l @ w \<and> (\<forall>inflate s. inflate zbuf = Some data \<longrightarrow>
      (let m = mem (snd (receive (execFlash inflate) ([], s) w)) in
      (\<forall>i < length data. m (unat off + i) = data ! i)
    \<and> (\<forall>a. \<not> inSectors (unat off) (length data) a \<longrightarrow> m a = mem s a)))"
proof (rule WriteFlash_stub_line [OF assms])
  fix w
  assume w: "sent l' = sent l @ w"
    and line: "\<And>inflate s. inflate zbuf = Some data \<Longrightarrow> \<exists>s'. receive (execFlash inflate) ([], s) w = ([], s')
      \<and> mem s' = programAt (unat off) data (eraseRange (unat off) (length data) (mem s))"
  have "mem (snd (receive (execFlash inflate) ([], s) w))
      = programAt (unat off) data (eraseRange (unat off) (length data) (mem s))" if "inflate zbuf = Some data" for inflate s
    using line [where inflate = inflate, OF that, of s] by auto
  then show ?thesis
    using w by (intro exI [of _ w]) (auto simp: Let_def programmed_region programmed_other)
qed

text \<open>An image of two bytes; the stand-in for the compressor prefixes one byte.\<close>

theorem WriteFlash_stub_programs_witness:
  "\<exists>l l' w. WriteFlash (replay_env 9) (\<lambda>d. Inr (0x78 # d)) 0x3000 [5, 6] False l = Some (Ok (), l')
    \<and> sent l' = sent l @ w
    \<and> mem (snd (receive (execFlash (\<lambda>z. Some (tl z)))
        ([], \<lparr>mem = (\<lambda>_. 0), fbase = 0, fblk = 0, fstream = [], fleft = 0\<rparr>) w)) 0x3001 = 6"
proof -
  let ?l = "(replaying (answerFrame True cmdFlashDeflBegin 0 [] @ answers True cmdFlashDeflData 1
    @ answerFrame True cmdSpiFlashMD5 0 (md5Sum [5, 6]) @ []))\<lparr>stub := True\<rparr>"
  obtain l' where "writeFlashCompressed (replay_env 9) (\<lambda>d. Inr (0x78 # d)) 0x3000 [5, 6] False ?l = Some (Ok (), l')"
    using prompt_link.writeFlashCompressed_answered [OF replay_link [of 9], of "\<lambda>d. Inr (0x78 # d)" "[5, 6]" "[0x78, 5, 6]" 1 ?l
        "md5Sum [5, 6]" "[]" "hexEncode (md5Sum [5, 6])" "0x3000" False]
    by (auto simp: replaying_def NewLoader_def verdict_def)
  then have run: "WriteFlash (replay_env 9) (\<lambda>d. Inr (0x78 # d)) 0x3000 [5, 6] False ?l = Some (Ok (), l')"
    by (simp add: WriteFlash_def)
  from WriteFlash_stub_programs [OF run, of "[0x78, 5, 6]"] obtain w where w: "sent l' = sent ?l @ w"
    and m: "\<And>inflate s i. inflate [0x78, 5, 6] = Some [5, 6] \<Longrightarrow> i < 2 \<Longrightarrow>
      mem (snd (receive (execFlash inflate) ([], s) w)) (0x3000 + i) = [5, 6] ! i"
    by (auto simp: Let_def)
  show ?thesis
    using run w m [of "\<lambda>z. Some (tl z)" 1] by (intro exI [of _ ?l] exI [of _ l'] exI [of _ w] conjI) simp_all
qed

end
