(* ===== verification/FlashSpec.thy ===== *)
theory FlashSpec
  imports FlashChip
begin

text \<open>
  The remaining properties of \<open>esp/flash.go\<close>: the final verdict of a write, the fields of
  the loader, and the order of events when the baud rate changes.
\<close>

section \<open>The verdict\<close>

text \<open>C5. On a link that acknowledges every request, \<open>WriteFlash\<close> runs to its end in either
  mode and the chip's digest decides: no error exactly when it is the MD5 of the image
  (padded with 0xFF to whole blocks on the ROM loader), and otherwise the mismatch error with
  both digests.\<close>

theorem WriteFlash_verdict:
  assumes "prompt_link E stream"
    and "img = (if stub l then data else padBlocks 1024 data)"
    and "stub l \<Longrightarrow> zlib data = Inr zbuf"
    and "n = (if stub l then (length zbuf + 16383) div 16384 else length img div 1024)"
    and "stream (dev l) = answerFrame (stub l) (if stub l then cmdFlashDeflBegin else cmdFlashBegin) 0 []
      @ answers (stub l) (if stub l then cmdFlashDeflData else cmdFlashData) n
      @ answerFrame (stub l) cmdSpiFlashMD5 0 dg @ rest"
    and "length dg < 65000" and "md5Text dg = Inr got"
  shows "\<exists>l'. WriteFlash E zlib off data prog l = Some
     (if got = hexEncode (md5Sum img) then Ok () else Fail (MD5Mismatch off got (hexEncode (md5Sum img))), l')
     \<and> stream (dev l') = rest"
proof (cases "stub l")
  case True
  then show ?thesis
    using prompt_link.writeFlashCompressed_answered [where zlib = zlib and data = data and stream = stream, OF assms(1) assms(3) [OF True],
        of n l dg rest got off prog] assms(2,4-7)
    by (auto simp: WriteFlash_def verdict_def)
next
  case False
  then show ?thesis
    using prompt_link.writeFlashRaw_answered [OF assms(1), of img l data n dg rest got off prog] assms(2,4-7)
    by (auto simp: WriteFlash_def verdict_def)
qed

theorem WriteFlash_verdict_witness:
  "\<exists>l'. WriteFlash (replay_env 3) (\<lambda>d. Inr d) 0x9000 [7]
      True ((replaying (answerFrame True cmdFlashDeflBegin 0 [] @ answers True cmdFlashDeflData 1
        @ answerFrame True cmdSpiFlashMD5 0 (replicate 16 0) @ []))\<lparr>stub := True\<rparr>)
    = Some (if hexEncode (replicate 16 0) = hexEncode (md5Sum [7]) then Ok ()
        else Fail (MD5Mismatch 0x9000 (hexEncode (replicate 16 0)) (hexEncode (md5Sum [7]))), l')"
  using WriteFlash_verdict [OF replay_link [of 3], of "[7]" "(replaying (answerFrame True cmdFlashDeflBegin 0 []
      @ answers True cmdFlashDeflData 1 @ answerFrame True cmdSpiFlashMD5 0 (replicate 16 0) @ []))\<lparr>stub := True\<rparr>"
      "[7]" "\<lambda>d. Inr d" "[7]" 1 "replicate 16 0" "[]" "hexEncode (replicate 16 0)" "0x9000" True]
  by (auto simp: replaying_def NewLoader_def md5Text_forms(1) simp del: replicate.simps)

section \<open>The fields of the loader\<close>

text \<open>Writing, verifying and finishing only make requests, sleep and flush.\<close>

context io_rel
begin

lemma keeps_void [keeps_intros]: "keeps R m \<Longrightarrow> keeps R (void m)"
  unfolding void_def by (intro keeps_intros)

lemma keeps_flash_requests [keeps_intros]:
  "keeps R (SpiAttach E)" "keeps R (SpiSetParams E sz)" "keeps R (flashBegin E sz off)"
  "keeps R (flashBlock E seq b)" "keeps R (FlashFinish E reboot)" "keeps R (flashMD5 E off sz)"
  unfolding SpiAttach_def SpiSetParams_def flashBegin_def flashBlock_def FlashFinish_def flashMD5_def Let_def
  by (intro keeps_intros)+

lemma keeps_verifyMD5 [keeps_intros]: "keeps R (verifyMD5 E off sz data)"
  unfolding verifyMD5_def by (intro keeps_intros)

lemma keeps_retryBlock [keeps_intros]: "keeps R (retryBlock E seq block n e)"
  by (induction n arbitrary: e) (simp_all only: retryBlock.simps, (intro keeps_intros; assumption?)+)

lemma keeps_rawLoop [keeps_intros]: "keeps R (rawLoop E off padded bs tot prog seq n)"
  by (induction n arbitrary: seq) (simp_all only: rawLoop.simps, (intro keeps_intros; assumption?)+)

lemma keeps_deflLoop [keeps_intros]: "keeps R (deflLoop E off zbuf bs tot prog seq n)"
  by (induction n arbitrary: seq) (simp_all only: deflLoop.simps Let_def, (intro keeps_intros; assumption?)+)

lemma keeps_WriteFlash [keeps_intros]: "keeps R (WriteFlash E zlib off data prog)"
  unfolding WriteFlash_def writeFlashRaw_def writeFlashCompressed_def Let_def by (intro keeps_intros)

end

context finite_input
begin

lemma returns_void [returns_intros]: "returns m \<Longrightarrow> returns (void m)"
  unfolding void_def by (intro returns_intros)

lemma returns_flash_requests [returns_intros]:
  "returns (SpiAttach E)" "returns (SpiSetParams E sz)" "returns (flashBegin E sz off)" "returns (ChangeBaud E n)"
  "returns (flashBlock E seq b)" "returns (FlashFinish E reboot)" "returns (flashMD5 E off sz)"
  unfolding SpiAttach_def SpiSetParams_def flashBegin_def flashBlock_def FlashFinish_def flashMD5_def ChangeBaud_def Let_def
  by (intro returns_intros)+

lemma returns_verifyMD5 [returns_intros]: "returns (verifyMD5 E off sz data)"
  unfolding verifyMD5_def by (intro returns_intros)

lemma returns_retryBlock [returns_intros]: "returns (retryBlock E seq block n e)"
  by (induction n arbitrary: e) (simp_all only: retryBlock.simps, (intro returns_intros; assumption?)+)

lemma returns_rawLoop [returns_intros]: "returns (rawLoop E off padded bs tot prog seq n)"
  by (induction n arbitrary: seq) (simp_all only: rawLoop.simps, (intro returns_intros; assumption?)+)

lemma returns_deflLoop [returns_intros]: "returns (deflLoop E off zbuf bs tot prog seq n)"
  by (induction n arbitrary: seq) (simp_all only: deflLoop.simps Let_def, (intro returns_intros; assumption?)+)

lemma returns_WriteFlash [returns_intros]: "returns (WriteFlash E zlib off data prog)"
  unfolding WriteFlash_def writeFlashRaw_def writeFlashCompressed_def Let_def by (intro returns_intros)

end

text \<open>The port's rate changes only where the program says so.\<close>

section \<open>Changing the baud rate\<close>

definition bauds :: "event list \<Rightarrow> int list" where
  "bauds es = concat (map (\<lambda>e. case e of EvSetBaud n \<Rightarrow> [n] | _ \<Rightarrow> []) es)"

lemma bauds_simps [simp]:
  "bauds [] = []" "bauds (xs @ ys) = bauds xs @ bauds ys"
  "bauds (e # es) = (case e of EvSetBaud n \<Rightarrow> [n] | _ \<Rightarrow> []) @ bauds es"
  by (simp_all add: bauds_def)

text \<open>Reading and writing do not touch the rate of the port.\<close>

definition same_rate :: "'d loader \<Rightarrow> 'd loader \<Rightarrow> bool" where
  "same_rate l l' \<longleftrightarrow> bauds (evs l') = bauds (evs l)"

interpretation rate: read_rel same_rate
  by unfold_locales (auto simp: same_rate_def)

lemma rate_writeAll: "keeps same_rate (writeAll E b)"
proof (rule keepsI)
  fix l r l'
  show "writeAll E b l = Some (r, l') \<Longrightarrow> same_rate l l'"
    by (induction rule: writeAll_induct) (auto simp: same_rate_def)
qed

lemma rate_command: "keeps same_rate (command E c d k t)"
  unfolding command_def by (intro keeps_intros rate_writeAll)

text \<open>C16. Changing the baud rate keeps both ends together: the host switches its port only after
  the chip has acknowledged the request, which was sent at the old rate and names the new one
  (and, under the stub, the current one); on an error of the request the port's rate and the
  recorded rate are what they were.\<close>

theorem ChangeBaud_order:
  assumes "ChangeBaud E n l = Some (r, l')"
  shows "(r = Ok () \<longrightarrow> curBaud l' = n \<and> bauds (evs l') = bauds (evs l) @ [n]
      \<and> sent l' = sent l @ requestFrame cmdChangeBaudrate (le32 (word_of_int n) @ le32 (if stub l then word_of_int (curBaud l) else 0)))
    \<and> (bauds (evs l') = bauds (evs l) \<longrightarrow> curBaud l' = curBaud l \<and> r \<noteq> Ok ())
    \<and> (bauds (evs l') \<noteq> bauds (evs l) \<longrightarrow> (\<exists>resp l1 es. command E cmdChangeBaudrate
          (le32 (word_of_int n) @ le32 (if stub l then word_of_int (curBaud l) else 0)) 0 cmdTimeout l = Some (Ok resp, l1)
          \<and> evs l' = evs l1 @ EvSetBaud n # es))"
proof -
  let ?d = "le32 (word_of_int n) @ le32 (if stub l then word_of_int (curBaud l) else 0)"
  have data: "put32 4 (if stub l then word_of_int (curBaud l) else 0) (put32 0 (word_of_int n) (replicate 8 0)) = ?d"
    by (simp add: put32_def overwrite_def le32_def Let_def numeral_eq_Suc)
  let ?rest = "bind_io (setBaud E n) (\<lambda>_. bind_io (upd_io (\<lambda>l. l\<lparr>curBaud := n\<rparr>)) (\<lambda>_.
      bind_io (sleep E (50 * millisecond)) (\<lambda>_. flushInput E)))"
  from assms have run: "bind_io (command E cmdChangeBaudrate ?d 0 cmdTimeout) (\<lambda>_. ?rest) l = Some (r, l')"
    unfolding ChangeBaud_def bind_io_get Let_def data .
  note same = keepsD [OF rate_command, unfolded same_rate_def]
  from run show ?thesis
  proof (cases rule: bind_io_Some)
    case (Ok resp l1)
    obtain x d where s: "t_setBaud E n (dev l1) = (x, d)" by (metis surj_pair)
    show ?thesis
    proof (cases x)
      case None
      obtain y e where f: "t_flushInput E (time_sleep E (50 * millisecond) d) = (y, e)" by (metis surj_pair)
      have "l' = logged [EvFlushInput] e (logged [EvSleep (50 * millisecond)] (time_sleep E (50 * millisecond) d)
          ((logged [EvSetBaud n] d l1)\<lparr>curBaud := n\<rparr>))"
        using Ok(2) s f None by (auto simp: bind_io_def prim_defs)
      then show ?thesis
        using Ok(1) same [OF Ok(1)] command_Ok(1) [OF Ok(1)] by (auto simp: requestFrame_def)
    next
      case (Some e)
      have "l' = logged [EvSetBaud n] d l1" "r \<noteq> Ok ()"
        using Ok(2) s Some by (auto simp: bind_io_def prim_defs)
      then show ?thesis using Ok(1) same [OF Ok(1)] by auto
    qed
  next
    case (Fail e)
    then show ?thesis using same [OF Fail(1)] command_fields [OF Fail(1)] by simp
  next
    case Panic
    then show ?thesis using same [OF Panic(1)] command_fields [OF Panic(1)] by simp
  qed
qed

theorem ChangeBaud_order_witness:
  "\<exists>l'. ChangeBaud (replay_env 6) 921600 (replaying (answerFrame False cmdChangeBaudrate 0 [])) = Some (Ok (), l')
    \<and> curBaud l' = 921600 \<and> bauds (evs l') = [921600]"
proof -
  let ?l = "replaying (answerFrame False cmdChangeBaudrate 0 [])"
  have link: "prompt_link (replay_env 6) rx" by (rule replay_link) simp
  have "rx (dev ?l) = answerFrame (stub ?l) cmdChangeBaudrate 0 [] @ []" by (simp add: replaying_def NewLoader_def)
  then obtain resp l1 where "command (replay_env 6) cmdChangeBaudrate
      (put32 4 0 (put32 0 921600 (replicate 8 0))) 0 cmdTimeout ?l = Some (Ok resp, l1)"
    by (rule prompt_link.command_ack [OF link _ timeouts_pos(1)])
  then obtain l' where run: "ChangeBaud (replay_env 6) 921600 ?l = Some (Ok (), l')"
    by (simp add: ChangeBaud_def Let_def bind_io_eval prim_defs replaying_def NewLoader_def)
  from ChangeBaud_order [OF run] run show ?thesis
    by (auto simp: replaying_def NewLoader_def)
qed

end
