(* ===== verification/Base64.thy ===== *)
theory Base64
  imports Protocol
begin

text \<open>
  \<open>base64.StdEncoding.DecodeString\<close> of the Go library, which decodes the embedded flasher
  stubs (\<open>esp/stub.go\<close>): four characters at a time, line breaks skipped, padding required,
  the error carrying the offset of the offending character. The specification side is the
  encoder of RFC 4648.
\<close>

section \<open>The alphabet\<close>

definition b64Alphabet :: string where
  "b64Alphabet = ''ABCDEFGHIJKLMNOPQRSTUVWXYZabcdefghijklmnopqrstuvwxyz0123456789+/''"

definition b64Char :: "nat \<Rightarrow> char" where
  "b64Char n = b64Alphabet ! n"

definition b64Val :: "char \<Rightarrow> nat option" where
  "b64Val = map_of (zip b64Alphabet [0..<64])"

definition isNewline :: "char \<Rightarrow> bool" where
  "isNewline c \<longleftrightarrow> c = CHR 0x0A \<or> c = CHR 0x0D"

lemma b64Val_b64Char: "n < 64 \<Longrightarrow> b64Val (b64Char n) = Some n"
proof -
  have "distinct b64Alphabet" "length b64Alphabet = 64" by (simp_all add: b64Alphabet_def)
  then show "n < 64 \<Longrightarrow> ?thesis"
    using map_of_zip_nth [of b64Alphabet "[0..<64]" n] by (simp add: b64Val_def b64Char_def)
qed

section \<open>Decoding\<close>

text \<open>The bytes of a quantum of 2, 3 or 4 six-bit digits.\<close>

definition b64Bytes :: "nat list \<Rightarrow> bytes" where
  "b64Bytes ds =
     (let v = foldl (\<lambda>v d. 64 * v + d) 0 (take 4 (ds @ [0, 0, 0, 0]))
      in take (length ds - 1) [of_nat (v div 65536), of_nat (v div 256), of_nat v])"

text \<open>What may follow a character of padding at offset \<open>si\<close>: line breaks only.\<close>

definition b64End :: "nat \<Rightarrow> string \<Rightarrow> bytes \<Rightarrow> err + bytes \<times> nat \<times> string" where
  "b64End si s out =
     (let nl = takeWhile isNewline s; s' = dropWhile isNewline s in
      if s' = [] then Inr (out, si + length nl, s') else Inl (CorruptBase64 (si + length nl)))"

text \<open>
  One quantum from offset \<open>si\<close>, with the digits read so far: the bytes, and the offset and
  input behind it.
\<close>

fun b64Quantum :: "nat \<Rightarrow> string \<Rightarrow> nat list \<Rightarrow> err + bytes \<times> nat \<times> string" where
  "b64Quantum si [] ds = (if ds = [] then Inr ([], si, []) else Inl (CorruptBase64 (si - length ds)))"
| "b64Quantum si (c # s) ds =
     (case b64Val c of
        Some d \<Rightarrow> if length ds = 3 then Inr (b64Bytes (ds @ [d]), si + 1, s) else b64Quantum (si + 1) s (ds @ [d])
      | None \<Rightarrow>
          if isNewline c then b64Quantum (si + 1) s ds
          else if c \<noteq> CHR ''='' then Inl (CorruptBase64 si)
          else if length ds < 2 then Inl (CorruptBase64 si)
          else if length ds = 2 then
            (let nl = takeWhile isNewline s; s' = dropWhile isNewline s; si' = si + 1 + length nl in
             case s' of
               [] \<Rightarrow> Inl (CorruptBase64 si')
             | c' # t \<Rightarrow> if c' \<noteq> CHR ''='' then Inl (CorruptBase64 (si' - 1)) else b64End (si' + 1) t (b64Bytes ds))
          else b64End (si + 1) s (b64Bytes ds))"

lemma b64End_shorter: "b64End si s out = Inr (b, si', s') \<Longrightarrow> length s' \<le> length s"
  by (auto simp: b64End_def Let_def length_dropWhile_le split: if_splits)

lemma b64Quantum_shorter:
  "b64Quantum si s ds = Inr (b, si', s') \<Longrightarrow> length s' \<le> length s \<and> (s \<noteq> [] \<longrightarrow> length s' < length s)"
proof (induction si s ds rule: b64Quantum.induct)
  case (2 si c s ds)
  have "length t < length s" if "dropWhile isNewline s = c' # t" for c' t
    using length_dropWhile_le [of isNewline s] that by simp
  then show ?case
    using 2 by (fastforce simp: Let_def dest: b64End_shorter split: option.splits if_splits list.splits)
qed (simp split: if_splits)

function b64DecodeFrom :: "nat \<Rightarrow> string \<Rightarrow> err + bytes" where
  "b64DecodeFrom si s =
     (if s = [] then Inr []
      else case b64Quantum si s [] of
        Inl e \<Rightarrow> Inl e
      | Inr (b, si', s') \<Rightarrow> (case b64DecodeFrom si' s' of Inl e \<Rightarrow> Inl e | Inr r \<Rightarrow> Inr (b @ r)))"
  by pat_completeness auto
termination
  by (relation "measure (\<lambda>(si, s). length s)") (auto dest!: b64Quantum_shorter)

declare b64DecodeFrom.simps [simp del]

definition b64Decode :: "string \<Rightarrow> err + bytes" where
  "b64Decode s = b64DecodeFrom 0 s"

section \<open>Encoding\<close>

definition b64Digits :: "nat \<Rightarrow> nat list" where
  "b64Digits v = [v div 262144, v div 4096 mod 64, v div 64 mod 64, v mod 64]"

fun b64Encode :: "bytes \<Rightarrow> string" where
  "b64Encode [] = []"
| "b64Encode [a] = map b64Char (take 2 (b64Digits (unat a * 65536))) @ ''==''"
| "b64Encode [a, b] = map b64Char (take 3 (b64Digits (unat a * 65536 + unat b * 256))) @ ''=''"
| "b64Encode (a # b # c # r) = map b64Char (b64Digits (unat a * 65536 + unat b * 256 + unat c)) @ b64Encode r"

lemma b64Digits_value: "foldl (\<lambda>v d. 64 * v + d) 0 (b64Digits v) = v"
proof -
  have d: "v div 4096 = v div 64 div 64" "v div 262144 = v div 64 div 64 div 64" by (simp_all add: div_mult2_eq [symmetric])
  show ?thesis
    unfolding b64Digits_def foldl.simps d by (simp only: mult_div_mod_eq mult_0_right add_0)
qed

lemma b64Digits_small: "v < 16777216 \<Longrightarrow> d \<in> set (b64Digits v) \<Longrightarrow> d < 64"
  by (auto simp: b64Digits_def less_mult_imp_div_less)

lemma of_nat_256 [simp]: "(of_nat (n * 256) :: byte) = 0" "(of_nat (n * 65536) :: byte) = 0"
proof -
  have "(256 :: byte) = 0" "(65536 :: byte) = 0" by simp_all
  then show "(of_nat (n * 256) :: byte) = 0" "(of_nat (n * 65536) :: byte) = 0"
    by (simp_all only: of_nat_mult of_nat_numeral mult_zero_right)
qed

lemma b64Bytes_digits:
  "b64Bytes (b64Digits v) = [of_nat (v div 65536), of_nat (v div 256), of_nat v]"
  "v mod 64 = 0 \<Longrightarrow> b64Bytes (take 3 (b64Digits v)) = [of_nat (v div 65536), of_nat (v div 256)]"
  "v mod 64 = 0 \<Longrightarrow> v div 64 mod 64 = 0 \<Longrightarrow> b64Bytes (take 2 (b64Digits v)) = [of_nat (v div 65536)]"
proof -
  obtain d0 d1 d2 d3 where d: "b64Digits v = [d0, d1, d2, d3]" "v div 64 mod 64 = d2" "v mod 64 = d3"
    by (simp add: b64Digits_def)
  have val: "64 * (64 * (64 * d0 + d1) + d2) + d3 = v"
    using b64Digits_value [of v] by (simp add: d(1))
  show "b64Bytes (b64Digits v) = [of_nat (v div 65536), of_nat (v div 256), of_nat v]"
    using val by (simp add: b64Bytes_def d(1) Let_def)
  show "v mod 64 = 0 \<Longrightarrow> b64Bytes (take 3 (b64Digits v)) = [of_nat (v div 65536), of_nat (v div 256)]"
    using val by (simp add: b64Bytes_def d Let_def)
  show "v mod 64 = 0 \<Longrightarrow> v div 64 mod 64 = 0 \<Longrightarrow> b64Bytes (take 2 (b64Digits v)) = [of_nat (v div 65536)]"
    using val by (simp add: b64Bytes_def d Let_def)
qed

lemma b64_bytes_value:
  fixes a b c :: byte
  shows "(unat a * 65536 + unat b * 256 + unat c) div 65536 = unat a"
    and "(unat a * 65536 + unat b * 256 + unat c) div 256 = unat a * 256 + unat b"
    and "unat a * 65536 + unat b * 256 + unat c < 16777216"
  using unat_byte [of a] unat_byte [of b] unat_byte [of c] by simp_all

lemma b64_bytes_word:
  fixes a b c :: byte
  shows "of_nat (unat a * 256 + unat b) = b" and "of_nat (unat a * 65536 + unat b * 256 + unat c) = c"
  unfolding of_nat_add of_nat_256 by simp_all

section \<open>The round trip\<close>

lemma b64Quantum_digit [simp]:
  "d < 64 \<Longrightarrow> b64Quantum si (b64Char d # s) ds =
     (if length ds = 3 then Inr (b64Bytes (ds @ [d]), si + 1, s) else b64Quantum (si + 1) s (ds @ [d]))"
  by (simp add: b64Val_b64Char)

lemma b64Val_pad [simp]: "b64Val (CHR ''='') = None" "\<not> isNewline (CHR ''='')"
  by (simp_all add: b64Val_def b64Alphabet_def isNewline_def)

lemma b64DecodeFrom_Nil [simp]: "b64DecodeFrom si [] = Inr []"
  by (simp add: b64DecodeFrom.simps)

lemma b64Quantum_full:
  assumes "v < 16777216"
  shows "b64Quantum si (map b64Char (b64Digits v) @ s) [] = Inr (b64Bytes (b64Digits v), si + 4, s)"
proof -
  obtain d0 d1 d2 d3 where d: "b64Digits v = [d0, d1, d2, d3]" by (simp add: b64Digits_def)
  then have "d0 < 64" "d1 < 64" "d2 < 64" "d3 < 64" using b64Digits_small [OF assms] by simp_all
  then show ?thesis by (simp add: d b64Val_b64Char)
qed

lemma b64Quantum_padded:
  assumes "v < 16777216"
  shows "b64Quantum si (map b64Char (take 3 (b64Digits v)) @ ''='') [] = Inr (b64Bytes (take 3 (b64Digits v)), si + 4, [])"
    and "b64Quantum si (map b64Char (take 2 (b64Digits v)) @ ''=='') [] = Inr (b64Bytes (take 2 (b64Digits v)), si + 4, [])"
proof -
  obtain d0 d1 d2 d3 where d: "b64Digits v = [d0, d1, d2, d3]" by (simp add: b64Digits_def)
  then have "d0 < 64" "d1 < 64" "d2 < 64" using b64Digits_small [OF assms] by simp_all
  then show "b64Quantum si (map b64Char (take 3 (b64Digits v)) @ ''='') [] = Inr (b64Bytes (take 3 (b64Digits v)), si + 4, [])"
    and "b64Quantum si (map b64Char (take 2 (b64Digits v)) @ ''=='') [] = Inr (b64Bytes (take 2 (b64Digits v)), si + 4, [])"
    by (simp_all add: d b64Val_b64Char b64End_def)
qed

lemma b64Encode_Nil_iff [simp]: "b64Encode bs = [] \<longleftrightarrow> bs = []"
  by (cases bs rule: b64Encode.cases) (simp_all add: b64Digits_def)

lemma b64DecodeFrom_encode: "b64DecodeFrom si (b64Encode bs) = Inr bs"
proof (induction bs arbitrary: si rule: b64Encode.induct)
  case (2 a)
  let ?v = "unat a * 65536 + unat (0 :: byte) * 256 + unat (0 :: byte)"
  have v: "?v mod 64 = 0" "?v div 64 mod 64 = 0" by simp_all
  then show ?case
    using b64Quantum_padded(2) [OF b64_bytes_value(3) [of a 0 0], of si] b64Bytes_digits(3) [OF v] b64_bytes_value(1) [of a 0 0]
    by (subst b64DecodeFrom.simps) simp
next
  case (3 a b)
  let ?v = "unat a * 65536 + unat b * 256 + unat (0 :: byte)"
  have v: "?v mod 64 = 0" by simp
  have "b64Quantum si (b64Encode [a, b]) [] = Inr ([a, b], si + 4, [])"
    using b64Quantum_padded(1) [OF b64_bytes_value(3) [of a b 0], of si]
    unfolding b64Bytes_digits(2) [OF v] b64_bytes_value b64_bytes_word by simp
  then show ?case
    by (subst b64DecodeFrom.simps) (simp del: b64Encode.simps)
next
  case (4 a b c r)
  let ?v = "unat a * 65536 + unat b * 256 + unat c"
  have "b64Quantum si (b64Encode (a # b # c # r)) [] = Inr ([a, b, c], si + 4, b64Encode r)"
    using b64Quantum_full [OF b64_bytes_value(3) [of a b c], of si "b64Encode r"]
    unfolding b64Encode.simps b64Bytes_digits(1) b64_bytes_value b64_bytes_word by simp
  then show ?case
    using 4 by (subst b64DecodeFrom.simps) (simp del: b64Encode.simps)
qed simp

lemma b64Decode_encode: "b64Decode (b64Encode bs) = Inr bs"
  by (simp add: b64Decode_def b64DecodeFrom_encode)

interpretation base64: codec b64Encode "\<lambda>s. case b64Decode s of Inl _ \<Rightarrow> None | Inr b \<Rightarrow> Some b" "\<lambda>_. True"
  by unfold_locales (simp add: b64Decode_encode)

end
