(* ===== verification/Stub.thy ===== *)
theory Stub
  imports FlashSpec Base64
begin

text \<open>
  The flasher stub (\<open>esp/stub.go\<close>): uploading its two segments into the chip's RAM,
  starting it, and switching the loader to stub mode when the greeting arrives. The JSON
  decoder that reads an embedded stub is a parameter; the segments' base64 is decoded here.
  The specification side is the chip's RAM.
\<close>

section \<open>Uploading\<close>

record stubImage =
  Entry :: u32
  TextStr :: string
  TextStart :: u32
  DataStr :: string
  DataStart :: u32
  BSSStart :: u32

definition espRAMBlock :: u32 where "espRAMBlock = 0x1800"

definition memBeginData :: "u32 \<Rightarrow> u32 \<Rightarrow> u32 \<Rightarrow> bytes" where
  "memBeginData n numBlocks addr =
     (let d = replicate 16 0;
          d = put32 0 n d;
          d = put32 4 numBlocks d;
          d = put32 8 espRAMBlock d;
          d = put32 12 addr d
      in d)"

text \<open>The blocks from number \<open>seq\<close> on; the bounds of a slice are computed in 32 bits.\<close>

fun memLoop :: "'d env \<Rightarrow> bytes \<Rightarrow> u32 \<Rightarrow> u32 \<Rightarrow> nat \<Rightarrow> ('d, unit) esp" where
  "memLoop E data n seq 0 = ret ()"
| "memLoop E data n seq (Suc k) =
     (let start = seq * espRAMBlock;
          stop = (if start + espRAMBlock > n then n else start + espRAMBlock)
      in if stop < start then panic
         else let block = take (unat stop - unat start) (drop (unat start) data) in
         bind_io (command E cmdMemData (blockData seq block) (checksum block) cmdTimeout) (\<lambda>_.
         memLoop E data n (seq + 1) k))"

definition memUpload :: "'d env \<Rightarrow> bytes \<Rightarrow> u32 \<Rightarrow> ('d, unit) esp" where
  "memUpload E data addr =
     (let n = of_nat (length data);
          numBlocks = (n + espRAMBlock - 1) div espRAMBlock
      in bind_io (command E cmdMemBegin (memBeginData n numBlocks addr) 0 cmdTimeout) (\<lambda>_.
         memLoop E data n 0 (unat numBlocks)))"

definition memEndData :: "u32 \<Rightarrow> bytes" where
  "memEndData entry =
     (let d = replicate 8 0;
          d = (if entry = 0 then put32 0 1 d else d);
          d = put32 4 entry d
      in d)"

definition memFinish :: "'d env \<Rightarrow> u32 \<Rightarrow> ('d, unit) esp" where
  "memFinish E entry = ignore_io (command E cmdMemEnd (memEndData entry) 0 (200 * millisecond))"

section \<open>Starting the stub\<close>

fun awaitOHAI :: "'d env \<Rightarrow> nat \<Rightarrow> ('d, unit) esp" where
  "awaitOHAI E 0 = throw NoOHAI"
| "awaitOHAI E (Suc i) =
     bind_io (wrap_io WaitingOHAI (readFrame E (2 * second))) (\<lambda>frame.
     if frame = str_bytes ''OHAI'' then upd_io (\<lambda>l. l\<lparr>stub := True\<rparr>)
     else awaitOHAI E i)"

definition RunStub :: "'d env \<Rightarrow> (stubFile \<Rightarrow> err + stubImage) \<Rightarrow> ('d, unit) esp" where
  "RunStub E unmarshal = bind_io get_io (\<lambda>l.
     if stub l then ret ()
     else
       bind_io (ensureChip E) (\<lambda>_.
       bind_io theChip (\<lambda>c.
       case unmarshal (stubJSON c) of Inl e \<Rightarrow> throw e | Inr s \<Rightarrow>
       (case b64Decode (TextStr s) of Inl e \<Rightarrow> throw (DecodeStubText e) | Inr text \<Rightarrow>
       (case b64Decode (DataStr s) of Inl e \<Rightarrow> throw (DecodeStubData e) | Inr data \<Rightarrow>
       bind_io (wrap_io UploadStubText (memUpload E text (TextStart s))) (\<lambda>_.
       bind_io (wrap_io UploadStubData (memUpload E data (DataStart s))) (\<lambda>_.
       bind_io (memFinish E (Entry s)) (\<lambda>_.
       awaitOHAI E 3))))))))"

section \<open>What changes\<close>

context io_rel
begin

lemma keeps_memLoop [keeps_intros]: "keeps R (memLoop E data n seq k)"
  by (induction k arbitrary: seq) (simp_all only: memLoop.simps Let_def, (intro keeps_intros; assumption?)+)

lemma keeps_memUpload [keeps_intros]: "keeps R (memUpload E data addr)"
  unfolding memUpload_def Let_def by (intro keeps_intros)

lemma keeps_memFinish [keeps_intros]: "keeps R (memFinish E entry)"
  unfolding memFinish_def by (intro keeps_intros)

end

context finite_input
begin

lemma returns_memLoop [returns_intros]: "returns (memLoop E data n seq k)"
  by (induction k arbitrary: seq) (simp_all only: memLoop.simps Let_def, (intro returns_intros; assumption?)+)

lemma returns_memUpload [returns_intros]: "returns (memUpload E data addr)"
  unfolding memUpload_def Let_def by (intro returns_intros)

lemma returns_awaitOHAI [returns_intros]: "returns (awaitOHAI E i)"
  by (induction i) (simp_all only: awaitOHAI.simps, (intro returns_intros; assumption?)+)

lemma returns_RunStub [returns_intros]: "returns (RunStub E unmarshal)"
  unfolding RunStub_def memFinish_def by (intro returns_intros)

end

text \<open>The greeting switches the mode, and nothing else does.\<close>

lemma awaitOHAI_mode:
  "awaitOHAI E i l = Some (r, l') \<Longrightarrow>
   stub l' = (stub l \<or> r = Ok ()) \<and> curBaud l' = curBaud l \<and> chip_of l' = chip_of l \<and> sent l' = sent l"
proof (induction i arbitrary: l)
  case (Suc i)
  have same: "stub l1 = stub l \<and> curBaud l1 = curBaud l \<and> chip_of l1 = chip_of l \<and> sent l1 = sent l"
    if "wrap_io WaitingOHAI (readFrame E (2 * second)) l = Some (r', l1)" for r' l1
  proof -
    from that obtain r'' where "readFrame E (2 * second) l = Some (r'', l1)" by (rule wrap_io_Some)
    from readFrame_fields [OF this] keepsD [OF quiet.keeps_readFrame this] show ?thesis by (simp add: same_sent_def)
  qed
  from Suc.prems show ?case
    unfolding awaitOHAI.simps
  proof (cases rule: bind_io_Some)
    case (Ok frame l1)
    with same [OF Ok(1)] Suc.IH [of l1] show ?thesis by (auto split: if_splits)
  next
    case (Fail e)
    with same [OF Fail(1)] show ?thesis by simp
  next
    case Panic
    with same [OF Panic(1)] show ?thesis by simp
  qed
qed auto

definition stub_run :: "'d loader \<Rightarrow> ((err, unit) outcome \<times> 'd loader) option \<Rightarrow> bool" where
  "stub_run l x \<longleftrightarrow> (case x of None \<Rightarrow> True | Some (r, l') \<Rightarrow> stub l' = (r = Ok ()) \<and> curBaud l' = curBaud l)"

lemma stub_run_bind:
  assumes "keeps same_mode m" and "\<not> stub l"
    and "\<And>a l1. m l = Some (Ok a, l1) \<Longrightarrow> \<not> stub l1 \<Longrightarrow> stub_run l1 (k a l1)"
  shows "stub_run l (bind_io m k l)"
proof (cases rule: io_exhaust [of m l])
  case (Ok a l1)
  with keepsD [OF assms(1) Ok] assms(2,3) show ?thesis
    by (auto simp: bind_io_eval stub_run_def same_mode_def split: option.splits)
next
  case (Fail e l1)
  with keepsD [OF assms(1) Fail] assms(2) show ?thesis by (simp add: bind_io_eval stub_run_def same_mode_def)
next
  case (Panic l1)
  with keepsD [OF assms(1) Panic] assms(2) show ?thesis by (simp add: bind_io_eval stub_run_def same_mode_def)
qed (simp add: bind_io_eval stub_run_def)

lemma stub_run_throw: "\<not> stub l \<Longrightarrow> stub_run l (throw e l)"
  by (simp add: stub_run_def)

end
