(* ===== verification/StubSpec.thy ===== *)
theory StubSpec
  imports Stub
begin

text \<open>
  Uploading the stub against the chip's RAM: a successful \<open>RunStub\<close> has put bytes on the
  line that make the chip store both segments at their addresses; and on a link that
  answers, \<open>RunStub\<close> succeeds.
\<close>

section \<open>The RAM of the chip\<close>

record ramChip =
  ram :: "nat \<Rightarrow> byte"
  rbase :: nat
  rblk :: nat
  started :: "u32 option"

definition storeAt :: "nat \<Rightarrow> bytes \<Rightarrow> (nat \<Rightarrow> byte) \<Rightarrow> (nat \<Rightarrow> byte)" where
  "storeAt off bs m = (\<lambda>a. if off \<le> a \<and> a < off + length bs then bs ! (a - off) else m a)"

definition execRAM :: "bytes \<Rightarrow> ramChip \<Rightarrow> ramChip" where
  "execRAM pkt s =
     (case parseRequest pkt of
        None \<Rightarrow> s
      | Some (c, d, k) \<Rightarrow>
          if c = cmdMemBegin \<and> length d = 16 then
            s\<lparr>rbase := unat (get32 (drop 12 d)), rblk := unat (get32 (drop 8 d))\<rparr>
          else if c = cmdMemData \<and> blockOk d k then
            s\<lparr>ram := storeAt (rbase s + unat (get32 (drop 4 d)) * rblk s) (drop 16 d) (ram s)\<rparr>
          else if c = cmdMemEnd \<and> length d = 8 \<and> get32 d = 0 then
            s\<lparr>started := Some (get32 (drop 4 d))\<rparr>
          else s)"

interpretation ram_chip: executor execRAM
  by unfold_locales (simp add: execRAM_def)

lemma ram_cmds_distinct [simp]:
  "cmdMemData \<noteq> cmdMemBegin" "cmdMemEnd \<noteq> cmdMemBegin" "cmdMemEnd \<noteq> cmdMemData"
  "cmdGetSecurityInfo \<noteq> cmdMemBegin" "cmdGetSecurityInfo \<noteq> cmdMemData" "cmdGetSecurityInfo \<noteq> cmdMemEnd"
  by (simp_all add: cmd_defs)

lemma storeAt_Nil [simp]: "storeAt off [] m = m"
  by (rule ext) (auto simp: storeAt_def)

lemma storeAt_append: "storeAt (off + length a) b (storeAt off a m) = storeAt off (a @ b) m"
  by (rule ext) (auto simp: storeAt_def nth_append)

section \<open>The packets of an upload\<close>

lemma memBeginData_conv: "memBeginData n nb addr = le32 n @ le32 nb @ le32 espRAMBlock @ le32 addr"
  by (simp add: memBeginData_def put32_def overwrite_def le32_def Let_def numeral_eq_Suc)

lemma memEndData_conv: "memEndData entry = le32 (if entry = 0 then 1 else 0) @ le32 entry"
  by (simp add: memEndData_def put32_def overwrite_def le32_def Let_def numeral_eq_Suc)

lemma exec_memBegin:
  "execRAM (encodeCommand cmdMemBegin (memBeginData n nb addr) k) s = s\<lparr>rbase := unat addr, rblk := unat espRAMBlock\<rparr>"
  by (simp add: execRAM_def parseRequest_encodeCommand memBeginData_conv)

lemma exec_memData:
  "length b < 65000 \<Longrightarrow>
   execRAM (encodeCommand cmdMemData (blockData seq b) (checksum b)) s =
     s\<lparr>ram := storeAt (rbase s + unat seq * rblk s) b (ram s)\<rparr>"
  by (simp add: execRAM_def parseRequest_encodeCommand blockOk_blockData)

lemma exec_memEnd:
  "execRAM (encodeCommand cmdMemEnd (memEndData entry) k) s = (if entry = 0 then s else s\<lparr>started := Some entry\<rparr>)"
  by (simp add: execRAM_def parseRequest_encodeCommand memEndData_conv)

lemma exec_identity [simp]: "execRAM (encodeCommand cmdGetSecurityInfo [] 0) s = s"
  by (simp add: execRAM_def parseRequest_encodeCommand)

definition memPacket :: "bytes \<Rightarrow> nat \<Rightarrow> bytes" where
  "memPacket data i =
     (let block = take 0x1800 (drop (i * 0x1800) data)
      in encodeCommand cmdMemData (blockData (of_nat i) block) (checksum block))"

definition memPackets :: "bytes \<Rightarrow> u32 \<Rightarrow> bytes list" where
  "memPackets data addr =
     (let n = of_nat (length data); numBlocks = (n + espRAMBlock - 1) div espRAMBlock in
      encodeCommand cmdMemBegin (memBeginData n numBlocks addr) 0
      # map (memPacket data) [0..<unat numBlocks])"

text \<open>Without wrap-around, the slices are the blocks.\<close>

lemma espRAMBlock_unat [simp]: "unat espRAMBlock = 0x1800"
  by (simp add: espRAMBlock_def)

lemma memBlock:
  assumes "length data + 0x1800 < 2 ^ 32" and "i * 0x1800 \<le> length data"
  defines "n \<equiv> of_nat (length data) :: u32" and "start \<equiv> of_nat i * espRAMBlock"
  defines "stop \<equiv> if start + espRAMBlock > n then n else start + espRAMBlock"
  shows "\<not> stop < start"
    and "take (unat stop - unat start) (drop (unat start) data) = take 0x1800 (drop (i * 0x1800) data)"
proof -
  have st: "start = of_nat (i * 0x1800)" by (simp add: start_def espRAMBlock_def)
  have us: "unat start = i * 0x1800" unfolding st using assms(1,2) by (intro unat_of_nat_u32) simp
  have "start + espRAMBlock = of_nat (i * 0x1800 + 0x1800)" by (simp add: st espRAMBlock_def)
  then have ue: "unat (start + espRAMBlock) = i * 0x1800 + 0x1800"
    using assms(1,2) by (simp only:) (intro unat_of_nat_u32, simp)
  have un: "unat n = length data" unfolding n_def using assms(1) by (intro unat_of_nat_u32) simp
  have stop: "unat stop = min (i * 0x1800 + 0x1800) (length data)"
    unfolding stop_def by (simp add: word_less_nat_alt ue un min_def)
  show "\<not> stop < start" using assms(2) by (simp add: word_less_nat_alt stop us min_def)
  show "take (unat stop - unat start) (drop (unat start) data) = take 0x1800 (drop (i * 0x1800) data)"
    unfolding stop us by (auto simp: min_def)
qed

lemma delivers_memLoop:
  assumes "length data + 0x1800 < 2 ^ 32"
  shows "(\<And>j. j < k \<Longrightarrow> (i + j) * 0x1800 \<le> length data) \<Longrightarrow>
    delivers exec (memLoop E data (of_nat (length data)) (of_nat i) k) (map (memPacket data) [i..<i + k])"
proof (induction k arbitrary: i)
  case 0
  then show ?case by (simp add: delivers_ret del: ret_apply)
next
  case (Suc k)
  have le: "i * 0x1800 \<le> length data" using Suc.prems [of 0] by simp
  note block = memBlock [OF assms le]
  have IH: "delivers exec (memLoop E data (of_nat (length data)) (of_nat (Suc i)) k) (map (memPacket data) [Suc i..<Suc i + k])"
    using Suc.prems [of "Suc j" for j] by (intro Suc.IH) simp
  then have IH': "delivers exec (memLoop E data (of_nat (length data)) (of_nat i + 1) k) (map (memPacket data) [Suc i..<Suc i + k])"
    by (simp add: add.commute del: upt_Suc)
  have "delivers exec (memLoop E data (of_nat (length data)) (of_nat i) (Suc k))
      ([memPacket data i] @ map (memPacket data) [Suc i..<Suc i + k])"
    unfolding memLoop.simps Let_def if_not_P [OF block(1)] block(2) memPacket_def
    by (intro delivers_bind delivers_command IH' [unfolded memPacket_def Let_def])
  moreover have "map (memPacket data) [i..<i + Suc k] = [memPacket data i] @ map (memPacket data) [Suc i..<Suc i + k]"
    by (simp add: upt_conv_Cons del: upt_Suc)
  ultimately show ?case by (simp only:)
qed

lemma numBlocks_unat:
  assumes "length data + 0x1800 < 2 ^ 32"
  shows "unat ((of_nat (length data) + espRAMBlock - 1) div espRAMBlock) = (length data + 0x17FF) div 0x1800"
proof -
  have "(of_nat (length data) + espRAMBlock - 1 :: u32) = of_nat (length data + 0x17FF)"
    by (simp add: espRAMBlock_def)
  then show ?thesis
    using assms by (simp only: unat_div) (subst unat_of_nat_u32, simp_all)
qed

lemma delivers_memUpload:
  assumes "length data + 0x1800 < 2 ^ 32"
  shows "delivers exec (memUpload E data addr) (memPackets data addr)"
proof -
  let ?n = "(length data + 0x17FF) div 0x1800"
  have "(0 + j) * 0x1800 \<le> length data" if "j < ?n" for j
    using that by (simp add: less_eq_div_iff_mult_less_eq)
  from delivers_memLoop [where i = 0, OF assms this]
  have "delivers exec (memLoop E data (of_nat (length data)) 0 ?n) (map (memPacket data) [0..<?n])" by simp
  then have "delivers exec (memUpload E data addr) ([encodeCommand cmdMemBegin (memBeginData (of_nat (length data))
      ((of_nat (length data) + espRAMBlock - 1) div espRAMBlock) addr) 0] @ map (memPacket data) [0..<?n])"
    unfolding memUpload_def Let_def numBlocks_unat [OF assms]
    by (intro delivers_bind delivers_command)
  then show ?thesis by (simp add: memPackets_def Let_def numBlocks_unat [OF assms])
qed

text \<open>Running them stores the segment.\<close>

lemma fold_memPackets:
  assumes "length data + 0x1800 < 2 ^ 32" and "rblk s = 0x1800"
  shows "(n - 1) * 0x1800 \<le> length data \<Longrightarrow>
    fold execRAM (map (memPacket data) [0..<n]) s = s\<lparr>ram := storeAt (rbase s) (take (n * 0x1800) data) (ram s)\<rparr>"
proof (induction n)
  case (Suc n)
  let ?b = "take 0x1800 (drop (n * 0x1800) data)"
  have le: "n * 0x1800 \<le> length data" using Suc.prems by simp
  then have "(n - 1) * 0x1800 \<le> length data" by (cases n) simp_all
  note IH = Suc.IH [OF this]
  have n: "unat (of_nat n :: u32) = n" using le assms(1) by (intro unat_of_nat_u32) linarith
  have len: "length ?b < 65000" by simp
  have "length (take (n * 0x1800) data) = n * 0x1800" using le by simp
  then show ?case
    using IH exec_memData [OF len] n assms(2) storeAt_append [of "rbase s" "take (n * 0x1800) data" ?b "ram s"]
      take_Suc_block [of n "0x1800" data]
    by (simp add: memPacket_def Let_def del: mult_Suc)
qed simp

lemma exec_memPackets:
  assumes "length data + 0x1800 < 2 ^ 32"
  shows "fold execRAM (memPackets data addr) s =
    s\<lparr>rbase := unat addr, rblk := 0x1800, ram := storeAt (unat addr) data (ram s)\<rparr>"
proof -
  let ?n = "(length data + 0x17FF) div 0x1800"
  let ?s = "s\<lparr>rbase := unat addr, rblk := 0x1800\<rparr>"
  have "(?n - 1) * 0x1800 \<le> length data" by (simp add: algebra_simps)
  from fold_memPackets [where s = ?s, OF assms _ this]
  have "fold execRAM (map (memPacket data) [0..<?n]) ?s = ?s\<lparr>ram := storeAt (unat addr) (take (?n * 0x1800) data) (ram s)\<rparr>"
    by simp
  moreover have "length data \<le> ?n * 0x1800" using ceil_div_bound [of "0x1800" "length data"] by simp
  ultimately show ?thesis
    by (simp add: memPackets_def Let_def numBlocks_unat [OF assms] exec_memBegin del: mult_Suc)
qed

section \<open>The stub in RAM\<close>

lemma ensureChip_line:
  assumes "ensureChip E l = Some (Ok (), l')"
  shows "\<exists>u \<in> {[], slipEncode (encodeCommand cmdGetSecurityInfo [] 0)}. sent l' = sent l @ u"
    and "stub l' = stub l" and "chip_of l' \<noteq> None"
proof -
  have id: "sent l1 = sent l @ slipEncode (encodeCommand cmdGetSecurityInfo [] 0)"
    if "ChipID E l = Some (Ok cid, l1)" for cid l1
    using that by (auto simp: ChipID_def bind_io_Ok Let_def split: if_splits dest: command_Ok(1))
  show "\<exists>u \<in> {[], slipEncode (encodeCommand cmdGetSecurityInfo [] 0)}. sent l' = sent l @ u" and "chip_of l' \<noteq> None"
    using assms id
    by (auto simp: ensureChip_def bind_io_Ok wrap_io_Ok split: if_splits option.splits)
  show "stub l' = stub l"
    using keepsD [OF mode_kept.keeps_ensureChip assms] by (simp add: same_mode_def)
qed

lemma memFinish_line:
  assumes "memFinish E entry l = Some (r, l')"
  shows "\<exists>j. sent l' = sent l @ take j (slipEncode (encodeCommand cmdMemEnd (memEndData entry) 0))"
proof -
  from assms obtain r' where "command E cmdMemEnd (memEndData entry) 0 (200 * millisecond) l = Some (r', l')"
    unfolding memFinish_def by (rule ignore_io_Some)
  then show ?thesis by (blast dest: command_sent)
qed

lemma receive_memEnd:
  assumes "receive execRAM ([], s) v = ([], t)"
  shows "ram (snd (receive execRAM ([], s) (v @ take j (slipEncode (encodeCommand cmdMemEnd (memEndData entry) k))))) = ram t"
    and "started (snd (receive execRAM ([], s) (v @ take j (slipEncode (encodeCommand cmdMemEnd (memEndData entry) k)))))
      \<in> {started t, Some entry}"
proof -
  let ?p = "encodeCommand cmdMemEnd (memEndData entry) k"
  have "snd (receive execRAM ([], t) (take j (slipEncode ?p))) \<in> {t, execRAM ?p t}"
    by (rule receive_cut [where p = ?p and k = j and exec = execRAM and acc = "[]" and s = t])
      (auto simp: encodeCommand_conv)
  then show "ram (snd (receive execRAM ([], s) (v @ take j (slipEncode ?p)))) = ram t"
    and "started (snd (receive execRAM ([], s) (v @ take j (slipEncode ?p)))) \<in> {started t, Some entry}"
    by (auto simp: receive_append assms exec_memEnd)
qed

text \<open>C9. A \<open>RunStub\<close> that returns without error has loaded the target's stub: the bytes it put
  on the line make the chip store the decoded text segment and then the decoded data segment
  at their addresses, and if the chip starts code then at the stub's entry point.\<close>

theorem RunStub_loads:
  assumes "RunStub E unmarshal l = Some (Ok (), l')" and "\<not> stub l"
  shows "\<exists>c s code data w. chip_of l' = Some c \<and> unmarshal (stubJSON c) = Inr s
    \<and> b64Decode (TextStr s) = Inr code \<and> b64Decode (DataStr s) = Inr data
    \<and> sent l' = sent l @ w
    \<and> (length code + 0x1800 < 2 ^ 32 \<and> length data + 0x1800 < 2 ^ 32 \<longrightarrow> (\<forall>s0.
        let s1 = snd (receive execRAM ([], s0) w) in
        ram s1 = storeAt (unat (DataStart s)) data (storeAt (unat (TextStart s)) code (ram s0))
        \<and> started s1 \<in> {started s0, Some (Entry s)}))"
proof -
  from assms obtain l1 c l2 s code data l3 l4 l5 where
    e: "ensureChip E l = Some (Ok (), l1)" and ch: "theChip l1 = Some (Ok c, l2)"
    and s: "unmarshal (stubJSON c) = Inr s" "b64Decode (TextStr s) = Inr code" "b64Decode (DataStr s) = Inr data"
    and ut: "memUpload E code (TextStart s) l2 = Some (Ok (), l3)"
    and ud: "memUpload E data (DataStart s) l3 = Some (Ok (), l4)"
    and mf: "memFinish E (Entry s) l4 = Some (Ok (), l5)" and o: "awaitOHAI E 3 l5 = Some (Ok (), l')"
    by (auto simp: RunStub_def bind_io_Ok wrap_io_Ok case_throw_Ok)
  have l2: "l2 = l1" "chip_of l1 = Some c" using ch by (auto simp: theChip_def split: option.splits)
  obtain u where u: "sent l1 = sent l @ u" "u = [] \<or> u = slipEncode (encodeCommand cmdGetSecurityInfo [] 0)"
    using ensureChip_line(1) [OF e] by blast
  obtain j where j: "sent l5 = sent l4 @ take j (slipEncode (encodeCommand cmdMemEnd (memEndData (Entry s)) 0))"
    using memFinish_line [OF mf] by blast
  have chip: "chip_of l' = Some c"
    using keepsD [OF fields.keeps_memUpload ut] keepsD [OF fields.keeps_memUpload ud]
      keepsD [OF fields.keeps_memFinish mf] awaitOHAI_mode [OF o] l2
    by (simp add: same_fields_def)
  obtain v where v: "sent l4 = sent l2 @ v"
    using keepsD [OF log_only.keeps_memUpload ut] keepsD [OF log_only.keeps_memUpload ud]
    by (auto simp: log_grows_def sent_def)
  let ?w = "u @ v @ take j (slipEncode (encodeCommand cmdMemEnd (memEndData (Entry s)) 0))"
  have w: "sent l' = sent l @ ?w" using awaitOHAI_mode [OF o] u(1) v j l2(1) by simp
  have run: "receive execRAM ([], s0) (u @ v) = ([], fold execRAM (memPackets code (TextStart s) @ memPackets data (DataStart s)) s0)"
    if len: "length code + 0x1800 < 2 ^ 32" "length data + 0x1800 < 2 ^ 32" for s0
  proof -
    obtain v1 where v1: "sent l3 = sent l2 @ v1" "\<forall>s0. receive execRAM ([], s0) v1 = ([], fold execRAM (memPackets code (TextStart s)) s0)"
      by (rule deliversE [OF delivers_memUpload [OF len(1)] ut])
    obtain v2 where v2: "sent l4 = sent l3 @ v2" "\<forall>s0. receive execRAM ([], s0) v2 = ([], fold execRAM (memPackets data (DataStart s)) s0)"
      by (rule deliversE [OF delivers_memUpload [OF len(2)] ud])
    have "v = v1 @ v2" using v v1(1) v2(1) by simp
    moreover have "receive execRAM ([], s0) u = ([], s0)"
      using u(2) receive_slipEncode [of "encodeCommand cmdGetSecurityInfo [] 0" execRAM "[]" s0]
      by auto
    ultimately show ?thesis using v1(2) v2(2) by (simp add: receive_append)
  qed
  show ?thesis
    using chip s w receive_memEnd [OF run, of _ j "Entry s" 0]
    by (intro exI conjI impI allI) (assumption | simp add: Let_def exec_memPackets)+
qed

section \<open>Uploading on a link that answers\<close>

context byte_stream
begin

lemma readFrame_silence:
  assumes "incoming l = []"
  shows "\<exists>l'. readFrame E t l = Some (Fail ErrTimeout, l') \<and> incoming l' = []"
proof -
  from timeout_ok obtain d where s: "t_setReadTimeout E t (dev l) = (None, d)" "stream d = incoming l" by blast
  have st: "setReadTimeout E t l = Some (Ok (), logged [EvSetReadTimeout t] d l)"
    by (simp add: setReadTimeout_def call_def s)
  obtain l' where "readByte E (logged [EvSetReadTimeout t] d l) = Some (Fail ErrTimeout, l')" "incoming l' = []"
    by (rule readByte_timeout [of "logged [EvSetReadTimeout t] d l"]) (use assms s in simp_all)
  then show ?thesis
    using st by (simp add: readFrame_def bind_io_eval seekStart.simps [of E "logged [EvSetReadTimeout t] d l"])
qed

end

context prompt_link
begin

lemma memLoop_answered:
  assumes "length data + 0x1800 < 2 ^ 32"
  shows "(\<And>j. j < k \<Longrightarrow> (i + j) * 0x1800 \<le> length data) \<Longrightarrow> incoming l = answers (stub l) cmdMemData k @ rest \<Longrightarrow>
   \<exists>l'. memLoop E data (of_nat (length data)) (of_nat i) k l = Some (Ok (), l') \<and> incoming l' = rest \<and> stub l' = stub l"
proof (induction k arbitrary: i l)
  case (Suc k)
  have le: "i * 0x1800 \<le> length data" using Suc.prems(1) [of 0] by simp
  note block = memBlock [OF assms le]
  let ?b = "take 0x1800 (drop (i * 0x1800) data)"
  from Suc.prems(2) have "incoming l = answerFrame (stub l) cmdMemData 0 [] @ answers (stub l) cmdMemData k @ rest" by simp
  from command_ack [OF this timeouts_pos(1)] obtain r l1 where
    c: "command E cmdMemData (blockData (of_nat i) ?b) (checksum ?b) cmdTimeout l = Some (Ok r, l1)"
      "incoming l1 = answers (stub l) cmdMemData k @ rest" "stub l1 = stub l" by metis
  then have "incoming l1 = answers (stub l1) cmdMemData k @ rest" by simp
  from Suc.IH [OF _ this, of "Suc i"] obtain l' where
    "memLoop E data (of_nat (length data)) (of_nat i + 1) k l1 = Some (Ok (), l')" "incoming l' = rest" "stub l' = stub l1"
    using Suc.prems(1) [of "Suc j" for j] by (auto simp: add.commute)
  then show ?case
    using c unfolding memLoop.simps Let_def if_not_P [OF block(1)] block(2) by (simp add: bind_io_eval)
qed simp

lemma memUpload_answered:
  assumes "length data + 0x1800 < 2 ^ 32" and "n = (length data + 0x17FF) div 0x1800"
    and "incoming l = answerFrame (stub l) cmdMemBegin 0 [] @ answers (stub l) cmdMemData n @ rest"
  shows "\<exists>l'. memUpload E data addr l = Some (Ok (), l') \<and> incoming l' = rest \<and> stub l' = stub l"
proof -
  from command_ack [OF assms(3) timeouts_pos(1)] obtain r l1 where
    b: "command E cmdMemBegin (memBeginData (of_nat (length data)) ((of_nat (length data) + espRAMBlock - 1) div espRAMBlock) addr)
      0 cmdTimeout l = Some (Ok r, l1)" "incoming l1 = answers (stub l) cmdMemData n @ rest" "stub l1 = stub l" by metis
  then have in1: "incoming l1 = answers (stub l1) cmdMemData n @ rest" by simp
  have "(0 + j) * 0x1800 \<le> length data" if "j < n" for j
    using that by (simp add: assms(2) less_eq_div_iff_mult_less_eq)
  from memLoop_answered [where i = 0, OF assms(1) this in1] show ?thesis
    using b by (auto simp: memUpload_def Let_def bind_io_eval numBlocks_unat [OF assms(1)] assms(2))
qed

text \<open>Other packets, and then silence: the request times out.\<close>

lemma command_silence:
  assumes "0 < t" and "list_all (other_packet c) junk" and "incoming l = concat (map slipEncode junk)"
  shows "\<exists>l'. command E c d k t l = Some (Fail ErrTimeout, l') \<and> incoming l' = []"
proof -
  have wait: "incoming l = concat (map slipEncode junk) \<Longrightarrow>
      \<exists>l'. awaitReply E c (fst (time_now E d0) + t) t l = Some (Fail ErrTimeout, l') \<and> incoming l' = []" for l d0
    using assms(2)
  proof (induction junk arbitrary: l)
    case Nil
    from now_link obtain l1 where n: "now E l = Some (Ok (fst (time_now E d0)), l1)" "incoming l1 = incoming l" by blast
    with Nil readFrame_silence [of l1 t] show ?case
      using assms(1) by (auto simp: awaitReply.simps [of E c _ t l] bind_io_eval)
  next
    case (Cons j junk)
    from now_link obtain l1 where n: "now E l = Some (Ok (fst (time_now E d0)), l1)" "incoming l1 = incoming l" by blast
    with Cons.prems obtain l2 where f: "readFrame E t l1 = Some (Ok j, l2)" "incoming l2 = concat (map slipEncode junk)"
      using readFrame_stream [of "[]" j l1 0 "concat (map slipEncode junk)" t] by (auto simp: other_packet_def)
    have "awaitReply E c (fst (time_now E d0) + t) t l = awaitReply E c (fst (time_now E d0) + t) t l2"
      using Cons.prems n f assms(1)
      by (auto simp: awaitReply.simps [of E c _ t l] bind_io_eval other_packet_def split: option.splits)
    then show ?case using Cons.IH [OF f(2)] Cons.prems by simp
  qed
  from writeAll_link obtain l1 where
    w: "writeAll E (slipEncode (encodeCommand c d k)) l = Some (Ok (), l1)" "incoming l1 = incoming l" by blast
  from now_link obtain l2 where n: "now E l1 = Some (Ok (fst (time_now E (dev l))), l2)" "incoming l2 = incoming l1" by blast
  with w wait [of l2 "dev l"] assms(3) show ?thesis by (auto simp: command_def bind_io_eval)
qed

end

text \<open>What a stub session reads while it uploads: both segments are acknowledged.\<close>

definition stubReplies :: "bytes \<Rightarrow> bytes \<Rightarrow> bytes" where
  "stubReplies code data = answerFrame False cmdMemBegin 0 [] @ answers False cmdMemData ((length code + 0x17FF) div 0x1800)
     @ answerFrame False cmdMemBegin 0 [] @ answers False cmdMemData ((length data + 0x17FF) div 0x1800)"

definition OHAI :: bytes where "OHAI = str_bytes ''OHAI''"

lemma OHAI_nonempty [simp]: "OHAI \<noteq> []"
  by (simp add: OHAI_def str_bytes_def)

lemma OHAI_other: "other_packet c OHAI"
  by (simp add: other_packet_def OHAI_def str_bytes_def parseResponse_def)

lemma uploads_answered:
  assumes "prompt_link E stream" and "\<not> stub l" and "chip_of l = Some c" and "unmarshal (stubJSON c) = Inr s"
    and "b64Decode (TextStr s) = Inr code" and "b64Decode (DataStr s) = Inr data"
    and "length code + 0x1800 < 2 ^ 32" and "length data + 0x1800 < 2 ^ 32"
    and "stream (dev l) = stubReplies code data @ rest"
  shows "\<exists>l1. RunStub E unmarshal l = bind_io (memFinish E (Entry s)) (\<lambda>_. awaitOHAI E 3) l1
    \<and> stream (dev l1) = rest \<and> \<not> stub l1"
proof -
  obtain l1 where u: "memUpload E code (TextStart s) l = Some (Ok (), l1)" "\<not> stub l1"
    "stream (dev l1) = answerFrame (stub l1) cmdMemBegin 0 [] @ answers (stub l1) cmdMemData ((length data + 0x17FF) div 0x1800) @ rest"
    using prompt_link.memUpload_answered [OF assms(1,7) refl, of l] assms(2,9) by (auto simp: stubReplies_def)
  obtain l2 where "memUpload E data (DataStart s) l1 = Some (Ok (), l2)" "stream (dev l2) = rest" "\<not> stub l2"
    using prompt_link.memUpload_answered [OF assms(1,8) refl u(3)] u(2) by auto
  then show ?thesis
    using assms u by (intro exI [of _ l2]) (simp add: RunStub_def bind_io_eval wrap_io_eval)
qed

lemma stub_greeted:
  assumes "prompt_link E stream" and "\<not> stub l" and "chip_of l = Some c" and "unmarshal (stubJSON c) = Inr s"
    and "b64Decode (TextStr s) = Inr code" and "b64Decode (DataStr s) = Inr data"
    and "length code + 0x1800 < 2 ^ 32" and "length data + 0x1800 < 2 ^ 32"
    and "stream (dev l) = stubReplies code data @ answerFrame False cmdMemEnd v [] @ late @ slipEncode OHAI @ rest"
    and "late = [] \<or> (\<exists>p. p \<noteq> [] \<and> p \<noteq> OHAI \<and> late = slipEncode p)"
  shows "\<exists>l'. RunStub E unmarshal l = Some (Ok (), l') \<and> stub l' \<and> stream (dev l') = rest"
proof -
  obtain l1 where run: "RunStub E unmarshal l = bind_io (memFinish E (Entry s)) (\<lambda>_. awaitOHAI E 3) l1"
    and l1: "stream (dev l1) = answerFrame False cmdMemEnd v [] @ late @ slipEncode OHAI @ rest" "\<not> stub l1"
    using uploads_answered [where stream = stream and unmarshal = unmarshal, OF assms(1-9)] by blast
  obtain l2 where "command E cmdMemEnd (memEndData (Entry s)) 0 (200 * millisecond) l1
      = Some (Ok \<lparr>r_cmd = cmdMemEnd, r_value = v, r_data = [] @ trailer (stub l1) 0 0\<rparr>, l2)"
    and l2: "stream (dev l2) = late @ slipEncode OHAI @ rest"
    by (rule prompt_link.command_answered [OF assms(1), of "200 * millisecond" "[]" l1])
      (use l1 in \<open>auto simp: answerFrame_def millisecond_def\<close>)
  then have fin2: "memFinish E (Entry s) l1 = Some (Ok (), l2)" by (simp add: memFinish_def ignore_io_eval)
  have bs: "byte_stream E stream" using assms(1) by (rule prompt_link.axioms(1))
  have greet: "\<exists>l'. awaitOHAI E (Suc i) l = Some (Ok (), l') \<and> stub l' \<and> stream (dev l') = rest"
    if inp: "stream (dev l) = slipEncode OHAI @ rest" for l i
  proof -
    obtain l' where "readFrame E (2 * second) l = Some (Ok OHAI, l')" "stream (dev l') = rest"
      by (rule byte_stream.readFrame_stream [OF bs, of "[]" OHAI l 0 rest "2 * second"]) (use inp in simp_all)
    then show ?thesis by (simp add: bind_io_eval wrap_io_eval OHAI_def)
  qed
  have "\<exists>l'. awaitOHAI E 3 l2 = Some (Ok (), l') \<and> stub l' \<and> stream (dev l') = rest"
  proof (cases "late = []")
    case True
    then show ?thesis using greet [of l2 2] l2 by (simp add: numeral_3_eq_3 del: awaitOHAI.simps)
  next
    case False
    then obtain p where p: "p \<noteq> []" "p \<noteq> OHAI" "late = slipEncode p" using assms(10) by auto
    obtain l3 where "readFrame E (2 * second) l2 = Some (Ok p, l3)" "stream (dev l3) = slipEncode OHAI @ rest"
      using byte_stream.readFrame_stream [OF bs, of "[]" p l2 0 "slipEncode OHAI @ rest" "2 * second"] l2 p by auto
    moreover have "awaitOHAI E 3 = awaitOHAI E (Suc (Suc 1))" by (simp only: numeral_3_eq_3 One_nat_def)
    ultimately show ?thesis
      using greet [of l3 1] p by (simp add: bind_io_eval wrap_io_eval OHAI_def [symmetric] del: awaitOHAI.simps)
        (simp add: awaitOHAI.simps(2) [of E "Suc (Suc 0)"] bind_io_eval wrap_io_eval OHAI_def)
  qed
  then show ?thesis using run fin2 by (simp add: bind_io_eval)
qed

text \<open>A stub of three bytes of text and one of data, on a port that takes five bytes per write.\<close>

definition demoStub :: stubImage where
  "demoStub = \<lparr>Entry = 0x40380000, TextStr = b64Encode [1, 2, 3], TextStart = 0x40380000,
     DataStr = b64Encode [4], DataStart = 0x40800000, BSSStart = 0\<rparr>"

definition demoChip :: chip where
  "demoChip = \<lparr>chipID = 13, chipName = ''esp32c6'', MACEfuseReg = 0x600B0844, UniversalMACs = 4, stubJSON = StubC6JSON\<rparr>"

definition demoLoader :: "bytes \<Rightarrow> replay loader" where
  "demoLoader bs = (replaying bs)\<lparr>chip_of := Some demoChip\<rparr>"

lemma demo_simps [simp]:
  "\<not> stub (demoLoader bs)" "chip_of (demoLoader bs) = Some demoChip" "rx (dev (demoLoader bs)) = bs" "sent (demoLoader bs) = []"
  "curBaud (demoLoader bs) = 115200"
  "b64Decode (TextStr demoStub) = Inr [1, 2, 3]" "b64Decode (DataStr demoStub) = Inr [4]"
  "TextStart demoStub = 0x40380000" "DataStart demoStub = 0x40800000" "Entry demoStub = 0x40380000"
  by (simp_all add: demoLoader_def replaying_def NewLoader_def demoStub_def b64Decode_encode sent_def ROMBaud_def del: b64Encode.simps)

lemma demo_run:
  "\<exists>l'. RunStub (replay_env 5) (\<lambda>_. Inr demoStub)
      (demoLoader (stubReplies [1, 2, 3] [4] @ answerFrame False cmdMemEnd 0 [] @ [] @ slipEncode OHAI @ [])) = Some (Ok (), l')"
  using stub_greeted [where stream = rx and unmarshal = "\<lambda>_. Inr demoStub" and E = "replay_env 5" and s = demoStub
      and late = "[]" and v = 0 and rest = "[]" and code = "[1, 2, 3]" and data = "[4]" and c = demoChip
      and l = "demoLoader (stubReplies [1, 2, 3] [4] @ answerFrame False cmdMemEnd 0 [] @ [] @ slipEncode OHAI @ [])", OF replay_link]
  by auto

text \<open>C10. The mode follows the outcome: \<open>RunStub\<close> leaves the loader in stub mode exactly when it
  returns without error or was in stub mode before, so that a caller can fall back to the ROM
  loader on any failure; the recorded baud rate stays as it was.\<close>

theorem RunStub_mode:
  assumes "RunStub E unmarshal l = Some (r, l')"
  shows "stub l' = (stub l \<or> r = Ok ()) \<and> curBaud l' = curBaud l"
proof (cases "stub l")
  case True
  then show ?thesis using assms by (auto simp: RunStub_def)
next
  case False
  note intro = stub_run_bind [OF mode_kept.keeps_ensureChip] stub_run_bind [OF mode_kept.reads.keeps_theChip]
    stub_run_bind [OF mode_kept.keeps_wrap [OF mode_kept.keeps_memUpload]] stub_run_bind [OF mode_kept.keeps_memFinish]
  have ohai: "stub_run l (awaitOHAI E i l)" if "\<not> stub l" for i l
    using awaitOHAI_mode [of E i l] that by (fastforce simp: stub_run_def split: option.split)
  have "stub_run l (RunStub E unmarshal l)"
    unfolding RunStub_def bind_io_get if_not_P [OF False]
    by (intro intro False) (auto split: sum.split simp del: throw_apply intro!: intro ohai stub_run_throw)
  then show ?thesis using assms False by (simp add: stub_run_def)
qed

theorem RunStub_mode_witness:
  "\<exists>l'. RunStub (replay_env 5) (\<lambda>_. Inr demoStub)
      (demoLoader (stubReplies [1, 2, 3] [4] @ answerFrame False cmdMemEnd 0 [] @ [] @ slipEncode OHAI @ [])) = Some (Ok (), l')
    \<and> stub l' \<and> curBaud l' = 115200"
  using demo_run RunStub_mode by fastforce

theorem RunStub_loads_witness:
  "\<exists>l' w. RunStub (replay_env 5) (\<lambda>_. Inr demoStub)
      (demoLoader (stubReplies [1, 2, 3] [4] @ answerFrame False cmdMemEnd 0 [] @ [] @ slipEncode OHAI @ [])) = Some (Ok (), l')
    \<and> sent l' = w \<and> (let s1 = snd (receive execRAM ([], \<lparr>ram = (\<lambda>_. 0), rbase = 0, rblk = 0, started = None\<rparr>) w) in
      ram s1 0x40380001 = 2 \<and> ram s1 0x40800000 = 4 \<and> started s1 \<in> {None, Some 0x40380000})"
proof -
  obtain l' where run: "RunStub (replay_env 5) (\<lambda>_. Inr demoStub)
      (demoLoader (stubReplies [1, 2, 3] [4] @ answerFrame False cmdMemEnd 0 [] @ [] @ slipEncode OHAI @ [])) = Some (Ok (), l')"
    using demo_run by blast
  from RunStub_loads [OF run] obtain w where w: "sent l' = w" and
    loaded: "\<And>s0. let s1 = snd (receive execRAM ([], s0) w) in
        ram s1 = storeAt 0x40800000 [4] (storeAt 0x40380000 [1, 2, 3] (ram s0)) \<and> started s1 \<in> {started s0, Some 0x40380000}"
    by auto
  then show ?thesis
    using run w loaded [of "\<lparr>ram = (\<lambda>_. 0), rbase = 0, rblk = 0, started = None\<rparr>"]
    by (intro exI [of _ l'] exI [of _ w] conjI) (auto simp: Let_def storeAt_def)
qed

text \<open>C11. On a link that answers every request and delivers the greeting, \<open>RunStub\<close> succeeds and
  the loader is in stub mode; one packet before the greeting, such as a late reply, is
  skipped.\<close>

theorem RunStub_greeted:
  assumes "prompt_link E stream" and "\<not> stub l" and "chip_of l = Some c" and "unmarshal (stubJSON c) = Inr s"
    and "b64Decode (TextStr s) = Inr code" and "b64Decode (DataStr s) = Inr data"
    and "length code + 0x1800 < 2 ^ 32" and "length data + 0x1800 < 2 ^ 32"
    and "stream (dev l) = stubReplies code data @ answerFrame False cmdMemEnd v [] @ late @ slipEncode OHAI @ rest"
    and "late = [] \<or> (\<exists>p. p \<noteq> [] \<and> p \<noteq> OHAI \<and> late = slipEncode p)"
  shows "\<exists>l'. RunStub E unmarshal l = Some (Ok (), l') \<and> stub l' \<and> stream (dev l') = rest"
  by (rule stub_greeted [where stream = stream and unmarshal = unmarshal, OF assms])

theorem RunStub_greeted_witness:
  "\<exists>l'. RunStub (replay_env 5) (\<lambda>_. Inr demoStub)
      (demoLoader (stubReplies [1, 2, 3] [4] @ answerFrame False cmdMemEnd 0 [] @ slipEncode [7] @ slipEncode OHAI @ [9])) = Some (Ok (), l')
    \<and> stub l' \<and> rx (dev l') = [9]"
  using RunStub_greeted [where stream = rx and unmarshal = "\<lambda>_. Inr demoStub" and E = "replay_env 5" and s = demoStub
      and late = "slipEncode [7]" and v = 0 and rest = "[9]" and code = "[1, 2, 3]" and data = "[4]" and c = demoChip
      and l = "demoLoader (stubReplies [1, 2, 3] [4] @ answerFrame False cmdMemEnd 0 [] @ slipEncode [7] @ slipEncode OHAI @ [9])",
      OF replay_link]
  by (auto simp: OHAI_def str_bytes_def)

text \<open>C12. The greeting is lost when the reply to the start request is: waiting for that reply
  reads and drops every other packet, so if the chip jumps to the stub without answering and
  the greeting arrives first, \<open>RunStub\<close> waits for a second greeting in vain and returns an
  error, in ROM mode, although the stub is running.\<close>

theorem RunStub_misses_greeting:
  assumes "prompt_link E stream" and "\<not> stub l" and "chip_of l = Some c" and "unmarshal (stubJSON c) = Inr s"
    and "b64Decode (TextStr s) = Inr code" and "b64Decode (DataStr s) = Inr data"
    and "length code + 0x1800 < 2 ^ 32" and "length data + 0x1800 < 2 ^ 32"
    and "stream (dev l) = stubReplies code data @ slipEncode OHAI"
  shows "\<exists>l'. RunStub E unmarshal l = Some (Fail (WaitingOHAI ErrTimeout), l') \<and> \<not> stub l'"
proof -
  obtain l1 where run: "RunStub E unmarshal l = bind_io (memFinish E (Entry s)) (\<lambda>_. awaitOHAI E 3) l1"
    and l1: "stream (dev l1) = slipEncode OHAI" "\<not> stub l1"
    using uploads_answered [where stream = stream and unmarshal = unmarshal, OF assms(1-9)] by blast
  have "0 < 200 * millisecond" by (simp add: millisecond_def)
  from prompt_link.command_silence [OF assms(1) this, of cmdMemEnd "[OHAI]" l1]
  obtain l2 where c: "command E cmdMemEnd (memEndData (Entry s)) 0 (200 * millisecond) l1 = Some (Fail ErrTimeout, l2)"
    and l2: "stream (dev l2) = []"
    using OHAI_other l1 by (simp del: mult_eq_if) blast
  then have "memFinish E (Entry s) l1 = Some (Ok (), l2)" by (simp add: memFinish_def ignore_io_eval)
  moreover have "\<not> stub l2" using command_fields(1) [OF c] l1 by simp
  moreover obtain l3 where f: "readFrame E (2 * second) l2 = Some (Fail ErrTimeout, l3)"
    using byte_stream.readFrame_silence [OF prompt_link.axioms(1) [OF assms(1)] l2] by blast
  moreover have "stub l3 = stub l2" using readFrame_fields(1) [OF f] .
  ultimately show ?thesis
    using run by (simp add: bind_io_eval wrap_io_eval numeral_3_eq_3)
qed

theorem RunStub_misses_greeting_witness:
  "\<exists>l'. RunStub (replay_env 5) (\<lambda>_. Inr demoStub) (demoLoader (stubReplies [1, 2, 3] [4] @ slipEncode OHAI))
      = Some (Fail (WaitingOHAI ErrTimeout), l') \<and> \<not> stub l'"
  using RunStub_misses_greeting [where stream = rx and unmarshal = "\<lambda>_. Inr demoStub" and E = "replay_env 5" and s = demoStub
      and code = "[1, 2, 3]" and data = "[4]" and c = demoChip
      and l = "demoLoader (stubReplies [1, 2, 3] [4] @ slipEncode OHAI)", OF replay_link]
  by auto

end
