(* ===== verification/Ops.thy ===== *)
theory Ops
  imports StubSpec
begin

text \<open>
  Whole-flash operations of the stub (\<open>esp/ops.go\<close>): erasing, and reading back with the
  running acknowledgement and the chip's digest at the end.

  \<open>ReadFlash\<close> returns the data together with the mismatch error; the model returns the
  error alone, as its callers drop the data then.
\<close>

section \<open>Erasing\<close>

definition chipEraseTimeout :: duration where "chipEraseTimeout = 120 * second"

definition EraseFlash :: "'d env \<Rightarrow> ('d, unit) esp" where
  "EraseFlash E = bind_io get_io (\<lambda>l.
     if \<not> stub l then throw EraseNeedsStub
     else void (command E cmdEraseFlash [] 0 chipEraseTimeout))"

definition EraseRegion :: "'d env \<Rightarrow> u32 \<Rightarrow> u32 \<Rightarrow> ('d, unit) esp" where
  "EraseRegion E offset sz = bind_io get_io (\<lambda>l.
     if \<not> stub l then throw EraseNeedsStub
     else
       (let d = replicate 8 0;
            d = put32 0 offset d;
            d = put32 4 sz d
        in void (command E cmdEraseRegion d 0 chipEraseTimeout)))"

section \<open>Reading\<close>

definition readBlockSize :: u32 where "readBlockSize = 0x1000"
definition readMaxInFlight :: u32 where "readMaxInFlight = 64"

definition ackFrame :: "bytes \<Rightarrow> bytes" where
  "ackFrame out = slipEncode (put32 0 (of_nat (length out)) (replicate 4 0))"

partial_function (option) readLoop ::
  "'d env \<Rightarrow> u32 \<Rightarrow> bool \<Rightarrow> bytes \<Rightarrow> 'd loader \<Rightarrow> ((err, bytes) outcome \<times> 'd loader) option" where
  "readLoop E len prog out l =
     (if of_nat (length out) < len then
        bind_io (readFrame E cmdTimeout) (\<lambda>frame.
        bind_io (writeAll E (ackFrame (out @ frame))) (\<lambda>_.
        bind_io (progress prog (int (length (out @ frame))) (uint len)) (\<lambda>_.
        readLoop E len prog (out @ frame))))
      else ret out) l"

definition readRequest :: "u32 \<Rightarrow> u32 \<Rightarrow> bytes" where
  "readRequest offset len =
     (let d = replicate 16 0;
          d = put32 0 offset d;
          d = put32 4 len d;
          d = put32 8 readBlockSize d;
          d = put32 12 readMaxInFlight d
      in d)"

definition ReadFlash :: "'d env \<Rightarrow> u32 \<Rightarrow> u32 \<Rightarrow> bool \<Rightarrow> ('d, bytes) esp" where
  "ReadFlash E offset len prog = bind_io get_io (\<lambda>l.
     if \<not> stub l then throw ReadNeedsStub
     else
       bind_io (command E cmdReadFlash (readRequest offset len) 0 cmdTimeout) (\<lambda>_.
       bind_io (readLoop E len prog []) (\<lambda>out.
       try_io (readFrame E cmdTimeout) (\<lambda>r.
         case r of
           Inl _ \<Rightarrow> ret out
         | Inr digest \<Rightarrow>
             if length digest = 16 \<and> digest \<noteq> md5Sum out then throw ReadMD5Mismatch else ret out))))"

section \<open>What it needs and what it sends\<close>

lemma readRequest_conv: "readRequest offset len = le32 offset @ le32 len @ le32 0x1000 @ le32 64"
  by (simp add: readRequest_def put32_def overwrite_def le32_def Let_def numeral_eq_Suc readBlockSize_def readMaxInFlight_def)

lemma ackFrame_conv: "ackFrame out = slipEncode (le32 (of_nat (length out)))"
  by (simp add: ackFrame_def put32_def overwrite_def le32_def numeral_eq_Suc)

text \<open>C15. In ROM mode erasing and reading are refused before anything is sent; under the stub an
  erase that returns without error has sent exactly its request, with the region as it was
  given, whether or not it is aligned to sectors.\<close>

theorem erase_and_read_need_stub:
  "(\<not> stub l \<longrightarrow> EraseFlash E l = Some (Fail EraseNeedsStub, l) \<and> EraseRegion E off sz l = Some (Fail EraseNeedsStub, l)
      \<and> ReadFlash E off sz prog l = Some (Fail ReadNeedsStub, l))
   \<and> (stub l \<longrightarrow> (\<forall>l'. EraseRegion E off sz l = Some (Ok (), l') \<longrightarrow> sent l' = sent l @ requestFrame cmdEraseRegion (le32 off @ le32 sz)))
   \<and> (stub l \<longrightarrow> (\<forall>l'. EraseFlash E l = Some (Ok (), l') \<longrightarrow> sent l' = sent l @ requestFrame cmdEraseFlash []))"
proof -
  have "put32 4 sz (put32 0 off (replicate 8 0)) = le32 off @ le32 sz"
    by (simp add: put32_def overwrite_def le32_def numeral_eq_Suc)
  then show ?thesis
    by (auto simp: EraseFlash_def EraseRegion_def ReadFlash_def void_def bind_io_Ok Let_def requestFrame_def
        dest: command_Ok(1))
qed

theorem erase_and_read_need_stub_witness:
  "EraseFlash (replay_env 4) (replaying []) = Some (Fail EraseNeedsStub, replaying [])"
  using erase_and_read_need_stub [of "replaying []" "replay_env 4" 0 0 False] by (simp add: replaying_def NewLoader_def)

section \<open>Reading on a link that answers\<close>

text \<open>The frames of a read: none is empty, and only the last reaches the length asked for.\<close>

definition readFrames :: "u32 \<Rightarrow> bytes list \<Rightarrow> bool" where
  "readFrames len fs \<longleftrightarrow> [] \<notin> set fs \<and> (\<forall>i < length fs. length (concat (take i fs)) < unat len)
     \<and> unat len \<le> length (concat fs) \<and> length (concat fs) < 2 ^ 32"

text \<open>The acknowledgements: the number of bytes received so far, after every frame.\<close>

definition acks :: "bytes list \<Rightarrow> bytes" where
  "acks fs = concat (map (\<lambda>i. slipEncode (le32 (of_nat (length (concat (take (Suc i) fs)))))) [0..<length fs])"

context prompt_link
begin

lemma readLoop_frames:
  assumes "readFrames len fs"
  shows "fs = pre @ post \<Longrightarrow> incoming l = concat (map slipEncode post) @ rest \<Longrightarrow>
    \<exists>l'. readLoop E len prog (concat pre) l = Some (Ok (concat fs), l') \<and> incoming l' = rest \<and> stub l' = stub l
      \<and> sent l' = sent l @ concat (map (\<lambda>i. slipEncode (le32 (of_nat (length (concat (take (Suc i) fs)))))) [length pre..<length fs])"
proof (induction post arbitrary: pre l)
  case Nil
  then have "unat (of_nat (length (concat pre)) :: u32) = length (concat pre)"
    using assms by (intro unat_of_nat_u32) (simp add: readFrames_def)
  then have "\<not> (of_nat (length (concat pre)) :: u32) < len"
    using Nil assms by (simp add: word_less_nat_alt readFrames_def)
  then show ?case using Nil by (simp add: readLoop.simps)
next
  case (Cons f post)
  have lt: "length (concat pre) < unat len"
    using assms Cons.prems(1) by (auto simp: readFrames_def dest: spec [of _ "length pre"])
  have "length (concat pre) < 2 ^ 32" using lt unsigned_less [of len, where ?'a = nat] by simp
  then have "unat (of_nat (length (concat pre)) :: u32) = length (concat pre)" by (rule unat_of_nat_u32)
  then have go: "(of_nat (length (concat pre)) :: u32) < len" using lt by (simp only: word_less_nat_alt)
  have ne: "f \<noteq> []" using assms Cons.prems(1) by (auto simp: readFrames_def)
  obtain l1 where r: "readFrame E cmdTimeout l = Some (Ok f, l1)" "incoming l1 = concat (map slipEncode post) @ rest"
    using readFrame_stream [of "[]" f l 0 "concat (map slipEncode post) @ rest" cmdTimeout] ne Cons.prems(2) by auto
  obtain l2 where w: "writeAll E (ackFrame (concat pre @ f)) l1 = Some (Ok (), l2)" "incoming l2 = incoming l1"
    using writeAll_link by blast
  obtain l3 where p: "progress prog (int (length (concat pre @ f))) (uint len) l2 = Some (Ok (), l3)" "dev l3 = dev l2" "stub l3 = stub l2"
    using progress_step by blast
  have s3: "sent l3 = sent l2" using p(1) by (auto simp: progress_def split: if_splits)
  have st: "stub l2 = stub l" "sent l1 = sent l"
    using readFrame_fields(1) [OF r(1)] writeAll_fields(1) [OF w(1)] keepsD [OF quiet.keeps_readFrame r(1)]
    by (simp_all add: same_sent_def)
  have "fs = (pre @ [f]) @ post" using Cons.prems(1) by simp
  moreover have "incoming l3 = concat (map slipEncode post) @ rest" using p w r by simp
  ultimately obtain l' where IH: "readLoop E len prog (concat (pre @ [f])) l3 = Some (Ok (concat fs), l')" "incoming l' = rest"
    "stub l' = stub l3" "sent l' = sent l3 @ concat (map (\<lambda>i. slipEncode (le32 (of_nat (length (concat (take (Suc i) fs))))))
      [length (pre @ [f])..<length fs])"
    using Cons.IH [of "pre @ [f]" l3] by blast
  have "[length pre..<length fs] = length pre # [length (pre @ [f])..<length fs]"
    using Cons.prems(1) by (simp add: upt_conv_Cons del: upt_Suc)
  moreover have "take (Suc (length pre)) fs = pre @ [f]" using Cons.prems(1) by simp
  moreover have "readLoop E len prog (concat pre) l = readLoop E len prog (concat (pre @ [f])) l3"
    using r w p go by (simp add: readLoop.simps [of E len prog "concat pre"] bind_io_eval)
  ultimately show ?case
    using IH p st s3 writeAll_Ok_sent [OF w(1)] by (simp add: ackFrame_conv)
qed

lemma ReadFlash_frames:
  assumes "stub l" and "readFrames len fs"
    and "incoming l = answerFrame True cmdReadFlash 0 [] @ concat (map slipEncode fs) @ rest"
  shows "\<exists>l1. ReadFlash E off len prog l = try_io (readFrame E cmdTimeout) (\<lambda>r.
         case r of Inl _ \<Rightarrow> ret (concat fs)
         | Inr digest \<Rightarrow> if length digest = 16 \<and> digest \<noteq> md5Sum (concat fs) then throw ReadMD5Mismatch else ret (concat fs)) l1
    \<and> incoming l1 = rest
    \<and> sent l1 = sent l @ requestFrame cmdReadFlash (le32 off @ le32 len @ le32 0x1000 @ le32 64) @ acks fs"
proof -
  from assms have "incoming l = answerFrame (stub l) cmdReadFlash 0 [] @ concat (map slipEncode fs) @ rest" by simp
  from command_ack [OF this timeouts_pos(1)] obtain r l1 where
    c: "command E cmdReadFlash (readRequest off len) 0 cmdTimeout l = Some (Ok r, l1)"
      "incoming l1 = concat (map slipEncode fs) @ rest" by metis
  obtain l2 where "readLoop E len prog [] l1 = Some (Ok (concat fs), l2)" "incoming l2 = rest"
    "sent l2 = sent l1 @ acks fs"
    using readLoop_frames [OF assms(2), of "[]" fs l1 rest prog] c(2) by (auto simp: acks_def)
  then show ?thesis
    using c command_Ok(1) [OF c(1)] assms(1)
    by (intro exI [of _ l2]) (simp add: ReadFlash_def bind_io_eval requestFrame_def readRequest_conv)
qed

end

text \<open>C13. Reading back on a link that answers: the data frames are returned joined, after each the
  running byte count is acknowledged, and the digest that follows decides between the data
  and the mismatch error.\<close>

theorem ReadFlash_verified:
  assumes "prompt_link E stream" and "stub l" and "readFrames len fs" and "length dg = 16"
    and "stream (dev l) = answerFrame True cmdReadFlash 0 [] @ concat (map slipEncode fs) @ slipEncode dg @ rest"
  shows "\<exists>l'. ReadFlash E off len prog l = Some (if dg = md5Sum (concat fs) then Ok (concat fs) else Fail ReadMD5Mismatch, l')
    \<and> stream (dev l') = rest
    \<and> sent l' = sent l @ requestFrame cmdReadFlash (le32 off @ le32 len @ le32 0x1000 @ le32 64) @ acks fs"
proof -
  obtain l1 where run: "ReadFlash E off len prog l = try_io (readFrame E cmdTimeout) (\<lambda>r.
         case r of Inl _ \<Rightarrow> ret (concat fs)
         | Inr digest \<Rightarrow> if length digest = 16 \<and> digest \<noteq> md5Sum (concat fs) then throw ReadMD5Mismatch else ret (concat fs)) l1"
    and l1: "stream (dev l1) = slipEncode dg @ rest"
      "sent l1 = sent l @ requestFrame cmdReadFlash (le32 off @ le32 len @ le32 0x1000 @ le32 64) @ acks fs"
    using prompt_link.ReadFlash_frames [where stream = stream, OF assms(1-3,5)] by blast
  have "dg \<noteq> []" using assms(4) by auto
  then obtain l2 where f: "readFrame E cmdTimeout l1 = Some (Ok dg, l2)" "stream (dev l2) = rest"
    using byte_stream.readFrame_stream [OF prompt_link.axioms(1) [OF assms(1)], of "[]" dg l1 0 rest cmdTimeout] l1(1) by auto
  then show ?thesis
    using run l1 assms(4) keepsD [OF quiet.keeps_readFrame f(1)] by (simp add: try_io_eval same_sent_def)
qed

theorem ReadFlash_verified_witness:
  "\<exists>l'. ReadFlash (replay_env 2) 0x1000 3 True ((replaying (answerFrame True cmdReadFlash 0 []
        @ concat (map slipEncode [[1, 2], [3]]) @ slipEncode (md5Sum [1, 2, 3]) @ []))\<lparr>stub := True\<rparr>) = Some (Ok [1, 2, 3], l')"
  using ReadFlash_verified [of "replay_env 2" rx "(replaying (answerFrame True cmdReadFlash 0 []
        @ concat (map slipEncode [[1, 2], [3]]) @ slipEncode (md5Sum [1, 2, 3]) @ []))\<lparr>stub := True\<rparr>" 3 "[[1, 2], [3]]"
        "md5Sum [1, 2, 3]" "[]" "0x1000" True, OF replay_link]
  by (auto simp: replaying_def NewLoader_def readFrames_def less_Suc_eq)

text \<open>C14. The check can be skipped by the chip: when no digest frame of sixteen bytes follows the
  data, because the line falls silent or another packet comes, \<open>ReadFlash\<close> returns whatever
  was received without an error, unverified.\<close>

theorem ReadFlash_unverified:
  assumes "prompt_link E stream" and "stub l" and "readFrames len fs"
    and "stream (dev l) = answerFrame True cmdReadFlash 0 [] @ concat (map slipEncode fs) @ tail"
    and "tail = [] \<or> (\<exists>p rest. p \<noteq> [] \<and> length p \<noteq> 16 \<and> tail = slipEncode p @ rest)"
  shows "\<exists>l'. ReadFlash E off len prog l = Some (Ok (concat fs), l')"
proof -
  note bs = prompt_link.axioms(1) [OF assms(1)]
  obtain l1 where run: "ReadFlash E off len prog l = try_io (readFrame E cmdTimeout) (\<lambda>r.
         case r of Inl _ \<Rightarrow> ret (concat fs)
         | Inr digest \<Rightarrow> if length digest = 16 \<and> digest \<noteq> md5Sum (concat fs) then throw ReadMD5Mismatch else ret (concat fs)) l1"
    and l1: "stream (dev l1) = tail"
    using prompt_link.ReadFlash_frames [where stream = stream, OF assms(1-4)] by blast
  have "\<exists>l2. readFrame E cmdTimeout l1 = Some (Fail ErrTimeout, l2)
      \<or> (\<exists>p. length p \<noteq> 16 \<and> readFrame E cmdTimeout l1 = Some (Ok p, l2))"
    using assms(5)
  proof
    assume "tail = []"
    then show ?thesis using byte_stream.readFrame_silence [OF bs, of l1 cmdTimeout] l1 by auto
  next
    assume "\<exists>p rest. p \<noteq> [] \<and> length p \<noteq> 16 \<and> tail = slipEncode p @ rest"
    then obtain p rest where p: "p \<noteq> []" "length p \<noteq> 16" "tail = slipEncode p @ rest" by blast
    obtain l2 where "readFrame E cmdTimeout l1 = Some (Ok p, l2)"
      by (rule byte_stream.readFrame_stream [OF bs, of "[]" p l1 0 rest cmdTimeout]) (use p l1 in simp_all)
    then show ?thesis using p(2) by blast
  qed
  then show ?thesis using run by (auto simp: try_io_eval)
qed

theorem ReadFlash_unverified_witness:
  "\<exists>l'. ReadFlash (replay_env 2) 0 2 False ((replaying (answerFrame True cmdReadFlash 0 []
        @ concat (map slipEncode [[1], [2, 3, 4]]) @ []))\<lparr>stub := True\<rparr>) = Some (Ok [1, 2, 3, 4], l')"
  using ReadFlash_unverified [of "replay_env 2" rx "(replaying (answerFrame True cmdReadFlash 0 []
        @ concat (map slipEncode [[1], [2, 3, 4]]) @ []))\<lparr>stub := True\<rparr>" 2 "[[1], [2, 3, 4]]" "[]" 0 False, OF replay_link]
  by (auto simp: replaying_def NewLoader_def readFrames_def less_Suc_eq)

end
