(* ===== verification/Sha256.thy ===== *)
theory Sha256
  imports Bytes
begin

text \<open>
  SHA-256 (\<open>crypto/sha256\<close>, FIPS 180-4), with which a bundle's files are checked.
\<close>

definition be32 :: "u32 \<Rightarrow> bytes" where
  "be32 v = rev (le32 v)"

definition get32be :: "bytes \<Rightarrow> u32" where
  "get32be b = get32 (rev (take 4 b))"

text \<open>The round constants, in decimal: the first 32 bits of the fractional parts of the cube roots of
  the first 64 primes.\<close>

definition shaK :: "u32 list" where
  "shaK =
    [1116352408, 1899447441, 3049323471, 3921009573, 961987163, 1508970993, 2453635748, 2870763221,
     3624381080, 310598401, 607225278, 1426881987, 1925078388, 2162078206, 2614888103, 3248222580,
     3835390401, 4022224774, 264347078, 604807628, 770255983, 1249150122, 1555081692, 1996064986,
     2554220882, 2821834349, 2952996808, 3210313671, 3336571891, 3584528711, 113926993, 338241895,
     666307205, 773529912, 1294757372, 1396182291, 1695183700, 1986661051, 2177026350, 2456956037,
     2730485921, 2820302411, 3259730800, 3345764771, 3516065817, 3600352804, 4094571909, 275423344,
     430227734, 506948616, 659060556, 883997877, 958139571, 1322822218, 1537002063, 1747873779,
     1955562222, 2024104815, 2227730452, 2361852424, 2428436474, 2756734187, 3204031479, 3329325298]"

definition shaInit :: "u32 list" where
  "shaInit = [0x6a09e667, 0xbb67ae85, 0x3c6ef372, 0xa54ff53a, 0x510e527f, 0x9b05688c, 0x1f83d9ab, 0x5be0cd19]"

definition shaSigma0 :: "u32 \<Rightarrow> u32" where
  "shaSigma0 x = word_rotr 7 x XOR word_rotr 18 x XOR drop_bit 3 x"
definition shaSigma1 :: "u32 \<Rightarrow> u32" where
  "shaSigma1 x = word_rotr 17 x XOR word_rotr 19 x XOR drop_bit 10 x"
definition shaSum0 :: "u32 \<Rightarrow> u32" where
  "shaSum0 x = word_rotr 2 x XOR word_rotr 13 x XOR word_rotr 22 x"
definition shaSum1 :: "u32 \<Rightarrow> u32" where
  "shaSum1 x = word_rotr 6 x XOR word_rotr 11 x XOR word_rotr 25 x"

definition shaExpand :: "u32 list \<Rightarrow> u32 list" where
  "shaExpand m =
     fold (\<lambda>t w. w @ [shaSigma1 (w ! (t - 2)) + w ! (t - 7) + shaSigma0 (w ! (t - 15)) + w ! (t - 16)]) [16..<64] m"

type_synonym shastate = "u32 list"

fun shaRound :: "u32 \<times> u32 \<Rightarrow> shastate \<Rightarrow> shastate" where
  "shaRound (k, w) [a, b, c, d, e, f, g, h] =
     (let t1 = h + shaSum1 e + ((e AND f) XOR (NOT e AND g)) + k + w;
          t2 = shaSum0 a + ((a AND b) XOR (a AND c) XOR (b AND c))
      in [t1 + t2, a, b, c, d + t1, e, f, g])"
| "shaRound kw st = st"

definition shaBlock :: "bytes \<Rightarrow> shastate \<Rightarrow> shastate" where
  "shaBlock block st =
     map2 (+) st (fold shaRound (zip shaK (shaExpand (map get32be (chunks 4 block)))) st)"

definition shaPad :: "bytes \<Rightarrow> bytes" where
  "shaPad data =
     data @ [0x80] @ replicate ((119 - length data mod 64) mod 64) 0 @ rev (le64 (of_nat (8 * length data)))"

definition sha256Sum :: "bytes \<Rightarrow> bytes" where
  "sha256Sum data = concat (map be32 (fold shaBlock (chunks 64 (shaPad data)) shaInit))"

lemma length_shaRound: "length (shaRound kw st) = length st"
  by (cases "(kw, st)" rule: shaRound.cases) (simp_all add: Let_def)

lemma length_shaBlock: "length (shaBlock b st) = length st"
proof -
  have "length (fold shaRound xs st) = length st" for xs
    by (induction xs arbitrary: st) (simp_all add: length_shaRound)
  then show ?thesis by (simp add: shaBlock_def)
qed

lemma length_sha256Sum [simp]: "length (sha256Sum data) = 32"
proof -
  have "length (fold shaBlock xs st) = length st" for xs st
    by (induction xs arbitrary: st) (simp_all add: length_shaBlock)
  then have "length (fold shaBlock (chunks 64 (shaPad data)) shaInit) = 8" by (simp add: shaInit_def)
  moreover have "length (concat (map be32 ws)) = 4 * length ws" for ws by (induction ws) (simp_all add: be32_def)
  ultimately show ?thesis by (simp add: sha256Sum_def)
qed

end
