(* ===== verification/DigestTests.thy ===== *)
theory DigestTests
  imports Digest Sha256
begin

text \<open>The published test vectors of the checksums, evaluated by the kernel.\<close>

text \<open>RFC 1321, the empty string and "a".\<close>

lemma md5_empty:
  "md5Sum [] = [0xd4, 0x1d, 0x8c, 0xd9, 0x8f, 0x00, 0xb2, 0x04, 0xe9, 0x80, 0x09, 0x98, 0xec, 0xf8, 0x42, 0x7e]"
  by code_simp

lemma md5_a:
  "md5Sum [0x61] = [0x0c, 0xc1, 0x75, 0xb9, 0xc0, 0xf1, 0xb6, 0xa8, 0x31, 0xc3, 0x99, 0xe2, 0x69, 0x77, 0x26, 0x61]"
  by code_simp

text \<open>The check value of CRC-32: the digits 1 to 9.\<close>

lemma crc32_check: "crc32Update 0 (str_bytes ''123456789'') = 0xCBF43926"
  by (simp add: crc_eval str_bytes_def)

text \<open>FIPS 180-4, the message "abc".\<close>

lemma sha256_abc:
  "sha256Sum [0x61, 0x62, 0x63] =
     [0xba, 0x78, 0x16, 0xbf, 0x8f, 0x01, 0xcf, 0xea, 0x41, 0x41, 0x40, 0xde, 0x5d, 0xae, 0x22, 0x23,
      0xb0, 0x03, 0x61, 0xa3, 0x96, 0x17, 0x7a, 0x9c, 0xb4, 0x10, 0xff, 0x61, 0xf2, 0x00, 0x15, 0xad]"
  by code_simp

end
