(* ===== verification/NVS.thy ===== *)
theory NVS
  imports Digest
begin

text \<open>
  The generator of NVS partition images (\<open>nvs/nvs.go\<close>). The state is the partition with
  its pages; the methods are computations over it, so that what a failing call has already
  changed is kept, as in the code. The page a method writes to is always the last one.
\<close>

section \<open>Constants\<close>

definition pageSize :: nat where "pageSize = 4096"
definition entrySize :: nat where "entrySize = 32"
definition entryCount :: nat where "entryCount = 126"
definition headerSize :: nat where "headerSize = 32"
definition bitmapSize :: nat where "bitmapSize = 32"
definition versionV2 :: byte where "versionV2 = 0xFE"

definition stateActive :: u32 where "stateActive = 0xFFFFFFFE"
definition stateFull :: u32 where "stateFull = 0xFFFFFFFC"

definition nsTableIndex :: byte where "nsTableIndex = 0"
definition chunkAny :: byte where "chunkAny = 0xFF"

definition typeU8 :: byte where "typeU8 = 0x01"
definition typeI8 :: byte where "typeI8 = 0x11"
definition typeU16 :: byte where "typeU16 = 0x02"
definition typeI16 :: byte where "typeI16 = 0x12"
definition typeU32 :: byte where "typeU32 = 0x04"
definition typeI32 :: byte where "typeI32 = 0x14"
definition typeU64 :: byte where "typeU64 = 0x08"
definition typeI64 :: byte where "typeI64 = 0x18"
definition typeStr :: byte where "typeStr = 0x21"
definition typeBlob :: byte where "typeBlob = 0x41"

lemmas nvs_sizes [simp] = pageSize_def entrySize_def entryCount_def headerSize_def bitmapSize_def
lemmas nvs_types = typeU8_def typeI8_def typeU16_def typeI16_def typeU32_def typeI32_def typeU64_def typeI64_def
  typeStr_def typeBlob_def

datatype nvsErr = BadSize int | ItemTooLarge nat | KeyTooLong string | TooManyPages nat int

definition nvsCRC32 :: "bytes \<Rightarrow> u32" where
  "nvsCRC32 data = crc32Update 0xffffffff data"

section \<open>Pages\<close>

record page =
  buf :: bytes
  pseq :: u32
  pn :: nat

definition newPage :: "u32 \<Rightarrow> page" where
  "newPage sq = \<lparr>buf = replicate pageSize 0xFF, pseq = sq, pn = 0\<rparr>"

definition freeEntries :: "page \<Rightarrow> int" where
  "freeEntries pg = int entryCount - int (pn pg)"

definition writeEntry :: "bytes \<Rightarrow> page \<Rightarrow> page" where
  "writeEntry e pg =
     (let off = headerSize + bitmapSize + pn pg * entrySize;
          b = overwrite off e (buf pg);
          k = pn pg * 2;
          j = headerSize + k div 8
      in pg\<lparr>buf := b[j := b ! j AND NOT (push_bit (k mod 8) 1)], pn := pn pg + 1\<rparr>)"

definition finalize :: "u32 \<Rightarrow> page \<Rightarrow> page" where
  "finalize st pg =
     (let b = overwrite 0 (le32 st) (buf pg);
          b = overwrite 4 (le32 (pseq pg)) b;
          b = b[8 := versionV2];
          b = overwrite 28 (le32 (nvsCRC32 (take 24 (drop 4 b)))) b
      in pg\<lparr>buf := b\<rparr>)"

section \<open>The partition\<close>

record partition =
  psize :: int
  pages :: "page list"
  nss :: "string \<rightharpoonup> u8"
  nsN :: u8

type_synonym 'a nvs = "(partition, nvsErr, 'a) io"

definition New :: "int \<Rightarrow> nvsErr + partition" where
  "New sz =
     (if sz mod int pageSize \<noteq> 0 \<or> sz < 3 * int pageSize then Inl (BadSize sz)
      else Inr \<lparr>psize = sz, pages = [newPage 0], nss = Map.empty, nsN = 0\<rparr>)"

definition cur :: "partition \<Rightarrow> page" where
  "cur p = last (pages p)"

text \<open>The last page gets \<open>span\<close> free entries, or a new page is appended.\<close>

definition fit :: "nat \<Rightarrow> unit nvs" where
  "fit span =
     (if entryCount < span then throw (ItemTooLarge span)
      else upd_io (\<lambda>p. if freeEntries (cur p) < int span
                      then p\<lparr>pages := pages p @ [newPage (pseq (cur p) + 1)]\<rparr> else p))"

text \<open>Writing an entry to the last page; the slice expression panics on a full page.\<close>

definition emit :: "bytes \<Rightarrow> unit nvs" where
  "emit e = bind_io get_io (\<lambda>p.
     if entryCount \<le> pn (cur p) then panic
     else upd_io (\<lambda>p. p\<lparr>pages := butlast (pages p) @ [writeEntry e (cur p)]\<rparr>))"

definition putKey :: "bytes \<Rightarrow> string \<Rightarrow> nvsErr + bytes" where
  "putKey e key =
     (if 15 < length key then Inl (KeyTooLong key)
      else Inr (overwrite 8 (overwrite 0 (str_bytes key) (replicate 16 0)) e))"

definition setEntryCRC :: "bytes \<Rightarrow> bytes" where
  "setEntryCRC e = overwrite 4 (le32 (nvsCRC32 (take 4 e @ take 24 (drop 8 e)))) e"

text \<open>The first bytes of an entry, the rest 0xFF.\<close>

definition entryHead :: "byte \<Rightarrow> byte \<Rightarrow> byte \<Rightarrow> bytes" where
  "entryHead nsIdx typ span =
     (let e = replicate entrySize 0xFF;
          e = e[0 := nsIdx];
          e = e[1 := typ];
          e = e[2 := span];
          e = e[3 := chunkAny]
      in e)"

definition writePrimitive :: "byte \<Rightarrow> string \<Rightarrow> byte \<Rightarrow> u64 \<Rightarrow> nat \<Rightarrow> unit nvs" where
  "writePrimitive nsIdx key typ val width =
     bind_io (fit 1) (\<lambda>_.
     case putKey (entryHead nsIdx typ 1) key of
       Inl err \<Rightarrow> throw err
     | Inr e \<Rightarrow> emit (setEntryCRC (overwrite 24 (take width (le64 val)) e)))"

definition dataEntry :: "bytes \<Rightarrow> nat \<Rightarrow> bytes" where
  "dataEntry data i =
     (let stop = min ((i + 1) * entrySize) (length data)
      in overwrite 0 (take (stop - i * entrySize) (drop (i * entrySize) data)) (replicate entrySize 0xFF))"

fun emitData :: "bytes \<Rightarrow> nat \<Rightarrow> nat \<Rightarrow> unit nvs" where
  "emitData data i 0 = ret ()"
| "emitData data i (Suc n) = bind_io (emit (dataEntry data i)) (\<lambda>_. emitData data (Suc i) n)"

definition writeVar :: "byte \<Rightarrow> string \<Rightarrow> byte \<Rightarrow> bytes \<Rightarrow> unit nvs" where
  "writeVar nsIdx key typ data =
     (let dataEntries = (length data + entrySize - 1) div entrySize;
          span = 1 + dataEntries
      in bind_io (fit span) (\<lambda>_.
         case putKey (entryHead nsIdx typ (of_nat span)) key of
           Inl err \<Rightarrow> throw err
         | Inr e \<Rightarrow>
             (let e = overwrite 24 (le16 (of_nat (length data))) e;
                  e = overwrite 28 (le32 (nvsCRC32 data)) e
              in bind_io (emit (setEntryCRC e)) (\<lambda>_.
                 emitData data 0 dataEntries))))"

definition namespace :: "string \<Rightarrow> u8 nvs" where
  "namespace name = bind_io get_io (\<lambda>p.
     case nss p name of
       Some idx \<Rightarrow> ret idx
     | None \<Rightarrow>
         bind_io (upd_io (\<lambda>p. p\<lparr>nsN := nsN p + 1\<rparr>)) (\<lambda>_.
         bind_io get_io (\<lambda>p. let idx = nsN p in
         bind_io (writePrimitive nsTableIndex name typeU8 (ucast idx) 1) (\<lambda>_.
         bind_io (upd_io (\<lambda>p. p\<lparr>nss := (nss p)(name \<mapsto> idx)\<rparr>)) (\<lambda>_.
         ret idx)))))"

definition setInt :: "string \<Rightarrow> string \<Rightarrow> byte \<Rightarrow> u64 \<Rightarrow> nat \<Rightarrow> unit nvs" where
  "setInt ns key typ val width =
     bind_io (namespace ns) (\<lambda>idx. writePrimitive idx key typ val width)"

text \<open>The signed setters take the two's complement words of Go's signed integers.\<close>

definition SetU8 :: "string \<Rightarrow> string \<Rightarrow> u8 \<Rightarrow> unit nvs" where
  "SetU8 ns key v = setInt ns key typeU8 (ucast v) 1"
definition SetU16 :: "string \<Rightarrow> string \<Rightarrow> u16 \<Rightarrow> unit nvs" where
  "SetU16 ns key v = setInt ns key typeU16 (ucast v) 2"
definition SetU32 :: "string \<Rightarrow> string \<Rightarrow> u32 \<Rightarrow> unit nvs" where
  "SetU32 ns key v = setInt ns key typeU32 (ucast v) 4"
definition SetU64 :: "string \<Rightarrow> string \<Rightarrow> u64 \<Rightarrow> unit nvs" where
  "SetU64 ns key v = setInt ns key typeU64 v 8"
definition SetI8 :: "string \<Rightarrow> string \<Rightarrow> u8 \<Rightarrow> unit nvs" where
  "SetI8 ns key v = setInt ns key typeI8 (scast v) 1"
definition SetI16 :: "string \<Rightarrow> string \<Rightarrow> u16 \<Rightarrow> unit nvs" where
  "SetI16 ns key v = setInt ns key typeI16 (scast v) 2"
definition SetI32 :: "string \<Rightarrow> string \<Rightarrow> u32 \<Rightarrow> unit nvs" where
  "SetI32 ns key v = setInt ns key typeI32 (scast v) 4"
definition SetI64 :: "string \<Rightarrow> string \<Rightarrow> u64 \<Rightarrow> unit nvs" where
  "SetI64 ns key v = setInt ns key typeI64 v 8"

definition SetString :: "string \<Rightarrow> string \<Rightarrow> string \<Rightarrow> unit nvs" where
  "SetString ns key val =
     bind_io (namespace ns) (\<lambda>idx. writeVar idx key typeStr (str_bytes val @ [0]))"

definition SetBlob :: "string \<Rightarrow> string \<Rightarrow> bytes \<Rightarrow> unit nvs" where
  "SetBlob ns key data =
     bind_io (namespace ns) (\<lambda>idx. writeVar idx key typeBlob data)"

text \<open>The image: the pages with their headers, then erased flash.\<close>

definition finalPages :: "page list \<Rightarrow> page list" where
  "finalPages pgs =
     map (\<lambda>i. finalize (if i < length pgs - 1 then stateFull else stateActive) (pgs ! i)) [0..<length pgs]"

definition PartitionBytes :: "bytes nvs" where
  "PartitionBytes = bind_io get_io (\<lambda>p.
     let usable = psize p div int pageSize - 1 in
     if usable < int (length (pages p)) then throw (TooManyPages (length (pages p)) usable)
     else
       bind_io (upd_io (\<lambda>p. p\<lparr>pages := finalPages (pages p)\<rparr>)) (\<lambda>_.
       bind_io get_io (\<lambda>p.
       ret (fold (\<lambda>i out. overwrite (i * pageSize) (buf (pages p ! i)) out)
              [0..<length (pages p)] (replicate (nat (psize p)) 0xFF)))))"

end
