(* ===== verification/NVSRead.thy ===== *)
theory NVSRead
  imports NVS
begin

text \<open>
  The NVS format as a specification: a reader of partition images written after
  \<open>nvs/FORMAT.md\<close> (page headers, entry states, entry and data checksums, the namespace
  table), and the layout of an entry in closed form.
\<close>

section \<open>The reader\<close>

text \<open>A raw item: namespace index, type, key and value bytes; an item has its namespace's name.\<close>

type_synonym nvsRec = "byte \<times> byte \<times> string \<times> bytes"
type_synonym nvsItem = "string \<times> byte \<times> string \<times> bytes"

definition entryState :: "bytes \<Rightarrow> nat \<Rightarrow> bool \<times> bool" where
  "entryState b i = (let k = 2 * i; x = b ! (32 + k div 8) in (bit x (k mod 8 + 1), bit x (k mod 8)))"

definition slot :: "bytes \<Rightarrow> nat \<Rightarrow> bytes" where
  "slot b i = take 32 (drop (64 + 32 * i) b)"

definition isVar :: "byte \<Rightarrow> bool" where
  "isVar typ \<longleftrightarrow> typ = typeStr \<or> typ = typeBlob"

definition typeWidth :: "byte \<Rightarrow> nat option" where
  "typeWidth typ =
     (if typ = typeU8 \<or> typ = typeI8 then Some 1 else if typ = typeU16 \<or> typ = typeI16 then Some 2
      else if typ = typeU32 \<or> typ = typeI32 then Some 4 else if typ = typeU64 \<or> typ = typeI64 then Some 8 else None)"

definition entryCRC :: "bytes \<Rightarrow> u32" where
  "entryCRC e = nvsCRC32 (take 4 e @ take 24 (drop 8 e))"

definition entryKey :: "bytes \<Rightarrow> string" where
  "entryKey e = bytes_str (takeWhile (\<lambda>b. b \<noteq> 0) (take 16 (drop 8 e)))"

function parseSlots :: "((bool \<times> bool) \<times> bytes) list \<Rightarrow> nvsRec list option" where
  "parseSlots [] = Some []"
| "parseSlots ((st, e) # r) =
     (if st \<noteq> (True, False) then parseSlots r
      else if get32 (drop 4 e) \<noteq> entryCRC e then None
      else if isVar (e ! 1) then
        (let n = unat (e ! 2) - 1;
             data = take (unat (get16 (drop 24 e))) (concat (map snd (take n r)))
         in if length r < n \<or> get32 (drop 28 e) \<noteq> nvsCRC32 data then None
            else map_option (Cons (e ! 0, e ! 1, entryKey e, data)) (parseSlots (drop n r)))
      else
        (case typeWidth (e ! 1) of
           None \<Rightarrow> None
         | Some w \<Rightarrow> map_option (Cons (e ! 0, e ! 1, entryKey e, take w (drop 24 e))) (parseSlots r)))"
  by pat_completeness auto
termination
  by (relation "measure length") auto

definition readPage :: "bytes \<Rightarrow> nvsRec list option" where
  "readPage b =
     (if get32 b = 0xFFFFFFFF then Some []
      else if get32 b \<noteq> stateActive \<and> get32 b \<noteq> stateFull \<or> b ! 8 \<noteq> versionV2
        \<or> get32 (drop 28 b) \<noteq> nvsCRC32 (take 24 (drop 4 b)) then None
      else parseSlots (map (\<lambda>i. (entryState b i, slot b i)) [0..<126]))"

fun sequence_opt :: "'a list option list \<Rightarrow> 'a list option" where
  "sequence_opt [] = Some []"
| "sequence_opt (x # xs) = (case x of None \<Rightarrow> None | Some a \<Rightarrow> map_option (append a) (sequence_opt xs))"

text \<open>Namespaces are entries of namespace 0; every other entry refers to one by index.\<close>

fun resolve :: "(byte \<rightharpoonup> string) \<Rightarrow> nvsRec list \<Rightarrow> nvsItem list option" where
  "resolve m [] = Some []"
| "resolve m ((ns, typ, key, data) # r) =
     (if ns = 0 then (if typ = typeU8 then resolve (m(hd data \<mapsto> key)) r else None)
      else case m ns of None \<Rightarrow> None | Some name \<Rightarrow> map_option (Cons (name, typ, key, data)) (resolve m r))"

definition readImage :: "bytes \<Rightarrow> nvsItem list option" where
  "readImage img =
     (case sequence_opt (map readPage (chunks 4096 img)) of None \<Rightarrow> None | Some rs \<Rightarrow> resolve Map.empty rs)"

section \<open>Entries in closed form\<close>

definition key16 :: "string \<Rightarrow> bytes" where
  "key16 key = str_bytes key @ replicate (16 - length key) 0"

definition mkEntry :: "byte \<Rightarrow> byte \<Rightarrow> byte \<Rightarrow> bytes \<Rightarrow> bytes \<Rightarrow> bytes" where
  "mkEntry ns typ span k t = [ns, typ, span, 0xFF] @ le32 (nvsCRC32 ([ns, typ, span, 0xFF] @ k @ t)) @ k @ t"

definition varTail :: "bytes \<Rightarrow> bytes" where
  "varTail data = le16 (of_nat (length data)) @ [0xFF, 0xFF] @ le32 (nvsCRC32 data)"

definition dataEntries :: "bytes \<Rightarrow> bytes list" where
  "dataEntries data = map (dataEntry data) [0..<(length data + 31) div 32]"

text \<open>The entries of a raw item.\<close>

fun recEntries :: "nvsRec \<Rightarrow> bytes list" where
  "recEntries (ns, typ, key, data) =
     (if isVar typ then mkEntry ns typ (of_nat (1 + (length data + 31) div 32)) (key16 key) (varTail data) # dataEntries data
      else [mkEntry ns typ 1 (key16 key) (data @ replicate (8 - length data) 0xFF)])"

definition okKey :: "string \<Rightarrow> bool" where
  "okKey key \<longleftrightarrow> length key \<le> 15 \<and> CHR 0x00 \<notin> set key"

fun okRec :: "nvsRec \<Rightarrow> bool" where
  "okRec (ns, typ, key, data) \<longleftrightarrow> okKey key \<and> (if isVar typ then length data \<le> 4000 else typeWidth typ = Some (length data))"

lemma length_key16 [simp]: "length key \<le> 15 \<Longrightarrow> length (key16 key) = 16"
  by (simp add: key16_def)

lemma typeWidth_le: "typeWidth typ = Some w \<Longrightarrow> w \<le> 8"
  by (auto simp: typeWidth_def split: if_splits)

lemma length_mkEntry [simp]: "length k = 16 \<Longrightarrow> length t = 8 \<Longrightarrow> length (mkEntry ns typ span k t) = 32"
  by (simp add: mkEntry_def)

lemma length_varTail [simp]: "length (varTail data) = 8"
  by (simp add: varTail_def)

lemma length_dataEntry [simp]: "length (dataEntry data i) = 32"
  by (simp add: dataEntry_def Let_def)

lemma recEntries_length: "okRec r \<Longrightarrow> e \<in> set (recEntries r) \<Longrightarrow> length e = 32"
  by (cases r) (auto simp: dataEntries_def okKey_def dest: typeWidth_le split: if_splits)

text \<open>What the methods build is the closed form.\<close>

lemma setEntryCRC_conv:
  assumes "length k = 16" and "length t = 8" and "length x = 4"
  shows "setEntryCRC ([a, b, c, d] @ x @ k @ t) = [a, b, c, d] @ le32 (nvsCRC32 ([a, b, c, d] @ k @ t)) @ k @ t"
  using assms by (simp add: setEntryCRC_def overwrite_def numeral_eq_Suc)

lemma entryHead_conv: "entryHead ns typ span = [ns, typ, span, 0xFF] @ replicate 28 0xFF"
  by (simp add: entryHead_def Let_def chunkAny_def numeral_eq_Suc)

lemma putKey_conv:
  assumes "putKey (entryHead ns typ span) key = Inr e"
  shows "e = [ns, typ, span, 0xFF] @ replicate 4 0xFF @ key16 key @ replicate 8 0xFF" and "length key \<le> 15"
proof -
  from assms show "length key \<le> 15" by (simp add: putKey_def split: if_splits)
  moreover have "replicate 28 (0xFF :: byte) = replicate 4 0xFF @ replicate 16 0xFF @ replicate 8 0xFF"
    by (simp add: replicate_add [symmetric])
  ultimately show "e = [ns, typ, span, 0xFF] @ replicate 4 0xFF @ key16 key @ replicate 8 0xFF"
    using assms
    by (simp add: putKey_def entryHead_conv key16_def overwrite_def split: if_splits)
qed

lemma primitive_entry:
  assumes "putKey (entryHead ns typ 1) key = Inr e" and "length data \<le> 8"
  shows "setEntryCRC (overwrite 24 data e) = mkEntry ns typ 1 (key16 key) (data @ replicate (8 - length data) 0xFF)"
proof -
  note e = putKey_conv [OF assms(1)]
  have "overwrite 24 data (p @ replicate 8 0xFF) = p @ data @ replicate (8 - length data) 0xFF" if "length p = 24" for p
    using that by (simp add: overwrite_def)
  from this [of "[ns, typ, 1, 0xFF] @ replicate 4 0xFF @ key16 key"]
  have "overwrite 24 data e = [ns, typ, 1, 0xFF] @ replicate 4 0xFF @ key16 key @ data @ replicate (8 - length data) 0xFF"
    using e(2) by (simp add: e(1))
  then show ?thesis
    using setEntryCRC_conv [of "key16 key" "data @ replicate (8 - length data) 0xFF" "replicate 4 0xFF" ns "typ" 1 "0xFF"] e(2) assms(2)
    by (simp add: mkEntry_def)
qed

lemma variable_entry:
  assumes "putKey (entryHead ns typ span) key = Inr e"
  shows "setEntryCRC (overwrite 28 (le32 (nvsCRC32 data)) (overwrite 24 (le16 (of_nat (length data))) e))
    = mkEntry ns typ span (key16 key) (varTail data)"
proof -
  note e = putKey_conv [OF assms(1)]
  have "replicate 8 (0xFF :: byte) = [0xFF, 0xFF] @ [0xFF, 0xFF] @ replicate 4 0xFF" by (simp add: numeral_eq_Suc)
  then have "overwrite 28 (le32 (nvsCRC32 data)) (overwrite 24 (le16 (of_nat (length data))) e)
      = [ns, typ, span, 0xFF] @ replicate 4 0xFF @ key16 key @ varTail data"
    using e(2) by (simp add: e(1) overwrite_def varTail_def)
  then show ?thesis
    using setEntryCRC_conv [of "key16 key" "varTail data" "replicate 4 0xFF" ns "typ" span "0xFF"] e(2)
    by (simp add: mkEntry_def)
qed

end
