(* ===== verification/NVSPage.thy ===== *)
theory NVSPage
  imports NVSRead
begin

text \<open>
  Pages against the reader: which entries a page holds, that writing an entry adds it and
  finishing a page keeps them, and that the reader parses the entries of an item back.
\<close>

section \<open>The entries of a page\<close>

definition pageRep :: "page \<Rightarrow> bytes list \<Rightarrow> bool" where
  "pageRep pg es \<longleftrightarrow> length (buf pg) = 4096 \<and> pn pg = length es \<and> length es \<le> 126 \<and> (\<forall>e \<in> set es. length e = 32)
     \<and> (\<forall>i < length es. slot (buf pg) i = es ! i)
     \<and> (\<forall>i < 126. entryState (buf pg) i = (True, \<not> i < length es))
     \<and> drop (64 + 32 * length es) (buf pg) = replicate (4032 - 32 * length es) 0xFF"

lemma bit_ff [simp]: "n < 8 \<Longrightarrow> bit (0xFF :: byte) n"
proof -
  have "(0xFF :: byte) = - 1" by simp
  then show "n < 8 \<Longrightarrow> ?thesis" by (simp only: bit_minus_1_iff) simp
qed

lemma pair_bits: "2 * i mod 8 < 8" "2 * i mod 8 + 1 < 8" for i :: nat
  by presburger+

lemma entryState_erased: "i < 126 \<Longrightarrow> entryState (replicate 4096 0xFF) i = (True, True)"
proof -
  assume i: "i < 126"
  then have "(replicate 4096 (0xFF :: byte)) ! (32 + 2 * i div 8) = 0xFF" by (intro nth_replicate) linarith
  then show ?thesis by (simp only: entryState_def Let_def bit_ff pair_bits)
qed

lemma pageRep_new: "pageRep (newPage sq) []"
  by (simp add: pageRep_def newPage_def drop_replicate entryState_erased)

lemma slot_cong: "drop 64 b = drop 64 b' \<Longrightarrow> slot b i = slot b' i"
proof -
  have "drop (64 + 32 * i) x = drop (32 * i) (drop 64 x)" for x :: bytes by (simp only: drop_drop add.commute)
  then show "drop 64 b = drop 64 b' \<Longrightarrow> ?thesis" by (simp only: slot_def)
qed

lemma slot_overwrite:
  assumes "length b = 4096" and "n < 126" and "length e = 32" and "i < 126"
  shows "slot (overwrite (64 + 32 * n) e b) i = (if i = n then e else slot b i)"
proof -
  consider "i = n" | "i < n" | "n < i" by linarith
  then show ?thesis
  proof cases
    case 1
    then show ?thesis using slice_overwrite [of "64 + 32 * n" e b] assms by (simp add: slot_def)
  next
    case 2
    then have le: "64 + 32 * i + 32 \<le> 64 + 32 * n" by simp
    have "take 32 (drop (64 + 32 * i) (overwrite (64 + 32 * n) e b)) = drop (64 + 32 * i) (take (64 + 32 * i + 32) (overwrite (64 + 32 * n) e b))"
      by (simp add: take_drop add.commute)
    also have "\<dots> = drop (64 + 32 * i) (take (64 + 32 * i + 32) b)"
      using take_overwrite_before [OF le, of b e] assms by simp
    finally show ?thesis using 2 by (simp add: slot_def take_drop add.commute)
  next
    case 3
    then have "64 + 32 * n + length e \<le> 64 + 32 * i" using assms(3) by simp
    then show ?thesis using 3 assms drop_overwrite_after [of "64 + 32 * n" e "64 + 32 * i" b] by (simp add: slot_def)
  qed
qed

text \<open>Only the bits of the entry are cleared.\<close>

lemma entryState_clear:
  fixes b :: bytes
  assumes "length b = 4096" and "n < 126" and "i < 126"
  defines "j \<equiv> 32 + n * 2 div 8"
  shows "entryState (b[j := b ! j AND NOT (push_bit (n * 2 mod 8) 1)]) i
    = (if i = n then (fst (entryState b i), False) else entryState b i)"
proof -
  have j: "j < length b" using assms by (simp add: j_def)
  have odd: "2 * i mod 8 + 1 \<noteq> n * 2 mod 8" by presburger
  have eq: "2 * i div 8 = n * 2 div 8 \<and> 2 * i mod 8 = n * 2 mod 8 \<longleftrightarrow> i = n"
    by (metis div_mult_mod_eq mult.commute mult_left_cancel zero_neq_numeral)
  have lt: "2 * i mod 8 + 1 < 8" by presburger
  show ?thesis
  proof (cases "2 * i div 8 = n * 2 div 8")
    case True
    then have "32 + 2 * i div 8 = j" by (simp add: j_def)
    then have "entryState (b[j := b ! j AND NOT (push_bit (n * 2 mod 8) 1)]) i
        = (bit (b ! j) (2 * i mod 8 + 1), bit (b ! j) (2 * i mod 8) \<and> 2 * i mod 8 \<noteq> n * 2 mod 8)"
      using j odd lt by (auto simp: entryState_def Let_def bit_simps)
    moreover have "entryState b i = (bit (b ! j) (2 * i mod 8 + 1), bit (b ! j) (2 * i mod 8))"
      using \<open>32 + 2 * i div 8 = j\<close> by (simp add: entryState_def Let_def)
    ultimately show ?thesis using True eq by auto
  next
    case False
    then have "32 + 2 * i div 8 \<noteq> j" "i \<noteq> n" by (auto simp: j_def)
    then show ?thesis by (simp add: entryState_def Let_def)
  qed
qed

lemma entryState_overwrite:
  assumes "length b = 4096" and "i < 126" and "64 \<le> off"
  shows "entryState (overwrite off e b) i = entryState b i"
proof -
  have "32 + 2 * i div 8 < 64" using assms(2) by linarith
  then show ?thesis using assms by (simp add: entryState_def overwrite_def nth_append Let_def)
qed

lemma pageRep_write:
  assumes "pageRep pg es" and "length e = 32" and "length es < 126"
  shows "pageRep (writeEntry e pg) (es @ [e])"
proof -
  let ?n = "length es"
  let ?b = "overwrite (64 + 32 * ?n) e (buf pg)"
  let ?j = "32 + ?n * 2 div 8"
  from assms(1) have len: "length (buf pg) = 4096" and n: "pn pg = ?n" by (simp_all add: pageRep_def)
  have b: "length ?b = 4096" using len assms(2,3) by simp
  have j: "?j < 64" using assms(3) by linarith
  have w: "writeEntry e pg = pg\<lparr>buf := ?b[?j := ?b ! ?j AND NOT (push_bit (?n * 2 mod 8) 1)], pn := ?n + 1\<rparr>"
    by (simp add: writeEntry_def Let_def n mult.commute)
  have upd: "drop 64 (xs[?j := x]) = drop 64 xs" for xs :: bytes and x by (rule drop_update_cancel [OF j])
  have slots: "slot (?b[?j := x]) i = (if i = ?n then e else slot (buf pg) i)" if "i < 126" for i x
  proof -
    have "slot (?b[?j := x]) i = slot ?b i" by (rule slot_cong [OF upd])
    then show ?thesis using slot_overwrite [OF len assms(3,2) that] by simp
  qed
  have state: "entryState (?b[?j := ?b ! ?j AND NOT (push_bit (?n * 2 mod 8) 1)]) i = (True, \<not> i < ?n + 1)" if "i < 126" for i
    using entryState_clear [OF b assms(3) that] entryState_overwrite [OF len that, of "64 + 32 * ?n" e] assms(1) that
    by (auto simp: pageRep_def)
  have "drop (64 + 32 * (?n + 1)) (?b[?j := x]) = replicate (4032 - 32 * (?n + 1)) 0xFF" for x
  proof -
    have "drop (64 + 32 * (?n + 1)) (?b[?j := x]) = drop (64 + 32 * (?n + 1)) ?b"
      by (rule drop_update_cancel) (use j in linarith)
    also have "\<dots> = drop (64 + 32 * (?n + 1)) (buf pg)"
      using assms(2,3) len by (intro drop_overwrite_after) simp_all
    also have "\<dots> = drop 32 (drop (64 + 32 * ?n) (buf pg))" by (simp add: add.commute)
    also have "\<dots> = replicate (4032 - 32 * (?n + 1)) 0xFF" using assms(1) by (simp add: pageRep_def)
    finally show ?thesis .
  qed
  then show ?thesis
    using assms b slots state by (auto simp: pageRep_def w nth_append less_Suc_eq)
qed

lemma pageRep_fold:
  "pageRep pg es0 \<Longrightarrow> (\<And>e. e \<in> set es \<Longrightarrow> length e = 32) \<Longrightarrow> length es0 + length es \<le> 126 \<Longrightarrow>
   pageRep (fold writeEntry es pg) (es0 @ es)"
proof (induction es arbitrary: pg es0)
  case (Cons e es)
  then have "pageRep (writeEntry e pg) (es0 @ [e])" by (intro pageRep_write) simp_all
  from Cons.IH [OF this] Cons.prems show ?case by simp
qed simp

section \<open>Finished pages\<close>

lemma finalize_buf:
  assumes "length (buf pg) = 4096"
  shows "buf (finalize st pg) = le32 st @ le32 (pseq pg) @ [versionV2] @ take 19 (drop 9 (buf pg))
    @ le32 (nvsCRC32 (le32 (pseq pg) @ [versionV2] @ take 19 (drop 9 (buf pg)))) @ drop 32 (buf pg)"
proof -
  define a c d where "a = take 9 (buf pg)" and "c = take 19 (drop 9 (buf pg))" and "d = drop 28 (buf pg)"
  have b: "buf pg = a @ c @ d" by (metis a_def append_take_drop_id c_def d_def drop_drop numeral_plus_numeral add_num_simps)
  have len: "length a = 9" "length c = 19" using assms by (simp_all add: a_def c_def)
  have d: "drop 4 d = drop 32 (buf pg)" by (simp add: d_def)
  obtain a0 a1 a2 a3 a4 a5 a6 a7 a8 where a: "a = [a0, a1, a2, a3, a4, a5, a6, a7, a8]"
    using len(1) by (auto simp: numeral_eq_Suc length_Suc_conv)
  have "overwrite 4 (le32 (pseq pg)) (overwrite 0 (le32 st) (buf pg)) = le32 st @ le32 (pseq pg) @ a8 # c @ d"
    by (simp add: b a overwrite_def)
  then have "(overwrite 4 (le32 (pseq pg)) (overwrite 0 (le32 st) (buf pg)))[8 := versionV2]
      = le32 st @ le32 (pseq pg) @ versionV2 # c @ d"
    by (simp add: list_update_append)
  moreover have "overwrite 28 x (le32 st @ le32 (pseq pg) @ versionV2 # c @ d)
      = le32 st @ le32 (pseq pg) @ versionV2 # c @ x @ drop 4 d" if "length x = 4" for x
    using that len by (simp add: overwrite_def)
  ultimately show ?thesis
    using len by (simp add: finalize_def Let_def c_def [symmetric] d)
qed

lemma pageRep_finalize:
  assumes "pageRep pg es"
  shows "pageRep (finalize st pg) es"
proof -
  from assms have len: "length (buf pg) = 4096" by (simp add: pageRep_def)
  obtain h where b: "buf (finalize st pg) = h @ drop 32 (buf pg)" and h: "length h = 32"
    by (rule that [of "le32 st @ le32 (pseq pg) @ [versionV2] @ take 19 (drop 9 (buf pg))
      @ le32 (nvsCRC32 (le32 (pseq pg) @ [versionV2] @ take 19 (drop 9 (buf pg))))"])
      (use finalize_buf [OF len] len in simp_all)
  have len': "length (buf (finalize st pg)) = 4096" using b h len by simp
  have d: "drop k (buf (finalize st pg)) = drop k (buf pg)" if "32 \<le> k" for k
    unfolding b using h that by simp
  have "entryState (buf (finalize st pg)) i = entryState (buf pg) i" if "i < 126" for i
  proof -
    have "buf (finalize st pg) ! (32 + 2 * i div 8) = buf pg ! (32 + 2 * i div 8)"
      using that len h by (simp add: b nth_append)
    then show ?thesis by (simp add: entryState_def)
  qed
  moreover have "slot (buf (finalize st pg)) i = slot (buf pg) i" for i by (rule slot_cong) (simp add: d)
  moreover have "pn (finalize st pg) = pn pg" by (simp add: finalize_def Let_def)
  ultimately show ?thesis using assms len' by (simp add: pageRep_def d)
qed

section \<open>Parsing items\<close>

definition writtenSlots :: "bytes list \<Rightarrow> ((bool \<times> bool) \<times> bytes) list" where
  "writtenSlots es = map (\<lambda>e. ((True, False), e)) es"

lemma writtenSlots_simps [simp]:
  "writtenSlots [] = []" "writtenSlots (e # es) = ((True, False), e) # writtenSlots es"
  "writtenSlots (a @ b) = writtenSlots a @ writtenSlots b" "length (writtenSlots es) = length es"
  by (simp_all add: writtenSlots_def)

lemma parseSlots_empty: "(\<And>x. x \<in> set xs \<Longrightarrow> fst x = (True, True)) \<Longrightarrow> parseSlots xs = Some []"
proof (induction xs)
  case (Cons x xs)
  obtain st e where x: "x = (st, e)" by (cases x)
  have "fst x = (True, True)" using Cons.prems by simp
  then have "st = (True, True)" by (simp add: x)
  then show ?case using Cons by (simp add: x)
qed simp

lemma mkEntry_fields:
  fixes ns ty span :: byte
  assumes "okKey key" and "length t = 8"
  defines "e \<equiv> mkEntry ns ty span (key16 key) t"
  shows "e ! 0 = ns" "e ! 1 = ty" "e ! 2 = span" "drop 24 e = t" "get32 (drop 4 e) = entryCRC e" "entryKey e = key"
    "drop 28 e = drop 4 t"
proof -
  have k: "length (key16 key) = 16" using assms(1) by (simp add: okKey_def)
  let ?c = "le32 (nvsCRC32 ([ns, ty, span, 0xFF] @ key16 key @ t))"
  have e: "e = ([ns, ty, span, 0xFF] @ ?c) @ key16 key @ t" by (simp add: e_def mkEntry_def)
  have d8: "drop 8 e = key16 key @ t" unfolding e by simp
  show "e ! 0 = ns" "e ! 1 = ty" "e ! 2 = span" by (simp_all add: e)
  show d24: "drop 24 e = t" using d8 k by (metis append_eq_conv_conj drop_drop numeral_plus_numeral add_num_simps)
  have "drop 28 e = drop 4 (drop 24 e)" by (simp only: drop_drop) simp
  then show "drop 28 e = drop 4 t" by (simp only: d24)
  have "take 4 e = [ns, ty, span, 0xFF]" "drop 4 e = ?c @ key16 key @ t" by (simp_all add: e)
  then show "get32 (drop 4 e) = entryCRC e" using d8 k assms(2) by (simp add: entryCRC_def)
  show "entryKey e = key"
    using assms(1) d8 k takeWhile_key [of key "16 - length key"]
    by (simp add: entryKey_def okKey_def key16_def)
qed

lemma dataEntry_chunk:
  "i < (length data + 31) div 32 \<Longrightarrow> dataEntry data i = take 32 (drop (32 * i) data) @ replicate (32 - length (take 32 (drop (32 * i) data))) 0xFF"
proof -
  have "take (min ((i + 1) * 32) (length data) - i * 32) (drop (i * 32) data) = take 32 (drop (32 * i) data)"
    by (auto simp: min_def mult.commute)
  then show ?thesis by (simp add: dataEntry_def Let_def overwrite_def)
qed

lemma take_concat_dataEntries: "take (length data) (concat (dataEntries data)) = data"
proof -
  have "take (length data) (concat (map (dataEntry data) [0..<n])) = take (min (32 * n) (length data)) data
      \<and> (n < (length data + 31) div 32 \<longrightarrow> concat (map (dataEntry data) [0..<n]) = take (32 * n) data)"
    if "n \<le> (length data + 31) div 32" for n
    using that
  proof (induction n)
    case (Suc n)
    have n: "n < (length data + 31) div 32" using Suc.prems by simp
    then have c: "concat (map (dataEntry data) [0..<n]) = take (32 * n) data" using Suc.IH by simp
    have le: "32 * n \<le> length data" using n by linarith
    let ?x = "take 32 (drop (32 * n) data)"
    have cat: "concat (map (dataEntry data) [0..<Suc n]) = take (32 * n) data @ ?x @ replicate (32 - length ?x) 0xFF"
      using c dataEntry_chunk [OF n] by simp
    have "32 * Suc n = 32 * n + 32" by simp
    then have t: "take (32 * n) data @ ?x = take (32 * Suc n) data" by (simp only: take_add)
    have lt: "length (take (32 * n) data @ ?x) = min (32 * Suc n) (length data)" unfolding t by simp
    have "take (length data) (concat (map (dataEntry data) [0..<Suc n])) = take (min (32 * Suc n) (length data)) data"
    proof (cases "32 * Suc n \<le> length data")
      case True
      then have "replicate (32 - length ?x) (0xFF :: byte) = []" by simp
      then show ?thesis using cat t True by (simp add: min_def)
    next
      case False
      then have "length (take (32 * n) data @ ?x) = length data" using lt by simp
      moreover have "take (32 * n) data @ ?x = data" using t False by simp
      ultimately show ?thesis using False unfolding cat by (simp add: append_assoc [symmetric] del: append_assoc)
    qed
    moreover have "concat (map (dataEntry data) [0..<Suc n]) = take (32 * Suc n) data" if "Suc n < (length data + 31) div 32"
    proof -
      have "32 * Suc n \<le> length data" unfolding mult_Suc_right using that by linarith
      then have "replicate (32 - length ?x) (0xFF :: byte) = []" by simp
      then show ?thesis using cat t by simp
    qed
    ultimately show ?case by blast
  qed simp
  from this [of "(length data + 31) div 32"]
  have "take (length data) (concat (dataEntries data)) = take (min (32 * ((length data + 31) div 32)) (length data)) data"
    by (simp add: dataEntries_def)
  moreover have "length data \<le> 32 * ((length data + 31) div 32)" by linarith
  ultimately show ?thesis by simp
qed

lemma parse_rec:
  assumes "okRec r"
  shows "parseSlots (writtenSlots (recEntries r) @ rest) = map_option (Cons r) (parseSlots rest)"
proof -
  obtain ns ty key data where r: "r = (ns, ty, key, data)" by (cases r)
  have key: "okKey key" using assms by (simp add: r)
  show ?thesis
  proof (cases "isVar ty")
    case True
    let ?n = "(length data + 31) div 32"
    let ?e = "mkEntry ns ty (of_nat (1 + ?n)) (key16 key) (varTail data)"
    note f = mkEntry_fields [OF key length_varTail, of ns ty "of_nat (1 + ?n)" data]
    have len: "length data \<le> 4000" using assms True by (simp add: r)
    then have "1 + ?n < 256" by linarith
    then have n: "unat (of_nat (1 + ?n) :: byte) = 1 + ?n" by (simp only: unat_of_nat) simp
    have size: "unat (get16 (varTail data)) = length data"
      using len by (simp add: varTail_def unat_of_nat)
    have crc: "get32 (drop 4 (varTail data)) = nvsCRC32 data"
      by (simp add: varTail_def)
    have ld: "length (dataEntries data) = ?n" by (simp add: dataEntries_def)
    have fst: "take ?n (writtenSlots (dataEntries data) @ rest) = writtenSlots (dataEntries data)"
      "drop ?n (writtenSlots (dataEntries data) @ rest) = rest" by (simp_all add: ld)
    have snds: "map snd (writtenSlots (dataEntries data)) = dataEntries data" by (simp add: writtenSlots_def comp_def)
    have "parseSlots (((True, False), ?e) # writtenSlots (dataEntries data) @ rest)
        = map_option (Cons (ns, ty, key, data)) (parseSlots rest)"
      using True f n size crc ld fst snds take_concat_dataEntries [of data]
      by (simp add: Let_def del: of_nat_Suc of_nat_add)
    then show ?thesis using True by (simp add: r del: parseSlots.simps of_nat_Suc of_nat_add)
  next
    case False
    then have w: "typeWidth ty = Some (length data)" using assms by (simp add: r)
    let ?t = "data @ replicate (8 - length data) 0xFF"
    have t: "length ?t = 8" using typeWidth_le [OF w] by simp
    note f = mkEntry_fields [OF key t, of ns ty 1]
    then show ?thesis using False w by (simp add: r)
  qed
qed

lemma parse_recs:
  "(\<And>r. r \<in> set rs \<Longrightarrow> okRec r) \<Longrightarrow> (\<And>x. x \<in> set rest \<Longrightarrow> fst x = (True, True)) \<Longrightarrow>
   parseSlots (writtenSlots (concat (map recEntries rs)) @ rest) = Some rs"
  by (induction rs) (simp_all add: parseSlots_empty parse_rec)

text \<open>A finished page is read back.\<close>

lemma readPage_finalize:
  assumes "pageRep pg (concat (map recEntries rs))" and "\<And>r. r \<in> set rs \<Longrightarrow> okRec r"
    and "st = stateActive \<or> st = stateFull"
  shows "readPage (buf (finalize st pg)) = Some rs"
proof -
  let ?b = "buf (finalize st pg)" and ?es = "concat (map recEntries rs)"
  have len: "length (buf pg) = 4096" using assms(1) by (simp add: pageRep_def)
  note b = finalize_buf [OF len, of st]
  let ?c = "take 19 (drop 9 (buf pg))"
  have c: "length ?c = 19" using len by simp
  have head: "get32 ?b = st" "?b ! 8 = versionV2" using c by (simp_all add: b nth_append)
  have "drop 4 ?b = (le32 (pseq pg) @ [versionV2] @ ?c) @ le32 (nvsCRC32 (le32 (pseq pg) @ [versionV2] @ ?c)) @ drop 32 (buf pg)"
    by (simp add: b)
  then have "take 24 (drop 4 ?b) = le32 (pseq pg) @ [versionV2] @ ?c"
    and "drop 24 (drop 4 ?b) = le32 (nvsCRC32 (le32 (pseq pg) @ [versionV2] @ ?c)) @ drop 32 (buf pg)"
    using c by simp_all
  then have crc: "get32 (drop 28 ?b) = nvsCRC32 (take 24 (drop 4 ?b))" by simp
  have rep: "pageRep (finalize st pg) ?es" by (rule pageRep_finalize [OF assms(1)])
  let ?slots = "map (\<lambda>i. (entryState ?b i, slot ?b i)) [0..<126]"
  have slots: "?slots = writtenSlots ?es @ map (\<lambda>i. (entryState ?b i, slot ?b i)) [length ?es..<126]"
    using rep by (intro nth_equalityI) (auto simp: pageRep_def nth_append writtenSlots_def)
  have empty: "fst x = (True, True)" if "x \<in> set (map (\<lambda>i. (entryState ?b i, slot ?b i)) [length ?es..<126])" for x
    using that rep by (auto simp: pageRep_def)
  have "parseSlots ?slots = Some rs"
    unfolding slots by (rule parse_recs) (fact assms(2), fact empty)
  moreover have "st \<noteq> 0xFFFFFFFF" using assms(3) by (auto simp: stateActive_def stateFull_def)
  ultimately show ?thesis using head crc assms(3) by (auto simp: readPage_def)
qed

end
