(* ===== verification/NVSSpec.thy ===== *)
theory NVSSpec
  imports NVSPage
begin

text \<open>
  The generator of NVS images against the reader. The abstract state of a partition is the
  list of its namespaces and the raw items written so far; every successful setter appends
  to it, and the rendered image reads back as exactly the values that were set.
\<close>

section \<open>Setters as data\<close>

datatype nvsOp =
    OpU8 string string u8 | OpI8 string string u8
  | OpU16 string string u16 | OpI16 string string u16
  | OpU32 string string u32 | OpI32 string string u32
  | OpU64 string string u64 | OpI64 string string u64
  | OpString string string string | OpBlob string string bytes

fun runOp :: "nvsOp \<Rightarrow> unit nvs" where
  "runOp (OpU8 ns k v) = SetU8 ns k v" | "runOp (OpI8 ns k v) = SetI8 ns k v"
| "runOp (OpU16 ns k v) = SetU16 ns k v" | "runOp (OpI16 ns k v) = SetI16 ns k v"
| "runOp (OpU32 ns k v) = SetU32 ns k v" | "runOp (OpI32 ns k v) = SetI32 ns k v"
| "runOp (OpU64 ns k v) = SetU64 ns k v" | "runOp (OpI64 ns k v) = SetI64 ns k v"
| "runOp (OpString ns k v) = SetString ns k v" | "runOp (OpBlob ns k v) = SetBlob ns k v"

fun runOps :: "nvsOp list \<Rightarrow> unit nvs" where
  "runOps [] = ret ()"
| "runOps (x # xs) = bind_io (runOp x) (\<lambda>_. runOps xs)"

text \<open>The item a setter stores: namespace, type, key, and the value in its natural layout.\<close>

fun itemOf :: "nvsOp \<Rightarrow> nvsItem" where
  "itemOf (OpU8 ns k v) = (ns, typeU8, k, [v])" | "itemOf (OpI8 ns k v) = (ns, typeI8, k, [v])"
| "itemOf (OpU16 ns k v) = (ns, typeU16, k, le16 v)" | "itemOf (OpI16 ns k v) = (ns, typeI16, k, le16 v)"
| "itemOf (OpU32 ns k v) = (ns, typeU32, k, le32 v)" | "itemOf (OpI32 ns k v) = (ns, typeI32, k, le32 v)"
| "itemOf (OpU64 ns k v) = (ns, typeU64, k, le64 v)" | "itemOf (OpI64 ns k v) = (ns, typeI64, k, le64 v)"
| "itemOf (OpString ns k v) = (ns, typeStr, k, str_bytes v @ [0])" | "itemOf (OpBlob ns k v) = (ns, typeBlob, k, v)"

text \<open>Keys and namespace names are C strings in the image.\<close>

definition cleanOp :: "nvsOp \<Rightarrow> bool" where
  "cleanOp x = (case itemOf x of (ns, _, key, _) \<Rightarrow> CHR 0x00 \<notin> set ns \<and> CHR 0x00 \<notin> set key)"

section \<open>Values in their natural width\<close>

lemma le64_take:
  "take (Suc 0) (le64 v) = [ucast v]" "take 2 (le64 v) = [ucast v, ucast (drop_bit 8 v)]"
  "take 4 (le64 v) = [ucast v, ucast (drop_bit 8 v), ucast (drop_bit 16 v), ucast (drop_bit 24 v)]"
  "take 8 (le64 v) = le64 v"
  by (simp_all add: le64_def upt_rec)

lemma le64_unsigned:
  "take (Suc 0) (le64 (ucast (a :: u8))) = [a]" "take 2 (le64 (ucast (b :: u16))) = le16 b"
  "take 4 (le64 (ucast (c :: u32))) = le32 c"
  by (simp_all add: le64_take le16_def le32_def)
    (auto intro!: bit_word_eqI simp: bit_simps)

lemma top_bit: "n < 8 \<Longrightarrow> 7 \<le> n \<longleftrightarrow> n = 7" for n :: nat
  by auto

lemma le64_signed:
  "take (Suc 0) (le64 (scast (a :: u8))) = [a]" "take 2 (le64 (scast (b :: u16))) = le16 b"
  "take 4 (le64 (scast (c :: u32))) = le32 c"
  by (simp_all add: le64_take le16_def le32_def)
    (auto intro!: bit_word_eqI simp: bit_simps min_def top_bit split: if_splits)

section \<open>The abstract state\<close>

text \<open>Pages, the raw items in them and the namespaces: what every reachable partition satisfies.\<close>

definition pagesRep :: "page list \<Rightarrow> nvsRec list \<Rightarrow> bool" where
  "pagesRep pgs recs \<longleftrightarrow> pgs \<noteq> [] \<and> (\<exists>rss. concat rss = recs \<and> list_all2 (\<lambda>pg rs. pageRep pg (concat (map recEntries rs))) pgs rss)
     \<and> (\<forall>r \<in> set recs. okRec r)"

definition nsIndex :: "string list \<Rightarrow> string \<Rightarrow> nat" where
  "nsIndex nsl ns = length (takeWhile (\<lambda>x. x \<noteq> ns) nsl)"

definition nvsRep :: "partition \<Rightarrow> string list \<Rightarrow> nvsRec list \<Rightarrow> bool" where
  "nvsRep p nsl recs \<longleftrightarrow> pagesRep (pages p) recs \<and> distinct nsl \<and> nsN p = of_nat (length nsl)
     \<and> nss p = (\<lambda>ns. if ns \<in> set nsl then Some (of_nat (nsIndex nsl ns + 1)) else None)"

text \<open>Writing several entries to the current page.\<close>

fun emitMany :: "bytes list \<Rightarrow> unit nvs" where
  "emitMany [] = ret ()"
| "emitMany (e # es) = bind_io (emit e) (\<lambda>_. emitMany es)"

lemma emitData_many: "emitData data i n = emitMany (map (dataEntry data) [i..<i + n])"
proof (induction n arbitrary: i)
  case (Suc n)
  have "[i..<i + Suc n] = i # [Suc i..<Suc i + n]" by (simp add: upt_conv_Cons del: upt_Suc)
  then show ?case by (simp only: emitData.simps Suc.IH list.map emitMany.simps)
qed simp

lemma pn_writeEntry [simp]: "pn (writeEntry e pg) = pn pg + 1"
  by (simp add: writeEntry_def Let_def)

lemma pn_newPage [simp]: "pn (newPage sq) = 0"
  by (simp add: newPage_def)

lemma emitMany_run:
  "pages p \<noteq> [] \<Longrightarrow> pn (cur p) + length es \<le> 126 \<Longrightarrow>
   emitMany es p = Some (Ok (), p\<lparr>pages := butlast (pages p) @ [fold writeEntry es (cur p)]\<rparr>)"
proof (induction es arbitrary: p)
  case (Cons e es)
  let ?p = "p\<lparr>pages := butlast (pages p) @ [writeEntry e (cur p)]\<rparr>"
  have "emit e p = Some (Ok (), ?p)" using Cons.prems by (simp add: emit_def)
  moreover have "emitMany es ?p = Some (Ok (), ?p\<lparr>pages := butlast (pages ?p) @ [fold writeEntry es (cur ?p)]\<rparr>)"
    using Cons.prems by (intro Cons.IH) (simp_all add: cur_def)
  ultimately show ?case by (simp add: bind_io_eval cur_def)
qed (simp add: cur_def)

lemma pagesRepI:
  assumes "list_all2 (\<lambda>pg rs. pageRep pg (concat (map recEntries rs))) pgs rss" and "rss \<noteq> []"
    and "concat rss = recs" and "\<And>r. r \<in> set recs \<Longrightarrow> okRec r"
  shows "pagesRep pgs recs"
  unfolding pagesRep_def using assms by (intro conjI exI [of _ rss]) auto

lemma pagesRepE:
  assumes "pagesRep pgs recs"
  obtains rss rs where "list_all2 (\<lambda>pg rs. pageRep pg (concat (map recEntries rs))) (butlast pgs) rss"
    and "pageRep (last pgs) (concat (map recEntries rs))" and "recs = concat rss @ rs" and "pgs \<noteq> []"
proof -
  let ?R = "\<lambda>pg rs. pageRep pg (concat (map recEntries rs))"
  from assms obtain rss where rss: "concat rss = recs" "pgs \<noteq> []" "list_all2 ?R pgs rss"
    unfolding pagesRep_def by blast
  then have ne: "rss \<noteq> []" by auto
  have "list_all2 ?R (butlast pgs) (butlast rss)" "?R (last pgs) (last rss)"
    using rss ne by (auto simp: list_all2_conv_all_nth last_conv_nth nth_butlast)
  moreover have "concat (butlast rss @ [last rss]) = recs" using ne rss(1) by simp
  then have "recs = concat (butlast rss) @ last rss" by simp
  ultimately show ?thesis using rss(2) by (intro that)
qed

text \<open>An item is written to one page: the last, or a fresh one.\<close>

definition putPages :: "nvsRec \<Rightarrow> partition \<Rightarrow> partition" where
  "putPages r p = (let es = recEntries r in
     p\<lparr>pages := (if freeEntries (cur p) < int (length es) then pages p @ [fold writeEntry es (newPage (pseq (cur p) + 1))]
       else butlast (pages p) @ [fold writeEntry es (cur p)])\<rparr>)"

lemma put_run:
  assumes "pages p \<noteq> []" and "length (recEntries r) \<le> 126"
  shows "bind_io (fit (length (recEntries r))) (\<lambda>_. emitMany (recEntries r)) p = Some (Ok (), putPages r p)"
proof -
  let ?es = "recEntries r"
  let ?p = "p\<lparr>pages := pages p @ [newPage (pseq (cur p) + 1)]\<rparr>"
  have fit: "fit (length ?es) p = Some (Ok (), if freeEntries (cur p) < int (length ?es) then ?p else p)"
    using assms(2) by (simp add: fit_def)
  have new: "cur ?p = newPage (pseq (cur p) + 1)" by (simp add: cur_def)
  have "emitMany ?es ?p = Some (Ok (), ?p\<lparr>pages := butlast (pages ?p) @ [fold writeEntry ?es (cur ?p)]\<rparr>)"
    by (rule emitMany_run) (simp_all only: new pn_newPage, use assms(2) in simp_all)
  moreover have "emitMany ?es p = Some (Ok (), p\<lparr>pages := butlast (pages p) @ [fold writeEntry ?es (cur p)]\<rparr>)"
    if "\<not> freeEntries (cur p) < int (length ?es)"
    by (rule emitMany_run) (use that assms(1) in \<open>simp_all add: freeEntries_def\<close>)
  ultimately show ?thesis
    by (simp only: bind_io_eval fit putPages_def Let_def new split: if_split) simp
qed

lemma put_rep:
  assumes "pagesRep (pages p) recs" and "okRec r" and "length (recEntries r) \<le> 126"
  shows "pagesRep (pages (putPages r p)) (recs @ [r])"
proof -
  let ?R = "\<lambda>pg rs. pageRep pg (concat (map recEntries rs))"
  obtain rss rs where init: "list_all2 ?R (butlast (pages p)) rss" and lst: "?R (cur p) rs"
    and recs: "recs = concat rss @ rs" and ne: "pages p \<noteq> []"
    using pagesRepE [OF assms(1)] unfolding cur_def by metis
  have ok: "\<And>x. x \<in> set (recs @ [r]) \<Longrightarrow> okRec x" using assms(1,2) by (auto simp: pagesRep_def)
  have e32: "\<And>e. e \<in> set (recEntries r) \<Longrightarrow> length e = 32" using recEntries_length [OF assms(2)] by blast
  show ?thesis
  proof (cases "freeEntries (cur p) < int (length (recEntries r))")
    case True
    let ?pg = "fold writeEntry (recEntries r) (newPage (pseq (cur p) + 1))"
    have "?R ?pg [r]" using pageRep_fold [OF pageRep_new e32] assms(3) by simp
    then have "list_all2 ?R ((butlast (pages p) @ [cur p]) @ [?pg]) ((rss @ [rs]) @ [[r]])"
      using init lst by (intro list_all2_appendI) simp_all
    moreover have "butlast (pages p) @ [cur p] = pages p" using ne by (simp add: cur_def)
    ultimately have "list_all2 ?R (pages p @ [?pg]) (rss @ [rs, [r]])" by simp
    then have "pagesRep (pages p @ [?pg]) (recs @ [r])" by (rule pagesRepI) (simp_all add: recs ok)
    then show ?thesis using True by (simp add: putPages_def Let_def)
  next
    case False
    let ?pg = "fold writeEntry (recEntries r) (cur p)"
    have n: "pn (cur p) = length (concat (map recEntries rs))" using lst by (simp add: pageRep_def)
    have room: "pn (cur p) + length (recEntries r) \<le> 126" using False by (simp add: freeEntries_def)
    have "?R ?pg (rs @ [r])" using pageRep_fold [OF lst e32] room n by simp
    then have "list_all2 ?R (butlast (pages p) @ [?pg]) (rss @ [rs @ [r]])"
      using init by (intro list_all2_appendI) simp_all
    then have "pagesRep (butlast (pages p) @ [?pg]) (recs @ [r])" by (rule pagesRepI) (simp_all add: recs ok)
    then show ?thesis using False by (simp add: putPages_def Let_def)
  qed
qed

lemma put_rec:
  assumes "pagesRep (pages p) recs" and "okRec r" and "length (recEntries r) = span" and "span \<le> 126"
  obtains p' where "bind_io (fit span) (\<lambda>_. emitMany (recEntries r)) p = Some (Ok (), p')"
    "pagesRep (pages p') (recs @ [r])" "nss p' = nss p" "nsN p' = nsN p" "psize p' = psize p"
proof -
  have "pages p \<noteq> []" using assms(1) by (simp add: pagesRep_def)
  with put_run [of p r] put_rep [OF assms(1,2)] assms(3,4) show ?thesis
    by (intro that [of "putPages r p"]) (simp_all add: putPages_def Let_def del: recEntries.simps)
qed

section \<open>Setters against the abstract state\<close>

lemma writePrimitive_many:
  assumes "take width (le64 val) = data" and "length data \<le> 8" and "\<not> isVar ty"
  shows "writePrimitive nsIdx key ty val width =
    bind_io (fit 1) (\<lambda>_. if 15 < length key then throw (KeyTooLong key) else emitMany (recEntries (nsIdx, ty, key, data)))"
proof -
  have "(case putKey (entryHead nsIdx ty 1) key of Inl err \<Rightarrow> throw err
      | Inr e \<Rightarrow> emit (setEntryCRC (overwrite 24 data e)))
    = (if 15 < length key then throw (KeyTooLong key) else emitMany (recEntries (nsIdx, ty, key, data)))"
  proof (cases "putKey (entryHead nsIdx ty 1) key")
    case (Inl e)
    then show ?thesis by (auto simp: putKey_def split: if_splits)
  next
    case (Inr e)
    have "bind_io (emit x) (\<lambda>_. ret ()) = emit x" for x
      by (rule ext) (auto simp: bind_io_def emit_def bind_io_get split: option.split)
    then show ?thesis
      using Inr primitive_entry [OF Inr assms(2)] putKey_conv(2) [OF Inr] assms(3) by simp
  qed
  then show ?thesis by (simp only: writePrimitive_def assms(1))
qed

lemma writeVar_many:
  assumes "isVar ty"
  shows "writeVar nsIdx key ty data =
    bind_io (fit (1 + (length data + 31) div 32)) (\<lambda>_. if 15 < length key then throw (KeyTooLong key)
      else emitMany (recEntries (nsIdx, ty, key, data)))"
proof -
  let ?n = "(length data + 31) div 32"
  have n: "(length data + entrySize - 1) div entrySize = ?n" by simp
  have "(case putKey (entryHead nsIdx ty (of_nat (1 + ?n))) key of Inl err \<Rightarrow> throw err
      | Inr e \<Rightarrow> (let e = overwrite 24 (le16 (of_nat (length data))) e; e = overwrite 28 (le32 (nvsCRC32 data)) e
          in bind_io (emit (setEntryCRC e)) (\<lambda>_. emitData data 0 ?n)))
    = (if 15 < length key then throw (KeyTooLong key) else emitMany (recEntries (nsIdx, ty, key, data)))"
  proof (cases "putKey (entryHead nsIdx ty (of_nat (1 + ?n))) key")
    case (Inl e)
    then show ?thesis by (auto simp: putKey_def split: if_splits)
  next
    case (Inr e)
    then show ?thesis
      using variable_entry [OF Inr, of data] putKey_conv(2) [OF Inr] assms
      by (simp add: Let_def emitData_many dataEntries_def del: of_nat_Suc of_nat_add)
  qed
  then show ?thesis by (simp only: writeVar_def n Let_def)
qed

lemma isVar_types [simp]:
  "isVar typeStr" "isVar typeBlob" "\<not> isVar typeU8" "\<not> isVar typeI8" "\<not> isVar typeU16" "\<not> isVar typeI16"
  "\<not> isVar typeU32" "\<not> isVar typeI32" "\<not> isVar typeU64" "\<not> isVar typeI64"
  by (simp_all add: isVar_def nvs_types)

lemma typeWidth_types [simp]:
  "typeWidth typeU8 = Some 1" "typeWidth typeI8 = Some 1" "typeWidth typeU16 = Some 2" "typeWidth typeI16 = Some 2"
  "typeWidth typeU32 = Some 4" "typeWidth typeI32 = Some 4" "typeWidth typeU64 = Some 8" "typeWidth typeI64 = Some 8"
  by (simp_all add: typeWidth_def nvs_types)

text \<open>A write that succeeds adds its item.\<close>

lemma write_rec:
  assumes "bind_io (fit span) (\<lambda>_. if 15 < length key then throw (KeyTooLong key) else emitMany (recEntries r)) p = Some (Ok (), p')"
    and "pagesRep (pages p) recs" and "length (recEntries r) = span"
    and "length key \<le> 15 \<Longrightarrow> span \<le> 126 \<Longrightarrow> okRec r"
  shows "pagesRep (pages p') (recs @ [r])" and "nss p' = nss p" and "nsN p' = nsN p" and "psize p' = psize p"
proof -
  have span: "span \<le> 126" using assms(1) by (rule_tac ccontr) (simp add: fit_def)
  have key: "length key \<le> 15"
  proof (rule ccontr)
    assume "\<not> length key \<le> 15"
    with assms(1) show False by (simp add: fit_def bind_io_Ok split: if_splits)
  qed
  obtain q where q: "bind_io (fit span) (\<lambda>_. emitMany (recEntries r)) p = Some (Ok (), q)"
    "pagesRep (pages q) (recs @ [r])" "nss q = nss p" "nsN q = nsN p" "psize q = psize p"
    by (rule put_rec [OF assms(2) assms(4) [OF key span] assms(3) span])
  then have "q = p'" using assms(1) key by simp
  with q show "pagesRep (pages p') (recs @ [r])" "nss p' = nss p" "nsN p' = nsN p" "psize p' = psize p" by simp_all
qed

definition addNs :: "string list \<Rightarrow> string \<Rightarrow> string list" where
  "addNs nsl ns = (if ns \<in> set nsl then nsl else nsl @ [ns])"

definition nsRecs :: "string list \<Rightarrow> string \<Rightarrow> nvsRec list" where
  "nsRecs nsl ns = (if ns \<in> set nsl then [] else [(0, typeU8, ns, [of_nat (length nsl + 1)])])"

lemma nsIndex_new: "ns \<notin> set nsl \<Longrightarrow> nsIndex (nsl @ [ns]) ns = length nsl"
  unfolding nsIndex_def by (subst takeWhile_append2) auto

lemma nsIndex_old: "x \<in> set nsl \<Longrightarrow> nsIndex (nsl @ [ns]) x = nsIndex nsl x"
  unfolding nsIndex_def by (subst takeWhile_append1) auto

lemma namespace_rep:
  assumes "namespace ns p = Some (Ok idx, p')" and "nvsRep p nsl recs" and "CHR 0x00 \<notin> set ns"
  shows "nvsRep p' (addNs nsl ns) (recs @ nsRecs nsl ns)" and "idx = of_nat (nsIndex (addNs nsl ns) ns + 1)"
    and "psize p' = psize p"
proof -
  have rep: "nvsRep p' (addNs nsl ns) (recs @ nsRecs nsl ns) \<and> idx = of_nat (nsIndex (addNs nsl ns) ns + 1) \<and> psize p' = psize p"
  proof (cases "ns \<in> set nsl")
    case True
    then have "nss p ns = Some (of_nat (nsIndex nsl ns + 1))" using assms(2) by (simp add: nvsRep_def)
    then show ?thesis using assms True by (simp add: namespace_def addNs_def nsRecs_def)
  next
    case False
    let ?i = "nsN p + 1"
    let ?r = "(0, typeU8, ns, [?i])"
    have none: "nss p ns = None" and n: "nsN p = of_nat (length nsl)" using assms(2) False by (simp_all add: nvsRep_def)
    define q where "q = p\<lparr>nsN := ?i\<rparr>"
    from assms(1) none obtain q' where w: "writePrimitive nsTableIndex ns typeU8 (ucast ?i) 1 q = Some (Ok (), q')"
      and p': "p' = q'\<lparr>nss := (nss q')(ns \<mapsto> ?i)\<rparr>" "idx = ?i"
      by (auto simp: namespace_def bind_io_Ok q_def Let_def)
    have pq: "pagesRep (pages q) recs" using assms(2) by (simp add: nvsRep_def q_def)
    have "writePrimitive nsTableIndex ns typeU8 (ucast ?i) 1 =
        bind_io (fit 1) (\<lambda>_. if 15 < length ns then throw (KeyTooLong ns) else emitMany (recEntries ?r))"
      using writePrimitive_many [of 1 "ucast ?i" "[?i]" typeU8 nsTableIndex ns] le64_unsigned(1) [of ?i]
      by (simp add: nsTableIndex_def)
    from write_rec [OF w [unfolded this] pq] assms(3)
    have "pagesRep (pages q') (recs @ [?r])" "nss q' = nss p" "nsN q' = ?i" "psize q' = psize p"
      by (simp_all add: q_def okKey_def)
    moreover have "(\<lambda>x. if x \<in> set nsl then Some (of_nat (nsIndex nsl x + 1)) else None)(ns \<mapsto> ?i)
        = (\<lambda>x. if x \<in> set (nsl @ [ns]) then Some (of_nat (nsIndex (nsl @ [ns]) x + 1)) else None)"
      using False n by (auto simp: fun_eq_iff nsIndex_new nsIndex_old)
    ultimately show ?thesis
      using assms(2) False p' n by (simp add: nvsRep_def addNs_def nsRecs_def nsIndex_new add.commute [of 1])
  qed
  then show "nvsRep p' (addNs nsl ns) (recs @ nsRecs nsl ns)" and "idx = of_nat (nsIndex (addNs nsl ns) ns + 1)"
    and "psize p' = psize p" by simp_all
qed

text \<open>A setter that succeeds adds its namespace, if it is new, and its item.\<close>

lemma value_rep:
  assumes "bind_io (namespace ns) (\<lambda>idx. bind_io (fit span) (\<lambda>_. if 15 < length key then throw (KeyTooLong key)
      else emitMany (recEntries (idx, ty, key, data)))) p = Some (Ok (), p')"
    and "nvsRep p nsl recs" and "CHR 0x00 \<notin> set ns" and "CHR 0x00 \<notin> set key"
    and "span = (if isVar ty then 1 + (length data + 31) div 32 else 1)" and "\<not> isVar ty \<Longrightarrow> typeWidth ty = Some (length data)"
  shows "nvsRep p' (addNs nsl ns) (recs @ nsRecs nsl ns @ [(of_nat (nsIndex (addNs nsl ns) ns + 1), ty, key, data)])
    \<and> psize p' = psize p"
proof -
  from assms(1) obtain idx q where n: "namespace ns p = Some (Ok idx, q)"
    and w: "bind_io (fit span) (\<lambda>_. if 15 < length key then throw (KeyTooLong key)
      else emitMany (recEntries (idx, ty, key, data))) q = Some (Ok (), p')"
    by (auto simp: bind_io_Ok simp del: recEntries.simps)
  note q = namespace_rep [OF n assms(2,3)]
  have len: "length (recEntries (idx, ty, key, data)) = span" using assms(5) by (simp add: dataEntries_def)
  have ok: "okRec (idx, ty, key, data)" if "length key \<le> 15" "span \<le> 126"
  proof -
    have "length data \<le> 4000" if "isVar ty" using that \<open>span \<le> 126\<close> assms(5) by simp
    then show ?thesis using that assms(4,6) by (simp add: okKey_def)
  qed
  have "pagesRep (pages q) (recs @ nsRecs nsl ns)" using q(1) by (simp add: nvsRep_def)
  from write_rec [OF w this len ok] q show ?thesis by (simp add: nvsRep_def)
qed

lemmas setter_defs = SetU8_def SetI8_def SetU16_def SetI16_def SetU32_def SetI32_def SetU64_def SetI64_def
  SetString_def SetBlob_def

text \<open>Every setter: the namespace, room for the entries, the key, the entries.\<close>

definition itemSpan :: "byte \<Rightarrow> bytes \<Rightarrow> nat" where
  "itemSpan ty data = (if isVar ty then 1 + (length data + 31) div 32 else 1)"

definition putItem :: "nat \<Rightarrow> nvsRec \<Rightarrow> unit nvs" where
  "putItem span r = bind_io (fit span) (\<lambda>_. case r of (idx, ty, key, data) \<Rightarrow>
     if 15 < length key then throw (KeyTooLong key) else emitMany (recEntries r))"

lemma item_width: "itemOf x = (ns, ty, key, data) \<Longrightarrow> \<not> isVar ty \<Longrightarrow> typeWidth ty = Some (length data)"
  by (cases x) auto

lemma setInt_conv:
  assumes "take width (le64 val) = data" and "\<not> isVar ty" and "typeWidth ty = Some (length data)"
  shows "setInt ns key ty val width = bind_io (namespace ns) (\<lambda>idx. putItem (itemSpan ty data) (idx, ty, key, data))"
  unfolding setInt_def putItem_def writePrimitive_many [OF assms(1) typeWidth_le [OF assms(3)] assms(2)]
  using assms(2) by (simp add: itemSpan_def del: recEntries.simps)

lemma setVar_conv:
  assumes "isVar ty"
  shows "bind_io (namespace ns) (\<lambda>idx. writeVar idx key ty data)
    = bind_io (namespace ns) (\<lambda>idx. putItem (itemSpan ty data) (idx, ty, key, data))"
  unfolding putItem_def writeVar_many [OF assms] using assms by (simp add: itemSpan_def del: recEntries.simps)

lemma runOp_conv:
  assumes "itemOf x = (ns, ty, key, data)"
  shows "runOp x = bind_io (namespace ns) (\<lambda>idx. putItem (itemSpan ty data) (idx, ty, key, data))"
  using assms
  by (cases x)
    (auto simp only: runOp.simps itemOf.simps setter_defs prod.inject
      intro!: setInt_conv setVar_conv, simp_all add: le64_unsigned le64_signed le64_take(4))

lemma runOp_rep:
  assumes "runOp x p = Some (Ok (), p')" and "nvsRep p nsl recs" and "cleanOp x" and "itemOf x = (ns, ty, key, data)"
  shows "nvsRep p' (addNs nsl ns) (recs @ nsRecs nsl ns @ [(of_nat (nsIndex (addNs nsl ns) ns + 1), ty, key, data)])
    \<and> psize p' = psize p"
proof -
  have clean: "CHR 0x00 \<notin> set ns" "CHR 0x00 \<notin> set key" using assms(3,4) by (simp_all add: cleanOp_def)
  show ?thesis
    by (rule value_rep [OF assms(1) [unfolded runOp_conv [OF assms(4)] putItem_def prod.case] assms(2) clean])
      (simp_all add: itemSpan_def item_width [OF assms(4)])
qed

section \<open>Reading back\<close>

fun specRecs :: "string list \<Rightarrow> nvsItem list \<Rightarrow> nvsRec list" where
  "specRecs nsl [] = []"
| "specRecs nsl ((ns, ty, key, data) # xs) =
     nsRecs nsl ns @ [(of_nat (nsIndex (addNs nsl ns) ns + 1), ty, key, data)] @ specRecs (addNs nsl ns) xs"

lemma runOps_rep:
  "runOps xs p = Some (Ok (), p') \<Longrightarrow> nvsRep p nsl recs \<Longrightarrow> list_all cleanOp xs \<Longrightarrow>
   \<exists>nsl'. nvsRep p' nsl' (recs @ specRecs nsl (map itemOf xs)) \<and> psize p' = psize p"
proof (induction xs arbitrary: p nsl recs)
  case (Cons x xs)
  obtain ns ty key data where i: "itemOf x = (ns, ty, key, data)" by (cases "itemOf x")
  from Cons.prems(1) obtain q where q: "runOp x p = Some (Ok (), q)" "runOps xs q = Some (Ok (), p')"
    by (auto simp: bind_io_Ok)
  from Cons.prems(3) have c: "cleanOp x" "list_all cleanOp xs" by simp_all
  from runOp_rep [OF q(1) Cons.prems(2) c(1) i] Cons.IH [OF q(2) _ c(2)] show ?case
    by (fastforce simp: i)
qed auto

definition nsMap :: "string list \<Rightarrow> byte \<rightharpoonup> string" where
  "nsMap nsl = (\<lambda>i. if 1 \<le> unat i \<and> unat i \<le> length nsl then Some (nsl ! (unat i - 1)) else None)"

lemma unat_index: "n < 256 \<Longrightarrow> unat (of_nat n :: byte) = n"
  by (simp add: unat_of_nat)

lemma nsIndex_nth: "ns \<in> set nsl \<Longrightarrow> nsIndex nsl ns < length nsl \<and> nsl ! nsIndex nsl ns = ns"
proof -
  assume "ns \<in> set nsl"
  then have "dropWhile (\<lambda>x. x \<noteq> ns) nsl \<noteq> []" by (auto simp: dropWhile_eq_Nil_conv)
  then obtain y ys where d: "dropWhile (\<lambda>x. x \<noteq> ns) nsl = y # ys" by (cases "dropWhile (\<lambda>x. x \<noteq> ns) nsl") auto
  then have "y = ns" using hd_dropWhile [of "\<lambda>x. x \<noteq> ns" nsl] by simp
  moreover have "nsl = takeWhile (\<lambda>x. x \<noteq> ns) nsl @ y # ys" using d takeWhile_dropWhile_id [of "\<lambda>x. x \<noteq> ns" nsl] by simp
  ultimately show ?thesis unfolding nsIndex_def
    by (metis length_append less_add_same_cancel1 list.size(4) nth_append_length zero_less_Suc add.right_neutral add_Suc_right)
qed

lemma nsMap_add:
  assumes "length (addNs nsl ns) \<le> 255"
  shows "resolve (nsMap nsl) (nsRecs nsl ns @ r) = resolve (nsMap (addNs nsl ns)) r"
    and "nsMap (addNs nsl ns) (of_nat (nsIndex (addNs nsl ns) ns + 1)) = Some ns"
    and "(of_nat (nsIndex (addNs nsl ns) ns + 1) :: byte) \<noteq> 0"
proof -
  have mem: "ns \<in> set (addNs nsl ns)" by (simp add: addNs_def)
  let ?k = "nsIndex (addNs nsl ns) ns"
  have k: "?k < length (addNs nsl ns)" "addNs nsl ns ! ?k = ns" using nsIndex_nth [OF mem] by simp_all
  then have u: "unat (of_nat (?k + 1) :: byte) = ?k + 1" using assms by (intro unat_index) linarith
  then show "nsMap (addNs nsl ns) (of_nat (?k + 1)) = Some ns" using k by (simp add: nsMap_def del: of_nat_Suc of_nat_add)
  show "(of_nat (?k + 1) :: byte) \<noteq> 0" using u by (metis Suc_eq_plus1 nat.distinct(1) unat_0)
  show "resolve (nsMap nsl) (nsRecs nsl ns @ r) = resolve (nsMap (addNs nsl ns)) r"
  proof (cases "ns \<in> set nsl")
    case False
    then have n: "length nsl + 1 < 256" using assms by (simp add: addNs_def)
    have "(nsMap nsl)(of_nat (length nsl + 1) \<mapsto> ns) = nsMap (nsl @ [ns])"
    proof
      fix i :: byte
      show "((nsMap nsl)(of_nat (length nsl + 1) \<mapsto> ns)) i = nsMap (nsl @ [ns]) i"
      proof (cases "i = of_nat (length nsl + 1)")
        case True
        then have "unat i = length nsl + 1" using unat_index [OF n] by (simp only:)
        then show ?thesis using True by (simp add: nsMap_def)
      next
        case ne: False
        then have "unat i \<noteq> length nsl + 1" by (metis word_unat_eq_iff unat_index [OF n])
        then show ?thesis using ne by (auto simp: nsMap_def nth_append)
      qed
    qed
    then show ?thesis using False by (simp add: nsRecs_def addNs_def del: of_nat_Suc of_nat_add)
  qed (simp add: nsRecs_def addNs_def)
qed

lemma addNs_set: "set (addNs nsl ns) = insert ns (set nsl)" and addNs_distinct: "distinct nsl \<Longrightarrow> distinct (addNs nsl ns)"
  by (auto simp: addNs_def)

lemma resolve_spec:
  "distinct nsl \<Longrightarrow> card (set nsl \<union> fst ` set xs) \<le> 255 \<Longrightarrow> resolve (nsMap nsl) (specRecs nsl xs) = Some xs"
proof (induction xs arbitrary: nsl)
  case (Cons x xs)
  obtain ns ty key data where x: "x = (ns, ty, key, data)" by (cases x)
  have un: "set nsl \<union> fst ` set (x # xs) = set (addNs nsl ns) \<union> fst ` set xs" by (auto simp: x addNs_set)
  have "length (addNs nsl ns) = card (set (addNs nsl ns))" using addNs_distinct [OF Cons.prems(1)] by (simp add: distinct_card)
  also have "\<dots> \<le> card (set (addNs nsl ns) \<union> fst ` set xs)" by (intro card_mono) auto
  finally have len: "length (addNs nsl ns) \<le> 255" using Cons.prems(2) un by simp
  have "resolve (nsMap (addNs nsl ns)) (specRecs (addNs nsl ns) xs) = Some xs"
    using Cons.prems un by (intro Cons.IH addNs_distinct) simp_all
  then show ?case
    using nsMap_add [OF len] by (simp add: x del: of_nat_Suc of_nat_add)
qed simp

end
