(* ===== verification/NVSImage.thy ===== *)
theory NVSImage
  imports NVSSpec
begin

text \<open>
  The rendered image: what \<open>Bytes\<close> returns, page by page, and what a reader of the format
  decodes from it.
\<close>

section \<open>Rendering\<close>

lemma fold_overwrite:
  assumes "\<And>b. b \<in> set B \<Longrightarrow> length b = 4096" and "4096 * length B \<le> m" and "n \<le> length B"
  shows "fold (\<lambda>i out. overwrite (i * 4096) (B ! i) out) [0..<n] (replicate m x)
    = concat (take n B) @ replicate (m - 4096 * n) x"
  using assms(3)
proof (induction n)
  case (Suc n)
  have n: "n < length B" using Suc.prems by simp
  then have len: "length (B ! n) = 4096" using assms(1) nth_mem by blast
  have "length (concat (take k B)) = 4096 * k" if "k \<le> length B" for k
    using that assms(1) by (induction k) (simp_all add: take_Suc_conv_app_nth)
  then have "length (concat (take n B)) = n * 4096" using n by simp
  moreover have "replicate (m - 4096 * n) x = replicate 4096 x @ replicate (m - 4096 * Suc n) x"
    using n assms(2) by (simp add: replicate_add [symmetric])
  ultimately show ?case
    using Suc n len by (simp add: overwrite_def take_Suc_conv_app_nth)
qed simp

lemma length_finalPages [simp]: "length (finalPages pgs) = length pgs"
  by (simp add: finalPages_def)

lemma finalPages_nth:
  "i < length pgs \<Longrightarrow> \<exists>st. finalPages pgs ! i = finalize st (pgs ! i) \<and> (st = stateActive \<or> st = stateFull)"
  by (auto simp: finalPages_def)

lemma length_finalize [simp]: "length (buf pg) = 4096 \<Longrightarrow> length (buf (finalize st pg)) = 4096"
  by (simp add: finalize_def Let_def)

definition renderPages :: "int \<Rightarrow> page list \<Rightarrow> bytes" where
  "renderPages sz pgs = concat (map buf (finalPages pgs)) @ replicate (nat sz - 4096 * length pgs) 0xFF"

lemma bufs_length: "(\<And>pg. pg \<in> set pgs \<Longrightarrow> length (buf pg) = 4096) \<Longrightarrow> b \<in> set (map buf (finalPages pgs)) \<Longrightarrow> length b = 4096"
proof -
  assume len: "\<And>pg. pg \<in> set pgs \<Longrightarrow> length (buf pg) = 4096" and "b \<in> set (map buf (finalPages pgs))"
  then obtain i where i: "i < length pgs" "b = buf (finalPages pgs ! i)" by (auto simp: in_set_conv_nth)
  then show "length b = 4096" using finalPages_nth [OF i(1)] len [OF nth_mem [OF i(1)]] by auto
qed

lemma Bytes_run:
  assumes "\<And>pg. pg \<in> set (pages p) \<Longrightarrow> length (buf pg) = 4096"
  shows "PartitionBytes p = (let usable = psize p div 4096 - 1 in
    if usable < int (length (pages p)) then Some (Fail (TooManyPages (length (pages p)) usable), p)
    else Some (Ok (renderPages (psize p) (pages p)), p\<lparr>pages := finalPages (pages p)\<rparr>))"
proof (cases "psize p div 4096 - 1 < int (length (pages p))")
  case False
  let ?B = "map buf (finalPages (pages p))"
  have "4096 * length (pages p) \<le> nat (psize p)" using False by linarith
  then have "fold (\<lambda>i out. overwrite (i * 4096) (?B ! i) out) [0..<length ?B] (replicate (nat (psize p)) 0xFF)
      = concat ?B @ replicate (nat (psize p) - 4096 * length (pages p)) 0xFF"
    using fold_overwrite [of ?B "nat (psize p)" "length ?B"] bufs_length [of "pages p"] assms by simp
  moreover have "fold (\<lambda>i out. overwrite (i * 4096) (buf (finalPages (pages p) ! i)) out) [0..<length (pages p)] y
      = fold (\<lambda>i out. overwrite (i * 4096) (?B ! i) out) [0..<length ?B] y" for y :: bytes
    by (rule fold_cong) simp_all
  ultimately show ?thesis using False by (simp add: PartitionBytes_def renderPages_def Let_def)
qed (simp add: PartitionBytes_def Let_def)

section \<open>Reading the image\<close>

lemma readPage_erased: "readPage (replicate 4096 0xFF) = Some []"
proof -
  have "get32 (replicate 4096 0xFF) = 0xFFFFFFFF" by (simp add: get32_def)
  then show ?thesis by (simp add: readPage_def)
qed

lemma sequence_opt_concat: "sequence_opt (map Some rss) = Some (concat rss)"
  by (induction rss) simp_all

lemma chunks_render:
  assumes "\<And>pg. pg \<in> set pgs \<Longrightarrow> length (buf pg) = 4096" and "sz mod 4096 = 0" and "int (length pgs) \<le> sz div 4096"
  shows "chunks 4096 (renderPages sz pgs)
    = map buf (finalPages pgs) @ replicate (nat (sz div 4096) - length pgs) (replicate 4096 0xFF)"
proof -
  let ?k = "nat (sz div 4096) - length pgs"
  obtain n where n: "sz = 4096 * n" using assms(2) by (auto simp: mod_eq_0_iff_dvd elim: dvdE)
  then have "int (nat sz - 4096 * length pgs) = int (?k * 4096)" using assms(3) by simp
  then have "nat sz - 4096 * length pgs = ?k * 4096" by (simp only: of_nat_eq_iff)
  moreover have "replicate (k * 4096) (0xFF :: byte) = concat (replicate k (replicate 4096 0xFF))" for k
    by (induction k) (simp_all add: replicate_add)
  ultimately have r: "renderPages sz pgs = concat (map buf (finalPages pgs) @ replicate ?k (replicate 4096 0xFF))"
    by (simp add: renderPages_def)
  have "length b = 4096" if "b \<in> set (map buf (finalPages pgs) @ replicate ?k (replicate 4096 0xFF))" for b
    using that bufs_length [of pgs b] assms(1) by (auto split: if_splits)
  then show ?thesis unfolding r by (intro chunks_concat) simp_all
qed

lemma readPages_final:
  assumes "list_all2 (\<lambda>pg rs. pageRep pg (concat (map recEntries rs))) pgs rss" and "\<And>r. r \<in> set (concat rss) \<Longrightarrow> okRec r"
  shows "map readPage (map buf (finalPages pgs)) = map Some rss"
proof (rule nth_equalityI)
  show len: "length (map readPage (map buf (finalPages pgs))) = length (map Some rss)"
    using assms(1) by (simp add: list_all2_lengthD)
  fix i assume "i < length (map readPage (map buf (finalPages pgs)))"
  then have i: "i < length pgs" "i < length rss" using len by simp_all
  obtain st where st: "finalPages pgs ! i = finalize st (pgs ! i)" "st = stateActive \<or> st = stateFull"
    using finalPages_nth [OF i(1)] by blast
  have "pageRep (pgs ! i) (concat (map recEntries (rss ! i)))" using list_all2_nthD [OF assms(1) i(1)] by simp
  moreover have "okRec r" if "r \<in> set (rss ! i)" for r using that i(2) by (intro assms(2)) auto
  ultimately show "map readPage (map buf (finalPages pgs)) ! i = map Some rss ! i"
    using readPage_finalize [OF _ _ st(2)] i st(1) by simp
qed

lemma render_read:
  assumes "nvsRep p nsl recs" and "psize p mod 4096 = 0" and "int (length (pages p)) \<le> psize p div 4096"
  shows "readImage (renderPages (psize p) (pages p)) = resolve Map.empty recs"
proof -
  from assms(1) obtain rss where rss: "concat rss = recs" "\<And>r. r \<in> set (concat rss) \<Longrightarrow> okRec r"
    "list_all2 (\<lambda>pg rs. pageRep pg (concat (map recEntries rs))) (pages p) rss"
    unfolding nvsRep_def pagesRep_def by blast
  have len: "length (buf pg) = 4096" if "pg \<in> set (pages p)" for pg
    using that rss(3) by (auto simp: list_all2_conv_all_nth in_set_conv_nth pageRep_def)
  let ?k = "nat (psize p div 4096) - length (pages p)"
  have "chunks 4096 (renderPages (psize p) (pages p))
      = map buf (finalPages (pages p)) @ replicate ?k (replicate 4096 0xFF)"
    by (rule chunks_render [OF len assms(2,3)])
  then have "map readPage (chunks 4096 (renderPages (psize p) (pages p))) = map Some (rss @ replicate ?k [])"
    using readPages_final [OF rss(3,2)] readPage_erased by (simp only: map_append map_replicate)
  moreover have "concat (rss @ replicate k []) = recs" for k using rss(1) by (simp add: concat_replicate_trivial)
  ultimately show ?thesis by (simp add: readImage_def sequence_opt_concat del: map_append)
qed

lemma New_rep:
  assumes "New sz = Inr p"
  shows "nvsRep p [] []" and "psize p = sz" and "sz mod 4096 = 0" and "0x3000 \<le> sz"
proof -
  from assms have p: "p = \<lparr>psize = sz, pages = [newPage 0], nss = Map.empty, nsN = 0\<rparr>"
    and sz: "sz mod 4096 = 0" "0x3000 \<le> sz"
    by (auto simp: New_def split: if_splits)
  have "pagesRep [newPage 0] []" by (rule pagesRepI [of _ "[[]]"]) (simp_all add: pageRep_new)
  then show "nvsRep p [] []" by (simp add: p nvsRep_def fun_eq_iff)
  show "psize p = sz" "sz mod 4096 = 0" "0x3000 \<le> sz" by (simp_all add: p sz)
qed

lemma nsMap_Nil: "nsMap [] = Map.empty"
  by (auto simp: nsMap_def fun_eq_iff)

lemma pages_length: "nvsRep p nsl recs \<Longrightarrow> pg \<in> set (pages p) \<Longrightarrow> length (buf pg) = 4096"
  unfolding nvsRep_def pagesRep_def by (auto simp: list_all2_conv_all_nth in_set_conv_nth pageRep_def)

lemma length_renderPages:
  assumes "\<And>pg. pg \<in> set pgs \<Longrightarrow> length (buf pg) = 4096" and "int (length pgs) \<le> sz div 4096"
  shows "length (renderPages sz pgs) = nat sz"
proof -
  have "length (concat bs) = 4096 * length bs" if "\<And>b. b \<in> set bs \<Longrightarrow> length b = 4096" for bs :: "bytes list"
    using that by (induction bs) simp_all
  then have "length (concat (map buf (finalPages pgs))) = 4096 * length pgs"
    using bufs_length [of pgs] assms(1) by (metis length_finalPages length_map)
  then show ?thesis using assms(2) by (simp add: renderPages_def)
qed

lemma runOps_image:
  assumes "New sz = Inr p" and "runOps xs p = Some (Ok (), q)" and "PartitionBytes q = Some (Ok img, q')"
    and "list_all cleanOp xs"
  obtains nsl where "nvsRep q nsl (specRecs [] (map itemOf xs))" and "psize q = sz" and "img = renderPages sz (pages q)"
    and "int (length (pages q)) \<le> sz div 4096 - 1"
proof -
  note new = New_rep [OF assms(1)]
  obtain nsl where rep: "nvsRep q nsl (specRecs [] (map itemOf xs))" and size: "psize q = sz"
    using runOps_rep [OF assms(2) new(1) assms(4)] new(2) by auto
  from assms(3) have "img = renderPages sz (pages q)" "int (length (pages q)) \<le> sz div 4096 - 1"
    using Bytes_run [OF pages_length [OF rep]] size by (simp_all add: Let_def split: if_splits)
  then show ?thesis by (rule that [OF rep size])
qed

end
