(* ===== verification/NVSVerdict.thy ===== *)
theory NVSVerdict
  imports NVSImage
begin

text \<open>
  The verdict of every setter of the NVS generator, the invariant of the partition, and how many
  entries fit a page.
\<close>

section \<open>The verdict of a setter\<close>

text \<open>What holds in every state a client can reach, failed calls included.\<close>

definition nvsInv :: "partition \<Rightarrow> bool" where
  "nvsInv p \<longleftrightarrow> psize p mod 4096 = 0 \<and> 0x3000 \<le> psize p \<and> pages p \<noteq> [] \<and> (\<forall>pg \<in> set (pages p). length (buf pg) = 4096 \<and> pn pg \<le> 126)
     \<and> (\<forall>i < length (pages p). pseq (pages p ! i) = of_nat i) \<and> (\<forall>ns \<in> dom (nss p). length ns \<le> 15)"

lemma New_inv: "New sz = Inr p \<Longrightarrow> nvsInv p"
  by (auto simp: New_def nvsInv_def newPage_def split: if_splits)

text \<open>\<open>n\<close> entries that the current page has room for start no page.\<close>

definition tight :: "nat \<Rightarrow> partition \<Rightarrow> partition \<Rightarrow> bool" where
  "tight n p p' \<longleftrightarrow> (pn (cur p) + n \<le> 126 \<longrightarrow> length (pages p') = length (pages p) \<and> pn (cur p') \<le> pn (cur p) + n)"

lemma tight_refl: "tight n p p"
  by (simp add: tight_def)

lemma tight_trans: "tight m p q \<Longrightarrow> tight n q r \<Longrightarrow> tight (m + n) p r"
  by (auto simp: tight_def)

lemma tight_cong: "pages p' = pages p \<Longrightarrow> tight n p p'" and tight_left: "pages p' = pages p \<Longrightarrow> tight n p' q = tight n p q"
  by (simp_all add: tight_def cur_def)

lemma fit_inv:
  assumes "nvsInv p" and "span \<le> 126"
  obtains p' where "fit span p = Some (Ok (), p')" "nvsInv p'" "nss p' = nss p" "nsN p' = nsN p" "pn (cur p') + span \<le> 126"
    "pn (cur p) + span \<le> 126 \<Longrightarrow> p' = p"
proof (cases "freeEntries (cur p) < int span")
  case True
  let ?p = "p\<lparr>pages := pages p @ [newPage (pseq (cur p) + 1)]\<rparr>"
  have "pseq (cur p) = of_nat (length (pages p) - 1)" using assms(1) by (simp add: nvsInv_def cur_def last_conv_nth)
  moreover have "of_nat (length (pages p) - 1) + 1 = (of_nat (length (pages p)) :: u32)"
    using assms(1) by (cases "pages p") (simp_all add: nvsInv_def)
  ultimately have "nvsInv ?p"
    using assms(1) by (auto simp: nvsInv_def newPage_def nth_append less_Suc_eq)
  then show ?thesis using True assms(2) by (intro that [of ?p]) (simp_all add: fit_def cur_def freeEntries_def)
next
  case False
  then show ?thesis using assms by (intro that [of p]) (simp_all add: fit_def freeEntries_def)
qed

lemma writeEntry_inv:
  "length (buf pg) = 4096 \<Longrightarrow> pn pg < 126 \<Longrightarrow> length e = 32 \<Longrightarrow> length (buf (writeEntry e pg)) = 4096"
  by (simp add: writeEntry_def Let_def)

lemma pseq_writeEntry [simp]: "pseq (writeEntry e pg) = pseq pg"
  by (simp add: writeEntry_def Let_def)

lemma emitMany_inv:
  "nvsInv p \<Longrightarrow> pn (cur p) + length es \<le> 126 \<Longrightarrow> (\<And>e. e \<in> set es \<Longrightarrow> length e = 32) \<Longrightarrow>
   \<exists>p'. emitMany es p = Some (Ok (), p') \<and> nvsInv p' \<and> nss p' = nss p \<and> nsN p' = nsN p
     \<and> length (pages p') = length (pages p) \<and> pn (cur p') = pn (cur p) + length es"
proof (induction es arbitrary: p)
  case (Cons e es)
  let ?p = "p\<lparr>pages := butlast (pages p) @ [writeEntry e (cur p)]\<rparr>"
  have ne: "pages p \<noteq> []" using Cons.prems(1) by (simp add: nvsInv_def)
  then have c: "cur p \<in> set (pages p)" "cur p = pages p ! (length (pages p) - 1)" by (simp_all add: cur_def last_conv_nth)
  have "nvsInv ?p"
    unfolding nvsInv_def
  proof (intro conjI)
    show "\<forall>pg \<in> set (pages ?p). length (buf pg) = 4096 \<and> pn pg \<le> 126"
      using Cons.prems c(1) writeEntry_inv [of "cur p" e] by (auto simp: nvsInv_def dest: in_set_butlastD)
    show "\<forall>i < length (pages ?p). pseq (pages ?p ! i) = of_nat i"
    proof (intro allI impI)
      fix i assume i: "i < length (pages ?p)"
      show "pseq (pages ?p ! i) = of_nat i"
      proof (cases "i < length (pages p) - 1")
        case False
        then have "i = length (pages p) - 1" using i ne by simp
        then show ?thesis using Cons.prems(1) c(2) ne by (simp add: nvsInv_def nth_append)
      qed (use Cons.prems(1) ne in \<open>simp add: nvsInv_def nth_append nth_butlast\<close>)
    qed
  qed (use Cons.prems(1) in \<open>simp_all add: nvsInv_def\<close>)
  moreover have "emit e p = Some (Ok (), ?p)" using Cons.prems(2) by (simp add: emit_def)
  moreover have "pn (cur ?p) + length es \<le> 126" using Cons.prems(2) by (simp add: cur_def)
  moreover have "length (pages ?p) = length (pages p)" "pn (cur ?p) = pn (cur p) + 1" using ne by (simp_all add: cur_def)
  ultimately show ?case using Cons.IH [of ?p] Cons.prems(3) by (auto simp: bind_io_eval)
qed simp

lemma entry_lengths:
  assumes "length key \<le> 15" and "\<not> isVar ty \<Longrightarrow> length data \<le> 8" and "e \<in> set (recEntries (idx, ty, key, data))"
  shows "length e = 32"
  using assms by (auto simp: dataEntries_def split: if_splits)

definition putVerdict :: "byte \<Rightarrow> string \<Rightarrow> bytes \<Rightarrow> (nvsErr, unit) outcome" where
  "putVerdict ty key data = (if 126 < itemSpan ty data then Fail (ItemTooLarge (itemSpan ty data))
     else if 15 < length key then Fail (KeyTooLong key) else Ok ())"

lemma putItem_verdict:
  assumes "nvsInv p" and "\<not> isVar ty \<Longrightarrow> length data \<le> 8"
  shows "\<exists>p'. putItem (itemSpan ty data) (idx, ty, key, data) p = Some (putVerdict ty key data, p') \<and> nvsInv p'
    \<and> nss p' = nss p \<and> nsN p' = nsN p \<and> tight (itemSpan ty data) p p'"
proof (cases "126 < itemSpan ty data")
  case True
  then show ?thesis using assms(1) by (simp add: putItem_def fit_def putVerdict_def tight_refl)
next
  case False
  then obtain q where q: "fit (itemSpan ty data) p = Some (Ok (), q)" "nvsInv q" "nss q = nss p" "nsN q = nsN p"
    "pn (cur q) + itemSpan ty data \<le> 126" "pn (cur p) + itemSpan ty data \<le> 126 \<Longrightarrow> q = p"
    using fit_inv [OF assms(1), of "itemSpan ty data"] by (auto simp only: not_less)
  have n: "length (recEntries (idx, ty, key, data)) = itemSpan ty data" by (simp add: itemSpan_def dataEntries_def)
  have run: "\<exists>p'. emitMany (recEntries (idx, ty, key, data)) q = Some (Ok (), p') \<and> nvsInv p' \<and> nss p' = nss q \<and> nsN p' = nsN q
      \<and> length (pages p') = length (pages q) \<and> pn (cur p') = pn (cur q) + length (recEntries (idx, ty, key, data))"
    if "length key \<le> 15"
    by (rule emitMany_inv [OF q(2)]) (use q(5) n in \<open>simp only:\<close>, erule entry_lengths [OF that assms(2), rotated], assumption)
  show ?thesis
  proof (cases "15 < length key")
    case True
    then show ?thesis using q False by (auto simp: putItem_def bind_io_eval putVerdict_def tight_def)
  next
    case ok: False
    then obtain p' where "emitMany (recEntries (idx, ty, key, data)) q = Some (Ok (), p')" "nvsInv p'" "nss p' = nss q" "nsN p' = nsN q"
      "length (pages p') = length (pages q)" "pn (cur p') = pn (cur q) + itemSpan ty data"
      using run n by (auto simp del: recEntries.simps)
    moreover from this have "tight (itemSpan ty data) p p'" using q(6) by (auto simp: tight_def)
    ultimately show ?thesis using q(1,3,4) False ok by (simp add: putItem_def bind_io_eval putVerdict_def del: recEntries.simps)
  qed
qed

lemma namespace_conv:
  "namespace name = bind_io get_io (\<lambda>p. case nss p name of Some idx \<Rightarrow> ret idx
     | None \<Rightarrow> bind_io (upd_io (\<lambda>p. p\<lparr>nsN := nsN p + 1\<rparr>)) (\<lambda>_. bind_io get_io (\<lambda>p. let idx = nsN p in
         bind_io (putItem 1 (0, typeU8, name, [idx])) (\<lambda>_.
         bind_io (upd_io (\<lambda>p. p\<lparr>nss := (nss p)(name \<mapsto> idx)\<rparr>)) (\<lambda>_. ret idx)))))"
proof -
  have "writePrimitive nsTableIndex name typeU8 (ucast idx) 1 = putItem 1 (0, typeU8, name, [idx])" for idx :: u8
    using writePrimitive_many [of 1 "ucast idx" "[idx]" typeU8 nsTableIndex name] le64_unsigned(1) [of idx]
    by (simp add: nsTableIndex_def putItem_def)
  then show ?thesis by (simp only: namespace_def)
qed

lemma namespace_verdict:
  assumes "nvsInv p"
  shows "\<exists>p'. namespace ns p = Some (if nss p ns = None \<and> 15 < length ns then Fail (KeyTooLong ns)
      else Ok (case nss p ns of Some idx \<Rightarrow> idx | None \<Rightarrow> nsN p + 1), p') \<and> nvsInv p'
    \<and> nsN p' = (if nss p ns = None then nsN p + 1 else nsN p) \<and> tight 1 p p'
    \<and> nss p' = (if nss p ns = None \<and> length ns \<le> 15 then (nss p)(ns \<mapsto> nsN p + 1) else nss p)"
proof (cases "nss p ns")
  case None
  let ?p = "p\<lparr>nsN := nsN p + 1\<rparr>"
  have "nvsInv ?p" using assms by (simp add: nvsInv_def)
  from putItem_verdict [OF this, of typeU8 "[nsN p + 1]" 0 ns] obtain q where
    q: "putItem 1 (0, typeU8, ns, [nsN p + 1]) ?p = Some (putVerdict typeU8 ns [nsN p + 1], q)" "nvsInv q" "nss q = nss p" "nsN q = nsN p + 1" "tight 1 p q"
    by (auto simp: itemSpan_def tight_left [of ?p p])
  have "nvsInv (q\<lparr>nss := (nss q)(ns \<mapsto> nsN p + 1)\<rparr>)" if "length ns \<le> 15" using q(2) that by (simp add: nvsInv_def)
  then show ?thesis
    using None q tight_trans [OF q(5) tight_cong, where n = 0]
    by (auto simp: namespace_conv putVerdict_def itemSpan_def bind_io_eval Let_def)
qed (use assms in \<open>auto simp: namespace_conv tight_refl\<close>)

text \<open>The outcome a setter is to have, from the arguments and the namespaces that exist.\<close>

definition setVerdict :: "nvsOp \<Rightarrow> partition \<Rightarrow> (nvsErr, unit) outcome" where
  "setVerdict x p = (case itemOf x of (ns, ty, key, data) \<Rightarrow>
     if nss p ns = None \<and> 15 < length ns then Fail (KeyTooLong ns) else putVerdict ty key data)"

lemma runOp_verdict:
  assumes "nvsInv p" and i: "itemOf x = (ns, ty, key, data)"
  shows "\<exists>p'. runOp x p = Some (setVerdict x p, p') \<and> nvsInv p' \<and> tight (1 + itemSpan ty data) p p'"
proof -
  from namespace_verdict [OF assms(1), of ns] obtain q where
    q: "namespace ns p = Some (if nss p ns = None \<and> 15 < length ns then Fail (KeyTooLong ns)
      else Ok (case nss p ns of Some idx \<Rightarrow> idx | None \<Rightarrow> nsN p + 1), q)" "nvsInv q" "tight 1 p q" by blast
  have d: "\<not> isVar ty \<Longrightarrow> length data \<le> 8" using item_width [OF i] typeWidth_le by blast
  have put: "\<exists>p'. putItem (itemSpan ty data) (idx, ty, key, data) q = Some (putVerdict ty key data, p') \<and> nvsInv p'
      \<and> tight (1 + itemSpan ty data) p p'" for idx
    using putItem_verdict [OF q(2) d, where idx = idx and key = key] tight_trans [OF q(3)] by blast
  have "tight (1 + itemSpan ty data) p q" using tight_trans [OF q(3) tight_refl] .
  then show ?thesis
    using q put by (auto simp: runOp_conv [OF i] bind_io_eval setVerdict_def i)
qed

lemma Bytes_inv:
  assumes "nvsInv p"
  shows "\<exists>r p'. PartitionBytes p = Some (r, p') \<and> r \<noteq> Panic \<and> nvsInv p'"
proof -
  have len: "\<And>pg. pg \<in> set (pages p) \<Longrightarrow> length (buf pg) = 4096" using assms by (simp add: nvsInv_def)
  have ext: "pn (finalize st pg) = pn pg" "pseq (finalize st pg) = pseq pg" for st pg by (simp_all add: finalize_def Let_def)
  have "nvsInv (p\<lparr>pages := finalPages (pages p)\<rparr>)"
    unfolding nvsInv_def
  proof (intro conjI)
    have nth: "length (buf (finalPages (pages p) ! i)) = 4096 \<and> pn (finalPages (pages p) ! i) \<le> 126
        \<and> pseq (finalPages (pages p) ! i) = of_nat i" if "i < length (pages p)" for i
      using finalPages_nth [OF that] assms that len [OF nth_mem [OF that]] nth_mem [OF that] by (auto simp: nvsInv_def ext)
    then show "\<forall>pg \<in> set (pages (p\<lparr>pages := finalPages (pages p)\<rparr>)). length (buf pg) = 4096 \<and> pn pg \<le> 126"
      "\<forall>i < length (pages (p\<lparr>pages := finalPages (pages p)\<rparr>)). pseq (pages (p\<lparr>pages := finalPages (pages p)\<rparr>) ! i) = of_nat i"
      by (auto simp: in_set_conv_nth)
    show "pages (p\<lparr>pages := finalPages (pages p)\<rparr>) \<noteq> []" using assms by (simp add: nvsInv_def finalPages_def)
  qed (use assms in \<open>simp_all add: nvsInv_def\<close>)
  then show ?thesis using assms by (simp add: Bytes_run [OF len] Let_def)
qed

text \<open>The partitions a client can reach: setters and renderings in any order, failed ones included.\<close>

inductive nvsReach :: "int \<Rightarrow> partition \<Rightarrow> bool" for sz where
  reach_New: "New sz = Inr p \<Longrightarrow> nvsReach sz p"
| reach_set: "nvsReach sz p \<Longrightarrow> runOp x p = Some (r, p') \<Longrightarrow> nvsReach sz p'"
| reach_render: "nvsReach sz p \<Longrightarrow> PartitionBytes p = Some (r, p') \<Longrightarrow> nvsReach sz p'"

inductive_cases nvsReachE: "nvsReach sz p"

lemma reach_inv: "nvsReach sz p \<Longrightarrow> nvsInv p"
proof (induction rule: nvsReach.induct)
  case (reach_set p x r p')
  then show ?case using runOp_verdict [of p x] by (cases "itemOf x") fastforce
next
  case (reach_render p r p')
  then show ?case using Bytes_inv [of p] by auto
qed (rule New_inv)

text \<open>C22. Every reachable partition is well formed, whatever calls succeeded or failed: at least
  one page, all pages of 4096 bytes with at most 126 entries and the sequence numbers 0, 1, 2 in
  order, and only namespaces of at most 15 characters.\<close>
theorem NVS_reachable_inv:
  assumes "nvsReach sz p"
  shows "nvsInv p"
  by (rule reach_inv [OF assms])

lemma NVS_reachable_inv_witness: "\<exists>p p'. New 0x3000 = Inr p \<and> SetString ''ns'' ''key'' ''value'' p = Some (Ok (), p') \<and> nvsInv p'"
proof -
  obtain p where p: "New 0x3000 = Inr p" "nss p = Map.empty" by (simp add: New_def)
  have "setVerdict (OpString ''ns'' ''key'' ''value'') p = Ok ()"
    using p(2) by (simp add: setVerdict_def putVerdict_def itemSpan_def)
  then obtain p' where p': "runOp (OpString ''ns'' ''key'' ''value'') p = Some (Ok (), p')"
    using runOp_verdict [OF New_inv [OF p(1)], of "OpString ''ns'' ''key'' ''value''"] by fastforce
  from NVS_reachable_inv [OF reach_set [OF reach_New [OF p(1)] p']] p p' show ?thesis by auto
qed

text \<open>C23. Setters of the NVS generator: from any state a client can reach, a typed setter
  returns and does not panic. It fails exactly when a new namespace has a name of more than 15
  characters, when the value needs more than the 126 entries of a page, or when the key has more
  than 15 characters, reported in that order.\<close>
theorem NVS_setter_verdict:
  assumes "nvsReach sz p"
  shows "\<exists>p'. runOp x p = Some (setVerdict x p, p')"
  using runOp_verdict [OF reach_inv [OF assms]] by (cases "itemOf x") blast

lemma NVS_setter_verdict_witness:
  "\<exists>p p'. New 0x3000 = Inr p \<and> runOp (OpU8 ''storage'' ''a_key_of_17_char'' 1) p = Some (Fail (KeyTooLong ''a_key_of_17_char''), p')"
proof -
  obtain p where p: "New 0x3000 = Inr p" "nss p = Map.empty" by (simp add: New_def)
  from NVS_setter_verdict [OF reach_New [OF p(1)], of "OpU8 ''storage'' ''a_key_of_17_char'' 1"] show ?thesis
    using p by (auto simp: setVerdict_def putVerdict_def itemSpan_def)
qed

text \<open>What a sequence of setters takes of a page, and when every one of them succeeds.\<close>

definition opSpan :: "nvsOp \<Rightarrow> nat" where
  "opSpan x = (case itemOf x of (_, ty, _, data) \<Rightarrow> 1 + itemSpan ty data)"

definition shortOp :: "nvsOp \<Rightarrow> bool" where
  "shortOp x = (case itemOf x of (ns, _, key, _) \<Rightarrow> length ns \<le> 15 \<and> length key \<le> 15)"

lemma runOps_succeed:
  "nvsInv p \<Longrightarrow> list_all shortOp xs \<Longrightarrow> sum_list (map opSpan xs) \<le> 126 \<Longrightarrow>
   \<exists>q. runOps xs p = Some (Ok (), q) \<and> nvsInv q \<and> tight (sum_list (map opSpan xs)) p q"
proof (induction xs arbitrary: p)
  case (Cons x xs)
  obtain ns ty key data where i: "itemOf x = (ns, ty, key, data)" by (cases "itemOf x")
  have "setVerdict x p = Ok ()"
    using Cons.prems(2,3) by (simp add: i setVerdict_def putVerdict_def shortOp_def opSpan_def)
  then obtain q where q: "runOp x p = Some (Ok (), q)" "nvsInv q" "tight (opSpan x) p q"
    using runOp_verdict [OF Cons.prems(1) i] by (auto simp: opSpan_def i)
  obtain t where "runOps xs q = Some (Ok (), t)" "nvsInv t" "tight (sum_list (map opSpan xs)) q t"
    using Cons.IH [OF q(2)] Cons.prems(2,3) by auto
  then show ?case using q tight_trans [OF q(3)] by (auto simp: bind_io_eval)
qed (simp add: tight_refl)

lemma onePage_image:
  assumes "New sz = Inr p" and "list_all shortOp xs" and "sum_list (map opSpan xs) \<le> 126"
  obtains q img q' where "runOps xs p = Some (Ok (), q)" and "PartitionBytes q = Some (Ok img, q')" and "length (pages q) = 1"
proof -
  have p: "length (pages p) = 1" "pn (cur p) = 0" "0x3000 \<le> sz"
    using assms(1) by (auto simp: New_def cur_def split: if_splits)
  obtain q where q: "runOps xs p = Some (Ok (), q)" "nvsInv q" "tight (sum_list (map opSpan xs)) p q"
    using runOps_succeed [OF New_inv [OF assms(1)] assms(2,3)] by blast
  have one: "length (pages q) = 1" using q(3) p assms(3) by (simp add: tight_def)
  have "\<And>pg. pg \<in> set (pages q) \<Longrightarrow> length (buf pg) = 4096" "0x3000 \<le> psize q" using q(2) by (simp_all add: nvsInv_def)
  from Bytes_run [OF this(1)] this(2) one show ?thesis
    by (intro that [OF q(1) _ one]) (auto simp: Let_def)
qed

text \<open>Capacity of an NVS partition: setters whose namespaces and keys have at most 15
  characters and that need at most the 126 entries of one page (one for each namespace and one
  plus a 32-byte entry per started 32 bytes of value for each item) all succeed, stay on the
  first page, and the image is rendered, whatever the size of the partition.\<close>
theorem NVS_capacity:
  assumes "New sz = Inr p" and "list_all shortOp xs" and "sum_list (map opSpan xs) \<le> 126"
  shows "\<exists>q img q'. runOps xs p = Some (Ok (), q) \<and> length (pages q) = 1 \<and> PartitionBytes q = Some (Ok img, q')"
  by (rule onePage_image [OF assms]) blast

lemma NVS_capacity_witness:
  "\<exists>p q img q'. New 0x3000 = Inr p \<and> runOps [OpU8 ''storage'' ''x'' 42, OpBlob ''storage'' ''key'' (replicate 3000 7)] p = Some (Ok (), q)
     \<and> length (pages q) = 1 \<and> PartitionBytes q = Some (Ok img, q')"
proof -
  obtain p where p: "New 0x3000 = Inr p" by (simp add: New_def)
  from NVS_capacity [OF p, of "[OpU8 ''storage'' ''x'' 42, OpBlob ''storage'' ''key'' (replicate 3000 7)]"] p show ?thesis
    by (auto simp: shortOp_def opSpan_def itemSpan_def)
qed

text \<open>C24. The namespace index wraps: after 255 namespaces (counting failed ones, whose index is
  not given back) the next one is accepted without an error and gets index 0, that of the
  namespace table itself, so that its values are stored as if they were namespaces.\<close>
theorem NVS_namespace_wrap:
  assumes "nvsReach sz p" and "nsN p = 255" and "nss p ns = None" and "length ns \<le> 15"
  shows "\<exists>p'. namespace ns p = Some (Ok nsTableIndex, p')"
  using namespace_verdict [OF reach_inv [OF assms(1)], of ns] assms(2-4) by (auto simp: nsTableIndex_def)

text \<open>Every failed creation of a namespace uses up an index.\<close>

lemma failed_namespaces: "\<exists>p. nvsReach 0x3000 p \<and> nsN p = of_nat n \<and> nss p = Map.empty"
proof (induction n)
  case 0
  have "New 0x3000 = Inr \<lparr>psize = 0x3000, pages = [newPage 0], nss = Map.empty, nsN = 0\<rparr>" by (simp add: New_def)
  from reach_New [OF this] show ?case by (intro exI) auto
next
  case (Suc n)
  then obtain p where p: "nvsReach 0x3000 p" "nsN p = of_nat n" "nss p = Map.empty" by blast
  let ?ns = "''sixteen_chars_ns''"
  from namespace_verdict [OF reach_inv [OF p(1)], of ?ns] p(2,3) obtain p' where
    p': "namespace ?ns p = Some (Fail (KeyTooLong ?ns), p')" "nsN p' = of_nat n + 1" "nss p' = Map.empty" by auto
  then have "runOp (OpU8 ?ns ''k'' 1) p = Some (Fail (KeyTooLong ?ns), p')"
    by (simp add: SetU8_def setInt_def bind_io_eval)
  from reach_set [OF p(1) this] p' show ?case by (intro exI [of _ p']) (simp add: add.commute)
qed

lemma NVS_namespace_wrap_witness:
  "\<exists>p p'. nvsReach 0x3000 p \<and> nss p = Map.empty \<and> namespace ''late'' p = Some (Ok nsTableIndex, p')"
proof -
  obtain p where p: "nvsReach 0x3000 p" "nsN p = of_nat 255" "nss p = Map.empty" using failed_namespaces by blast
  from NVS_namespace_wrap [OF p(1), of "''late''"] p show ?thesis by auto
qed

end
