(* ===== verification/NVSTests.thy ===== *)
theory NVSTests
  imports NVSVerdict
begin

text \<open>
  The round trip of an NVS image through the reader of the format, and the image of the worked
  example of \<open>nvs/FORMAT.md\<close>.
\<close>

section \<open>Round trip\<close>

text \<open>C21. An NVS image reads back: when a partition is created, a sequence of typed setters
  succeeds and the image is rendered, a reader of the format of \<open>FORMAT.md\<close> (page states, header,
  entry and data checksums, the namespace table) decodes from the image exactly the values that
  were set, in order, each under its namespace, type and key, and the image has the size asked
  for. Keys and namespaces must be free of NUL, and there may be at most 255 namespaces.\<close>
theorem NVS_roundtrip:
  assumes "New sz = Inr p" and "runOps xs p = Some (Ok (), q)" and "PartitionBytes q = Some (Ok img, q')"
    and "list_all cleanOp xs" and "card (fst ` set (map itemOf xs)) \<le> 255"
  shows "readImage img = Some (map itemOf xs) \<and> int (length img) = sz"
proof -
  obtain nsl where rep: "nvsRep q nsl (specRecs [] (map itemOf xs))" and size: "psize q = sz"
    and img: "img = renderPages sz (pages q)" and fits: "int (length (pages q)) \<le> sz div 4096 - 1"
    by (rule runOps_image [OF assms(1-4)])
  note new = New_rep [OF assms(1)]
  have fits': "int (length (pages q)) \<le> sz div 4096" using fits by simp
  have "readImage img = resolve Map.empty (specRecs [] (map itemOf xs))"
    using render_read [OF rep] size img new(3) fits' by simp
  also have "\<dots> = Some (map itemOf xs)"
    using resolve_spec [of "[]" "map itemOf xs"] assms(5) by (simp add: nsMap_Nil)
  finally show ?thesis
    using length_renderPages [OF pages_length [OF rep] fits'] img new(4) by simp
qed

lemma NVS_roundtrip_witness:
  "\<exists>p q img q'. New 0x3000 = Inr p \<and> runOps [OpU8 ''storage'' ''x'' 42, OpI16 ''cal'' ''y'' 0xFFFE, OpString ''storage'' ''name'' ''hi''] p = Some (Ok (), q)
     \<and> PartitionBytes q = Some (Ok img, q')
     \<and> readImage img = Some [(''storage'', typeU8, ''x'', [42]), (''cal'', typeI16, ''y'', [0xFE, 0xFF]), (''storage'', typeStr, ''name'', [104, 105, 0])]"
proof -
  let ?xs = "[OpU8 ''storage'' ''x'' 42, OpI16 ''cal'' ''y'' 0xFFFE, OpString ''storage'' ''name'' ''hi'']"
  obtain p where p: "New 0x3000 = Inr p" by (simp add: New_def)
  have short: "list_all shortOp ?xs" "list_all cleanOp ?xs" by (simp_all add: shortOp_def cleanOp_def)
  have items: "map itemOf ?xs = [(''storage'', typeU8, ''x'', [42]), (''cal'', typeI16, ''y'', [0xFE, 0xFF]), (''storage'', typeStr, ''name'', [104, 105, 0])]"
    by (simp add: le16_def str_bytes_def of_char_def)
  have "sum_list (map opSpan ?xs) \<le> 126" by (simp add: opSpan_def itemSpan_def str_bytes_def le16_def)
  then obtain q img q' where q: "runOps ?xs p = Some (Ok (), q)" "PartitionBytes q = Some (Ok img, q')"
    using onePage_image [OF p short(1)] by metis
  have "card (fst ` set (map itemOf ?xs)) \<le> 255" unfolding items by (rule le_trans [OF card_image_le]) (auto simp: card_insert_if)
  from NVS_roundtrip [OF p q short(2) this] show ?thesis using p q unfolding items by blast
qed

section \<open>The worked example\<close>

lemma writeEntry_first:
  assumes "buf pg = A @ b # B @ E @ R" and "length A = 32" and "length B = 31" and "length E = 32 * pn pg"
    and "pn pg < 4" and "length e = 32"
  shows "32 \<le> length R \<Longrightarrow> buf (writeEntry e pg) = A @ (b AND NOT (push_bit (2 * pn pg) 1)) # B @ (E @ e) @ drop 32 R"
proof -
  assume "32 \<le> length R"
  then have len: "length (take 32 R) = 32" by simp
  have "64 + pn pg * 32 = length (A @ b # B @ E)" using assms by simp
  then have "overwrite (64 + pn pg * 32) e (buf pg) = A @ b # B @ (E @ e) @ drop 32 R"
    using overwrite_middle [of "A @ b # B @ E" "64 + pn pg * 32" e "take 32 R" "drop 32 R"] assms(1,6) len by simp
  moreover have "pn pg * 2 div 8 = 0" "pn pg * 2 mod 8 = 2 * pn pg" using assms(5) by simp_all
  ultimately show ?thesis
    using assms(2) by (simp add: writeEntry_def Let_def nth_append list_update_append)
qed

lemma pn_fold: "pn (fold writeEntry es pg) = pn pg + length es"
  by (induction es arbitrary: pg) simp_all

lemma worked_run:
  "\<exists>p q. New 0x3000 = Inr p \<and> runOps [OpU8 ''storage'' ''x'' 42, OpString ''storage'' ''name'' ''hi''] p = Some (Ok (), q)
    \<and> psize q = 0x3000 \<and> pages q = [fold writeEntry (concat (map recEntries
        [(0, typeU8, ''storage'', [1]), (1, typeU8, ''x'', [42]), (1, typeStr, ''name'', [104, 105, 0])])) (newPage 0)]"
proof -
  let ?p = "\<lparr>psize = 0x3000, pages = [newPage 0], nss = Map.empty, nsN = 0\<rparr> :: partition"
  have p: "New 0x3000 = Inr ?p" by (simp add: New_def)
  have put: "putItem (length (recEntries r)) r p = Some (Ok (), p\<lparr>pages := [fold writeEntry (recEntries r) pg]\<rparr>)"
    if "pages p = [pg]" and "length (fst (snd (snd r))) \<le> 15" and "pn pg + length (recEntries r) \<le> 126" for r p pg
    using put_run [of p r] that
    by (cases r) (simp add: putItem_def putPages_def Let_def freeEntries_def cur_def del: recEntries.simps)
  let ?r0 = "(0, typeU8, ''storage'', [1]) :: nvsRec" and ?r1 = "(1, typeU8, ''x'', [42]) :: nvsRec"
    and ?r2 = "(1, typeStr, ''name'', [104, 105, 0]) :: nvsRec"
  have len: "length (recEntries ?r0) = 1" "length (recEntries ?r1) = 1" "length (recEntries ?r2) = 2"
    by (simp_all add: dataEntries_def)
  let ?g1 = "fold writeEntry (recEntries ?r0) (newPage 0)"
  let ?g2 = "fold writeEntry (recEntries ?r1) ?g1"
  let ?g3 = "fold writeEntry (recEntries ?r2) ?g2"
  have pn: "pn ?g1 = 1" "pn ?g2 = 2" by (simp_all only: pn_fold len pn_newPage)
  note p0 = put [of "?p\<lparr>nsN := 1\<rparr>" "newPage 0" ?r0, unfolded len pn_newPage]
  let ?q = "\<lparr>psize = 0x3000, pages = [?g1], nss = [''storage'' \<mapsto> 1], nsN = 1\<rparr> :: partition"
  note p1 = put [of ?q ?g1 ?r1, unfolded len pn]
  note p2 = put [of "?q\<lparr>pages := [?g2]\<rparr>" ?g2 ?r2, unfolded len pn]
  have span: "itemSpan typeStr [104, 105, 0] = 2" by (simp add: itemSpan_def)
  have "namespace ''storage'' ?p = Some (Ok 1, ?q)"
    using p0 by (simp add: namespace_conv bind_io_eval Let_def del: recEntries.simps)
  then have "runOp (OpU8 ''storage'' ''x'' 42) ?p = Some (Ok (), ?q\<lparr>pages := [?g2]\<rparr>)"
    using p1 by (simp add: runOp_conv [of _ "''storage''" typeU8 "''x''" "[42]"] itemSpan_def bind_io_eval
        del: recEntries.simps runOp.simps)
  moreover have "namespace ''storage'' (?q\<lparr>pages := [?g2]\<rparr>) = Some (Ok 1, ?q\<lparr>pages := [?g2]\<rparr>)"
    by (simp add: namespace_conv)
  then have "runOp (OpString ''storage'' ''name'' ''hi'') (?q\<lparr>pages := [?g2]\<rparr>) = Some (Ok (), ?q\<lparr>pages := [?g3]\<rparr>)"
    using p2 span by (simp add: runOp_conv [of _ "''storage''" typeStr "''name''" "[104, 105, 0]"] bind_io_eval str_bytes_def
        del: recEntries.simps runOp.simps)
  ultimately have "runOps [OpU8 ''storage'' ''x'' 42, OpString ''storage'' ''name'' ''hi''] ?p = Some (Ok (), ?q\<lparr>pages := [?g3]\<rparr>)"
    by (simp add: bind_io_eval del: recEntries.simps runOp.simps)
  then show ?thesis using p by (intro exI [of _ ?p] exI [of _ "?q\<lparr>pages := [?g3]\<rparr>"]) (simp del: recEntries.simps)
qed

lemma worked_crcs:
  "nvsCRC32 [0, 0, 0, 0, 0xFE, 0xFF, 0xFF, 0xFF, 0xFF, 0xFF, 0xFF, 0xFF, 0xFF, 0xFF, 0xFF, 0xFF, 0xFF, 0xFF, 0xFF, 0xFF, 0xFF, 0xFF, 0xFF, 0xFF] = 0xB9BA2D84"
  "nvsCRC32 [0, 1, 1, 0xFF, 115, 116, 111, 114, 97, 103, 101, 0, 0, 0, 0, 0, 0, 0, 0, 0, 1, 0xFF, 0xFF, 0xFF, 0xFF, 0xFF, 0xFF, 0xFF] = 0x0750A909"
  "nvsCRC32 [1, 1, 1, 0xFF, 120, 0, 0, 0, 0, 0, 0, 0, 0, 0, 0, 0, 0, 0, 0, 0, 42, 0xFF, 0xFF, 0xFF, 0xFF, 0xFF, 0xFF, 0xFF] = 0x14492C92"
  "nvsCRC32 [104, 105, 0] = 0x0D04B589"
  "nvsCRC32 [1, 0x21, 2, 0xFF, 110, 97, 109, 101, 0, 0, 0, 0, 0, 0, 0, 0, 0, 0, 0, 0, 3, 0, 0xFF, 0xFF, 0x89, 0xB5, 0x04, 0x0D] = 0xB441A544"
  by (simp_all add: nvsCRC32_def crc_eval)

lemma worked_keys:
  "key16 ''storage'' = [115, 116, 111, 114, 97, 103, 101, 0, 0, 0, 0, 0, 0, 0, 0, 0]"
  "key16 ''x'' = [120, 0, 0, 0, 0, 0, 0, 0, 0, 0, 0, 0, 0, 0, 0, 0]"
  "key16 ''name'' = [110, 97, 109, 101, 0, 0, 0, 0, 0, 0, 0, 0, 0, 0, 0, 0]"
  by (simp_all add: key16_def str_bytes_def numeral_eq_Suc)

definition workedEntries :: "bytes list" where
  "workedEntries =
    [[0x00, 0x01, 0x01, 0xff, 0x09, 0xa9, 0x50, 0x07, 0x73, 0x74, 0x6f, 0x72, 0x61, 0x67, 0x65, 0x00,
      0x00, 0x00, 0x00, 0x00, 0x00, 0x00, 0x00, 0x00, 0x01, 0xff, 0xff, 0xff, 0xff, 0xff, 0xff, 0xff],
     [0x01, 0x01, 0x01, 0xff, 0x92, 0x2c, 0x49, 0x14, 0x78, 0x00, 0x00, 0x00, 0x00, 0x00, 0x00, 0x00,
      0x00, 0x00, 0x00, 0x00, 0x00, 0x00, 0x00, 0x00, 0x2a, 0xff, 0xff, 0xff, 0xff, 0xff, 0xff, 0xff],
     [0x01, 0x21, 0x02, 0xff, 0x44, 0xa5, 0x41, 0xb4, 0x6e, 0x61, 0x6d, 0x65, 0x00, 0x00, 0x00, 0x00,
      0x00, 0x00, 0x00, 0x00, 0x00, 0x00, 0x00, 0x00, 0x03, 0x00, 0xff, 0xff, 0x89, 0xb5, 0x04, 0x0d],
     [0x68, 0x69, 0x00, 0xff, 0xff, 0xff, 0xff, 0xff, 0xff, 0xff, 0xff, 0xff, 0xff, 0xff, 0xff, 0xff,
      0xff, 0xff, 0xff, 0xff, 0xff, 0xff, 0xff, 0xff, 0xff, 0xff, 0xff, 0xff, 0xff, 0xff, 0xff, 0xff]]"

lemma ff_runs:
  "replicate 7 (x :: byte) = [x, x, x, x, x, x, x]"
  "replicate 19 (x :: byte) = [x, x, x, x, x, x, x, x, x, x, x, x, x, x, x, x, x, x, x]"
  "replicate 29 (x :: byte) = [x, x, x, x, x, x, x, x, x, x, x, x, x, x, x, x, x, x, x, x, x, x, x, x, x, x, x, x, x]"
  by (simp_all add: numeral_eq_Suc)

lemma worked_entries:
  "concat (map recEntries [(0, typeU8, ''storage'', [1]), (1, typeU8, ''x'', [42]), (1, typeStr, ''name'', [104, 105, 0])]) = workedEntries"
proof -
  have "dataEntry [104, 105, 0] 0 = [104, 105, 0] @ replicate 29 0xFF" by (simp add: dataEntry_chunk)
  then have d: "dataEntries [104, 105, 0] = [[104, 105, 0] @ replicate 29 0xFF]" by (simp add: dataEntries_def)
  have v: "varTail [104, 105, 0] = [3, 0, 0xFF, 0xFF, 0x89, 0xB5, 0x04, 0x0D]"
    by (simp add: varTail_def worked_crcs le16_def le32_def)
  show ?thesis
    by (simp add: workedEntries_def mkEntry_def v worked_keys worked_crcs ff_runs d nvs_types le16_def le32_def isVar_def)
qed

lemma worked_page:
  "buf (fold writeEntry workedEntries (newPage 0)) = replicate 32 0xFF @ 0xAA # replicate 31 0xFF @ concat workedEntries @ replicate 3904 0xFF"
proof -
  obtain e0 e1 e2 e3 where w: "workedEntries = [e0, e1, e2, e3]" and len: "length e0 = 32" "length e1 = 32" "length e2 = 32" "length e3 = 32"
    by (simp add: workedEntries_def)
  have "buf (newPage 0) = replicate 32 0xFF @ 0xFF # replicate 31 0xFF @ [] @ replicate 4032 0xFF"
    by (simp add: newPage_def replicate_add [symmetric] flip: replicate_Suc)
  from writeEntry_first [OF this] len have
    "buf (writeEntry e0 (newPage 0)) = replicate 32 0xFF @ 0xFE # replicate 31 0xFF @ e0 @ replicate 4000 0xFF" by simp
  from writeEntry_first [OF this] len have
    "buf (writeEntry e1 (writeEntry e0 (newPage 0))) = replicate 32 0xFF @ 0xFA # replicate 31 0xFF @ (e0 @ e1) @ replicate 3968 0xFF"
    by simp
  from writeEntry_first [OF this] len have
    "buf (writeEntry e2 (writeEntry e1 (writeEntry e0 (newPage 0))))
      = replicate 32 0xFF @ 0xEA # replicate 31 0xFF @ (e0 @ e1 @ e2) @ replicate 3936 0xFF"
    by simp
  from writeEntry_first [OF this] len show ?thesis by (simp add: w)
qed

text \<open>The worked example of \<open>FORMAT.md\<close>, whose bytes come from the official generator:
  namespace "storage", x = 42 as u8 and name = "hi" in a partition of 0x3000 bytes. The image is
  the page header with its checksum, the bitmap 0xAA, the four entries with their checksums, and
  0xFF to the end.\<close>
theorem NVS_worked_example:
  "\<exists>p q q'. New 0x3000 = Inr p \<and> runOps [OpU8 ''storage'' ''x'' 42, OpString ''storage'' ''name'' ''hi''] p = Some (Ok (), q)
    \<and> PartitionBytes q = Some (Ok ([0xfe, 0xff, 0xff, 0xff, 0x00, 0x00, 0x00, 0x00, 0xfe] @ replicate 19 0xff @ [0x84, 0x2d, 0xba, 0xb9]
        @ [0xaa] @ replicate 31 0xff @ concat workedEntries @ replicate 12096 0xff), q')"
proof -
  let ?pg = "fold writeEntry workedEntries (newPage 0)"
  obtain p q where q: "New 0x3000 = Inr p" "runOps [OpU8 ''storage'' ''x'' 42, OpString ''storage'' ''name'' ''hi''] p = Some (Ok (), q)"
    "psize q = 0x3000" "pages q = [?pg]"
    using worked_run unfolding worked_entries by blast
  have len: "length (buf ?pg) = 4096" unfolding worked_page by (simp add: workedEntries_def)
  have sq: "pseq (fold writeEntry es pg) = pseq pg" for es pg by (induction es arbitrary: pg) simp_all
  have "buf (finalize stateActive ?pg) = [0xfe, 0xff, 0xff, 0xff, 0x00, 0x00, 0x00, 0x00, 0xfe] @ replicate 19 0xff @ [0x84, 0x2d, 0xba, 0xb9]
      @ [0xaa] @ replicate 31 0xff @ concat workedEntries @ replicate 3904 0xff"
    using worked_crcs(1) unfolding finalize_buf [OF len] worked_page sq
    by (simp add: newPage_def le32_def stateActive_def versionV2_def ff_runs)
  then have "renderPages 0x3000 [?pg] = [0xfe, 0xff, 0xff, 0xff, 0x00, 0x00, 0x00, 0x00, 0xfe] @ replicate 19 0xff @ [0x84, 0x2d, 0xba, 0xb9]
      @ [0xaa] @ replicate 31 0xff @ concat workedEntries @ replicate 12096 0xff"
    by (simp add: renderPages_def finalPages_def replicate_add [symmetric])
  then show ?thesis using q Bytes_run [of q] len by (auto simp: Let_def)
qed

end
