(* ===== verification/GoText.thy ===== *)
theory GoText
  imports Bytes
begin

text \<open>
  What the program uses of Go's \<open>strings\<close>, \<open>strconv\<close>, \<open>path/filepath\<close> and \<open>sort\<close>. Strings
  are byte strings; letter case and white space are those of ASCII.
\<close>

section \<open>strings\<close>

definition isSpace :: "char \<Rightarrow> bool" where
  "isSpace c \<longleftrightarrow> (of_char c :: nat) \<in> {9, 10, 11, 12, 13, 32}"

definition TrimSpace :: "string \<Rightarrow> string" where
  "TrimSpace s = rev (dropWhile isSpace (rev (dropWhile isSpace s)))"

definition upperChar :: "char \<Rightarrow> char" where
  "upperChar c = (let n = of_char c :: nat in if 97 \<le> n \<and> n \<le> 122 then char_of (n - 32) else c)"

definition lowerChar :: "char \<Rightarrow> char" where
  "lowerChar c = (let n = of_char c :: nat in if 65 \<le> n \<and> n \<le> 90 then char_of (n + 32) else c)"

definition ToUpper :: "string \<Rightarrow> string" where "ToUpper = map upperChar"
definition ToLower :: "string \<Rightarrow> string" where "ToLower = map lowerChar"

definition HasPrefix :: "string \<Rightarrow> string \<Rightarrow> bool" where
  "HasPrefix s t \<longleftrightarrow> take (length t) s = t"

definition HasSuffix :: "string \<Rightarrow> string \<Rightarrow> bool" where
  "HasSuffix s t \<longleftrightarrow> length t \<le> length s \<and> drop (length s - length t) s = t"

definition TrimPrefix :: "string \<Rightarrow> string \<Rightarrow> string" where
  "TrimPrefix s t = (if HasPrefix s t then drop (length t) s else s)"

fun Contains :: "string \<Rightarrow> string \<Rightarrow> bool" where
  "Contains [] t \<longleftrightarrow> t = []"
| "Contains (c # s) t \<longleftrightarrow> HasPrefix (c # s) t \<or> Contains s t"

text \<open>\<open>strings.Cut\<close> at a separator of one character.\<close>

definition Cut :: "string \<Rightarrow> char \<Rightarrow> string \<times> string \<times> bool" where
  "Cut s c =
     (let a = takeWhile (\<lambda>x. x \<noteq> c) s in
      if c \<in> set s then (a, drop (length a + 1) s, True) else (s, [], False))"

lemma Cut_append: "c \<notin> set a \<Longrightarrow> Cut (a @ c # b) c = (a, b, True)"
proof -
  assume c: "c \<notin> set a"
  then have "takeWhile (\<lambda>x. x \<noteq> c) (a @ c # b) = a" by (induction a) auto
  then show ?thesis by (simp add: Cut_def)
qed

lemma HasPrefix_append [simp]: "HasPrefix (t @ s) t"
  by (simp add: HasPrefix_def)

lemma TrimPrefix_append [simp]: "TrimPrefix (t @ s) t = s"
  by (simp add: TrimPrefix_def)

lemma Contains_iff: "Contains s t \<longleftrightarrow> (\<exists>a b. s = a @ t @ b)"
proof (induction s)
  case (Cons c s)
  show ?case
  proof
    assume "Contains (c # s) t"
    then consider "HasPrefix (c # s) t" | "Contains s t" by auto
    then show "\<exists>a b. c # s = a @ t @ b"
    proof cases
      case 1
      then have "c # s = [] @ t @ drop (length t) (c # s)" by (metis HasPrefix_def append_Nil append_take_drop_id)
      then show ?thesis by blast
    next
      case 2
      then show ?thesis using Cons.IH by (metis append_Cons)
    qed
  next
    assume "\<exists>a b. c # s = a @ t @ b"
    then obtain a b where ab: "c # s = a @ t @ b" by blast
    show "Contains (c # s) t"
    proof (cases a)
      case Nil
      then have "HasPrefix (c # s) t" using ab by (simp add: HasPrefix_def)
      then show ?thesis by simp
    next
      case (Cons x a')
      then have "s = a' @ t @ b" using ab by simp
      then show ?thesis using Cons.IH by auto
    qed
  qed
qed auto

section \<open>strconv\<close>

datatype numErr = ErrSyntax | ErrRange

definition digitVal :: "char \<Rightarrow> nat option" where
  "digitVal c = (let n = of_char c :: nat; l = of_char (lowerChar c) :: nat in
     if 48 \<le> n \<and> n \<le> 57 then Some (n - 48) else if 97 \<le> l \<and> l \<le> 122 then Some (l - 97 + 10) else None)"

text \<open>The digits of an unsigned number, with the largest value that is not out of range.\<close>

fun parseDigits :: "bool \<Rightarrow> nat \<Rightarrow> nat \<Rightarrow> string \<Rightarrow> nat \<Rightarrow> numErr + nat" where
  "parseDigits base0 base mx [] n = Inr n"
| "parseDigits base0 base mx (c # s) n =
     (if c = CHR ''_'' \<and> base0 then parseDigits base0 base mx s n
      else case digitVal c of
        None \<Rightarrow> Inl ErrSyntax
      | Some d \<Rightarrow> if base \<le> d then Inl ErrSyntax
                  else if mx < n * base + d then Inl ErrRange
                  else parseDigits base0 base mx s (n * base + d))"

text \<open>\<open>underscoreOK\<close>: underscores only between digits, a base prefix counting as one.\<close>

definition basePrefix :: "string \<Rightarrow> nat option" where
  "basePrefix s = (if 2 \<le> length s \<and> s ! 0 = CHR ''0'' then
       (if lowerChar (s ! 1) = CHR ''b'' then Some 2 else if lowerChar (s ! 1) = CHR ''o'' then Some 8
        else if lowerChar (s ! 1) = CHR ''x'' then Some 16 else None) else None)"

datatype underscoreState = NoDigit | Digit | Underscore | Other

fun underscoreScan :: "bool \<Rightarrow> underscoreState \<Rightarrow> string \<Rightarrow> bool" where
  "underscoreScan hex st [] \<longleftrightarrow> st \<noteq> Underscore"
| "underscoreScan hex st (c # s) \<longleftrightarrow>
     (let n = of_char c :: nat; l = of_char (lowerChar c) :: nat in
      if 48 \<le> n \<and> n \<le> 57 \<or> hex \<and> 97 \<le> l \<and> l \<le> 102 then underscoreScan hex Digit s
      else if c = CHR ''_'' then (if st \<noteq> Digit then False else underscoreScan hex Underscore s)
      else if st = Underscore then False else underscoreScan hex Other s)"

definition underscoreOK :: "string \<Rightarrow> bool" where
  "underscoreOK s = (let s = (if s \<noteq> [] \<and> (hd s = CHR ''-'' \<or> hd s = CHR ''+'') then tl s else s) in
     case basePrefix s of
       Some b \<Rightarrow> underscoreScan (b = 16) Digit (drop 2 s)
     | None \<Rightarrow> underscoreScan False NoDigit s)"

text \<open>\<open>strconv.ParseUint(s, 0, bits)\<close>, given the largest value that fits.\<close>

definition parseUint0 :: "nat \<Rightarrow> string \<Rightarrow> numErr + nat" where
  "parseUint0 mx s =
     (if s = [] then Inl ErrSyntax
      else let (base, t) = (if hd s \<noteq> CHR ''0'' then (10, s)
             else case basePrefix s of
               Some b \<Rightarrow> if 3 \<le> length s then (b, drop 2 s) else (8, tl s)
             | None \<Rightarrow> (8, tl s))
           in case parseDigits True base mx t 0 of
                Inl e \<Rightarrow> Inl e
              | Inr n \<Rightarrow> if CHR ''_'' \<in> set t \<and> \<not> underscoreOK s then Inl ErrSyntax else Inr n)"

definition ParseUint :: "string \<Rightarrow> numErr + u32" where
  "ParseUint s = (case parseUint0 (2 ^ 32 - 1) s of Inl e \<Rightarrow> Inl e | Inr n \<Rightarrow> Inr (of_nat n))"

text \<open>\<open>strconv.ParseInt(s, 0, 64)\<close>.\<close>

definition ParseInt :: "string \<Rightarrow> numErr + int" where
  "ParseInt s =
     (if s = [] then Inl ErrSyntax
      else let neg = hd s = CHR ''-''; t = (if hd s = CHR ''-'' \<or> hd s = CHR ''+'' then tl s else s)
           in case parseUint0 (2 ^ 64 - 1) t of
                Inl e \<Rightarrow> Inl e
              | Inr n \<Rightarrow> if \<not> neg \<and> 2 ^ 63 \<le> n then Inl ErrRange
                         else if neg \<and> 2 ^ 63 < n then Inl ErrRange
                         else Inr (if neg then - int n else int n))"

definition ParseBool :: "string \<Rightarrow> bool option" where
  "ParseBool s =
     (if s \<in> {''1'', ''t'', ''T'', ''true'', ''TRUE'', ''True''} then Some True
      else if s \<in> {''0'', ''f'', ''F'', ''false'', ''FALSE'', ''False''} then Some False
      else None)"

text \<open>\<open>strconv.Atoi\<close>, with the 64-bit \<open>int\<close>; the program does not look at which error it is.\<close>

definition Atoi :: "string \<Rightarrow> int option" where
  "Atoi s =
     (let neg = s \<noteq> [] \<and> hd s = CHR ''-'';
          t = (if s \<noteq> [] \<and> (hd s = CHR ''-'' \<or> hd s = CHR ''+'') then tl s else s)
      in if t = [] then None
         else case parseDigits False 10 (if neg then 2 ^ 63 else 2 ^ 63 - 1) t 0 of
             Inl e \<Rightarrow> None
           | Inr n \<Rightarrow> Some (if neg then - int n else int n))"

section \<open>Rendering a number\<close>

definition digitChar :: "nat \<Rightarrow> char" where
  "digitChar d = char_of (if d < 10 then 48 + d else 87 + d)"

fun digits :: "nat \<Rightarrow> nat \<Rightarrow> string" where
  "digits b n = (if n < b \<or> b < 2 then [digitChar n] else digits b (n div b) @ [digitChar (n mod b)])"

declare digits.simps [simp del]

lemma code_digitChar: "d < 16 \<Longrightarrow> of_char (digitChar d) = (if d < 10 then 48 + d else 87 + d :: nat)"
  by (simp add: digitChar_def)

lemma digitVal_digitChar: "d < 16 \<Longrightarrow> digitVal (digitChar d) = Some d"
  by (auto simp: digitVal_def lowerChar_def Let_def code_digitChar)

lemma digitChar_plain:
  assumes "d < 16"
  shows "digitChar d \<noteq> CHR ''_''" and "digitChar d \<noteq> CHR ''-''" and "digitChar d \<noteq> CHR ''+''" and "\<not> isSpace (digitChar d)"
proof -
  have "of_char (digitChar d) \<noteq> (of_char CHR ''_'' :: nat)" "of_char (digitChar d) \<noteq> (of_char CHR ''-'' :: nat)"
    "of_char (digitChar d) \<noteq> (of_char CHR ''+'' :: nat)" using assms by (auto simp: code_digitChar)
  then show "digitChar d \<noteq> CHR ''_''" "digitChar d \<noteq> CHR ''-''" "digitChar d \<noteq> CHR ''+''" by metis+
  show "\<not> isSpace (digitChar d)" using assms by (auto simp: isSpace_def code_digitChar)
qed

lemma parseDigits_append:
  "parseDigits z b mx (s @ t) n = (case parseDigits z b mx s n of Inl e \<Rightarrow> Inl e | Inr m \<Rightarrow> parseDigits z b mx t m)"
  by (induction s arbitrary: n) (auto split: option.split)

lemma parseDigits_digits: "2 \<le> b \<Longrightarrow> b \<le> 16 \<Longrightarrow> n \<le> mx \<Longrightarrow> parseDigits z b mx (digits b n) 0 = Inr n"
proof (induction b n rule: digits.induct)
  case (1 b n)
  show ?case
  proof (cases "n < b")
    case True
    then show ?thesis using "1.prems" digitVal_digitChar [of n] digitChar_plain [of n] by (simp add: digits.simps [of b])
  next
    case False
    have m: "n mod b < 16" "n mod b < b" using "1.prems" by (simp_all add: order.strict_trans2 [OF mod_less_divisor])
    have "n div b \<le> mx" using "1.prems"(3) div_le_dividend [of n b] by linarith
    then have "parseDigits z b mx (digits b (n div b)) 0 = Inr (n div b)" using 1 False by simp
    moreover have "n div b * b + n mod b = n" by simp
    ultimately show ?thesis
      using False "1.prems" digitVal_digitChar [OF m(1)] digitChar_plain [OF m(1)] m(2)
      by (subst digits.simps) (simp add: parseDigits_append not_le)
  qed
qed

lemma digits_plain: "2 \<le> b \<Longrightarrow> b \<le> 16 \<Longrightarrow> c \<in> set (digits b n) \<Longrightarrow> \<exists>d < 16. c = digitChar d"
proof (induction b n rule: digits.induct)
  case (1 b n)
  have "n mod b < 16" using "1.prems" by (simp add: order.strict_trans2 [OF mod_less_divisor])
  then show ?case using 1 by (cases "n < b") (simp add: digits.simps [of b n], force, auto simp: digits.simps [of b n])
qed

lemma digits_ne [simp]: "digits b n \<noteq> []"
  by (subst digits.simps) simp

lemma digits_no_underscore: "2 \<le> b \<Longrightarrow> b \<le> 16 \<Longrightarrow> CHR ''_'' \<notin> set (digits b n)"
  using digits_plain [of b "CHR ''_''" n] digitChar_plain(1) by metis

lemma hd_digits: "2 \<le> b \<Longrightarrow> b \<le> 16 \<Longrightarrow> 0 < n \<Longrightarrow> hd (digits b n) \<noteq> CHR ''0''"
proof (induction b n rule: digits.induct)
  case (1 b n)
  show ?case
  proof (cases "n < b")
    case True
    have "of_char (digitChar n) \<noteq> (of_char CHR ''0'' :: nat)" using "1.prems" True by (simp add: code_digitChar)
    then have "digitChar n \<noteq> CHR ''0''" by metis
    then show ?thesis using True by (simp add: digits.simps [of b n])
  next
    case False
    then have "0 < n div b" using "1.prems" by (simp add: div_greater_zero_iff)
    then show ?thesis using 1 False by (simp add: digits.simps [of b n])
  qed
qed

lemma parseDigits_big: "2 \<le> b \<Longrightarrow> b \<le> 16 \<Longrightarrow> mx < n \<Longrightarrow> parseDigits z b mx (digits b n) 0 = Inl ErrRange"
proof (induction b n rule: digits.induct)
  case (1 b n)
  show ?case
  proof (cases "n < b")
    case True
    then show ?thesis using "1.prems" digitVal_digitChar [of n] digitChar_plain [of n] by (simp add: digits.simps [of b n])
  next
    case False
    have m: "n mod b < 16" "n mod b < b" using "1.prems" by (simp_all add: order.strict_trans2 [OF mod_less_divisor])
    show ?thesis
    proof (cases "mx < n div b")
      case True
      then have "parseDigits z b mx (digits b (n div b)) 0 = Inl ErrRange" using 1 False by simp
      then show ?thesis using False "1.prems" by (subst digits.simps) (simp add: parseDigits_append)
    next
      case le: False
      then have "parseDigits z b mx (digits b (n div b)) 0 = Inr (n div b)"
        using "1.prems" by (intro parseDigits_digits) simp_all
      then show ?thesis
        using False "1.prems" digitVal_digitChar [OF m(1)] digitChar_plain [OF m(1)] m(2)
        by (subst digits.simps) (simp add: parseDigits_append not_le)
    qed
  qed
qed

text \<open>Flash offsets read back: the hexadecimal rendering of a 32-bit offset with its prefix,
  as the build writes it, and the decimal one are parsed by \<open>ParseUint\<close> with base 0 to the offset,
  and larger numbers are an error.\<close>
theorem ParseUint_roundtrip:
  "ParseUint (''0x'' @ digits 16 (unat v)) = Inr v \<and> ParseUint (digits 10 (unat v)) = Inr v
   \<and> ParseUint (''0x'' @ digits 16 (2 ^ 32 + n)) = Inl ErrRange"
proof (intro conjI)
  have le: "unat v \<le> 2 ^ 32 - 1" using unsigned_less [of v, where ?'a = nat] by simp
  note u = digits_no_underscore
  show "ParseUint (''0x'' @ digits 16 (unat v)) = Inr v"
    using parseDigits_digits [of 16 "unat v" "2 ^ 32 - 1" True] le
    by (simp add: ParseUint_def parseUint0_def basePrefix_def lowerChar_def Suc_le_eq u)
  show "ParseUint (digits 10 (unat v)) = Inr v"
  proof (cases "unat v = 0")
    case True
    then have "digits 10 (unat v) = ''0''" by (simp add: digits.simps digitChar_def char_of_def bit_Suc_0_iff)
    then show ?thesis using True by (simp add: ParseUint_def parseUint0_def basePrefix_def unat_eq_zero)
  next
    case False
    then show ?thesis
      using parseDigits_digits [of 10 "unat v" "2 ^ 32 - 1" True] le
      by (simp add: ParseUint_def parseUint0_def hd_digits u)
  qed
  show "ParseUint (''0x'' @ digits 16 (2 ^ 32 + n)) = Inl ErrRange"
    using parseDigits_big [of 16 "2 ^ 32 - 1" "2 ^ 32 + n" True]
    by (simp add: ParseUint_def parseUint0_def basePrefix_def lowerChar_def Suc_le_eq)
qed

section \<open>path/filepath\<close>

definition pathBase :: "string \<Rightarrow> string" where
  "pathBase s =
     (if s = [] then ''.''
      else let t = rev (dropWhile (\<lambda>c. c = CHR ''/'') (rev s));
               u = rev (takeWhile (\<lambda>c. c \<noteq> CHR ''/'') (rev t))
           in if u = [] then ''/'' else u)"

fun splitSlash :: "string \<Rightarrow> string \<Rightarrow> string list" where
  "splitSlash w [] = [rev w]"
| "splitSlash w (c # s) = (if c = CHR ''/'' then rev w # splitSlash [] s else splitSlash (c # w) s)"

text \<open>\<open>Clean\<close>: the elements kept so far are a stack, the last one first.\<close>

fun cleanElems :: "bool \<Rightarrow> string list \<Rightarrow> string list \<Rightarrow> string list" where
  "cleanElems rooted st [] = rev st"
| "cleanElems rooted st (e # es) =
     (if e = [] \<or> e = ''.'' then cleanElems rooted st es
      else if e = ''..'' then
        (case st of
           x # st' \<Rightarrow> if x \<noteq> ''..'' then cleanElems rooted st' es else cleanElems rooted (e # st) es
         | [] \<Rightarrow> if rooted then cleanElems rooted st es else cleanElems rooted [e] es)
      else cleanElems rooted (e # st) es)"

fun joinSlash :: "string list \<Rightarrow> string" where
  "joinSlash [] = []"
| "joinSlash [e] = e"
| "joinSlash (e # es) = e @ ''/'' @ joinSlash es"

definition pathClean :: "string \<Rightarrow> string" where
  "pathClean s =
     (if s = [] then ''.''
      else let rooted = hd s = CHR ''/''; p = joinSlash (cleanElems rooted [] (splitSlash [] s))
           in if rooted then ''/'' @ p else if p = [] then ''.'' else p)"

definition pathJoin :: "string \<Rightarrow> string \<Rightarrow> string" where
  "pathJoin a b =
     (if a \<noteq> [] then pathClean (a @ ''/'' @ b) else if b \<noteq> [] then pathClean b else [])"

definition pathDir :: "string \<Rightarrow> string" where
  "pathDir s = pathClean (rev (dropWhile (\<lambda>c. c \<noteq> CHR ''/'') (rev s)))"

lemma pathClean_examples:
  "pathJoin ''build/'' ''bootloader/bootloader.bin'' = ''build/bootloader/bootloader.bin''"
  "pathJoin ''build'' ''../x//./y'' = ''x/y''" "pathClean ''/../a/b/..'' = ''/a''" "pathClean ''a/../../b'' = ''../b''"
  by code_simp+

text \<open>The base of a path has no slash, unless it is the root, and is not empty.\<close>

lemma pathBase_plain: "CHR ''/'' \<in> set (pathBase s) \<Longrightarrow> pathBase s = ''/''" and pathBase_ne: "pathBase s \<noteq> []"
  by (auto simp: pathBase_def Let_def dest: set_takeWhileD split: if_splits)

end
