(* ===== verification/FlasherArgs.thy ===== *)
theory FlasherArgs
  imports GoText "HOL-Library.Multiset"
begin

text \<open>
  The build metadata (\<open>partition/flasherargs.go\<close>): \<open>flasher_args.json\<close> and the images it
  names. The file system and the JSON decoder are arguments; so is the order in which Go iterates
  over the \<open>flash_files\<close> map, which is different from run to run.
\<close>

section \<open>Loading\<close>

record flasherArgs =
  FlashMode :: string
  FlashSize :: string
  FlashFreq :: string
  FlashFiles :: "string \<rightharpoonup> string"
  ExtraChip :: string
  ExtraStub :: bool
  ExtraBefore :: string
  ExtraAfter :: string

record flashFile =
  ffOffset :: u32
  ffName :: string
  ffData :: bytes

datatype ('e, 'j) argsErr = ReadArgs 'e | ParseArgs 'j | BadOffset string numErr | ReadImage string 'e

type_synonym 'e readFile = "string \<Rightarrow> 'e + bytes"
type_synonym iteration = "(string \<rightharpoonup> string) \<Rightarrow> (string \<times> string) list"

fun loadFiles :: "'e readFile \<Rightarrow> string \<Rightarrow> (string \<times> string) list \<Rightarrow> flashFile list \<Rightarrow> ('e, 'j) argsErr + flashFile list" where
  "loadFiles rd buildDir [] files = Inr files"
| "loadFiles rd buildDir ((offStr, rel) # r) files =
     (case ParseUint offStr of
        Inl e \<Rightarrow> Inl (BadOffset offStr e)
      | Inr off \<Rightarrow>
          (case rd (pathJoin buildDir rel) of
             Inl e \<Rightarrow> Inl (ReadImage rel e)
           | Inr data \<Rightarrow> loadFiles rd buildDir r (files @ [\<lparr>ffOffset = off, ffName = rel, ffData = data\<rparr>])))"

text \<open>
  \<open>sort.Slice\<close> by offset. The order it gives to equal offsets is not documented; this one keeps
  theirs, as the insertion sort it uses for up to 12 elements does.
\<close>

definition sortFiles :: "flashFile list \<Rightarrow> flashFile list" where
  "sortFiles = sort_key ffOffset"

definition Load :: "'e readFile \<Rightarrow> (bytes \<Rightarrow> 'j + flasherArgs) \<Rightarrow> iteration \<Rightarrow> string \<Rightarrow>
    ('e, 'j) argsErr + flasherArgs \<times> flashFile list" where
  "Load rd unjson iter buildDir =
     (case rd (pathJoin buildDir ''flasher_args.json'') of
        Inl e \<Rightarrow> Inl (ReadArgs e)
      | Inr raw \<Rightarrow>
          (case unjson raw of
             Inl e \<Rightarrow> Inl (ParseArgs e)
           | Inr fa \<Rightarrow>
               (case loadFiles rd buildDir (iter (FlashFiles fa)) [] of
                  Inl e \<Rightarrow> Inl e
                | Inr files \<Rightarrow> Inr (fa, sortFiles files))))"

section \<open>Flash size\<close>

definition FlashSizeBytes :: "string \<Rightarrow> u32" where
  "FlashSizeBytes s =
     (let s = ToUpper (TrimSpace s);
          (mult, s) = (if HasSuffix s ''MB'' then (1024 * 1024, take (length s - 2) s)
                       else if HasSuffix s ''KB'' then (1024, take (length s - 2) s)
                       else (1, s))
      in case Atoi (TrimSpace s) of
           None \<Rightarrow> 4 * 1024 * 1024
         | Some n \<Rightarrow> word_of_int n * mult)"

text \<open>Decimal numbers pass the trimming and upper-casing unchanged.\<close>

lemma digitChar_upper: "d < 10 \<Longrightarrow> upperChar (digitChar d) = digitChar d"
  by (simp add: upperChar_def code_digitChar)

lemma decimal_digits: "c \<in> set (digits 10 n) \<Longrightarrow> \<exists>d < 10. c = digitChar d"
proof (induction "10 :: nat" n rule: digits.induct)
  case (1 n)
  then show ?case by (cases "n < 10") (simp add: digits.simps [of 10 n], force, force simp: digits.simps [of 10 n])
qed

lemma ToUpper_digits: "ToUpper (digits 10 n) = digits 10 n"
proof -
  have "map upperChar xs = xs" if "\<And>c. c \<in> set xs \<Longrightarrow> \<exists>d < 10. c = digitChar d" for xs
    by (rule map_idI) (use that digitChar_upper in blast)
  then show ?thesis using decimal_digits by (simp add: ToUpper_def)
qed

lemma TrimSpace_id: "s \<noteq> [] \<Longrightarrow> \<not> isSpace (hd s) \<Longrightarrow> \<not> isSpace (last s) \<Longrightarrow> TrimSpace s = s"
proof -
  assume s: "s \<noteq> []" "\<not> isSpace (hd s)" "\<not> isSpace (last s)"
  have d: "xs \<noteq> [] \<Longrightarrow> \<not> isSpace (hd xs) \<Longrightarrow> dropWhile isSpace xs = xs" for xs by (cases xs) simp_all
  show ?thesis using s by (simp add: TrimSpace_def d hd_rev)
qed

lemma digits_nospace: "c \<in> set (digits 10 n) \<Longrightarrow> \<not> isSpace c \<and> c \<noteq> CHR ''-'' \<and> c \<noteq> CHR ''+''"
proof -
  assume "c \<in> set (digits 10 n)"
  then obtain d where d: "d < 10" "c = digitChar d" using decimal_digits by blast
  then have "d < 16" by simp
  from digitChar_plain [OF this] d(2) show ?thesis by simp
qed

lemma Atoi_digits: "n < 2 ^ 63 \<Longrightarrow> Atoi (digits 10 n) = Some (int n)"
proof -
  assume n: "n < 2 ^ 63"
  have "hd (digits 10 n) \<in> set (digits 10 n)" by simp
  then have "hd (digits 10 n) \<noteq> CHR ''-''" "hd (digits 10 n) \<noteq> CHR ''+''" using digits_nospace by blast+
  then show ?thesis using parseDigits_digits [of 10 n "2 ^ 63 - 1" False] n by (simp add: Atoi_def)
qed

lemma TrimSpace_digits: "TrimSpace (digits 10 n @ t) = digits 10 n @ t" if "t = [] \<or> \<not> isSpace (last t)"
proof (rule TrimSpace_id)
  show "\<not> isSpace (hd (digits 10 n @ t))" using digits_nospace [OF hd_in_set [OF digits_ne]] by simp
  show "\<not> isSpace (last (digits 10 n @ t))" using that digits_nospace [OF last_in_set [OF digits_ne]] by (cases "t = []") simp_all
qed simp

text \<open>C28. Flash sizes: a decimal number with the unit MB or KB, or without one, is converted to
  bytes in 32-bit arithmetic, so that it is exact below 4 GiB and wraps above (4096MB gives 0);
  in particular the result is the number times the unit modulo \<open>2 ^ 32\<close>.\<close>
theorem FlashSizeBytes_units:
  assumes "n < 2 ^ 63"
  shows "unat (FlashSizeBytes (digits 10 n @ ''MB'')) = n * 2 ^ 20 mod 2 ^ 32
    \<and> unat (FlashSizeBytes (digits 10 n @ ''KB'')) = n * 2 ^ 10 mod 2 ^ 32
    \<and> unat (FlashSizeBytes (digits 10 n)) = n mod 2 ^ 32"
proof -
  have sp: "\<not> isSpace CHR ''B''" by (simp add: isSpace_def)
  have up: "ToUpper (digits 10 n @ t) = digits 10 n @ ToUpper t" for t
    using ToUpper_digits by (simp add: ToUpper_def)
  have unit: "ToUpper ''MB'' = ''MB''" "ToUpper ''KB'' = ''KB''" by (simp_all add: ToUpper_def upperChar_def)
  have last: "\<not> HasSuffix (digits 10 n) [c, CHR ''B'']" for c
  proof
    assume "HasSuffix (digits 10 n) [c, CHR ''B'']"
    then have "CHR ''B'' \<in> set (digits 10 n)" by (metis HasSuffix_def in_set_dropD list.set_intros(1,2))
    then obtain d where "d < 10" "CHR ''B'' = digitChar d" using decimal_digits by blast
    then have "of_char CHR ''B'' = (48 + d :: nat)" by (simp add: code_digitChar)
    then show False using \<open>d < 10\<close> by simp
  qed
  have suffix: "HasSuffix (digits 10 n @ t) t" "take (length (digits 10 n @ [a, b]) - 2) (digits 10 n @ [a, b]) = digits 10 n" for t a b
    by (simp_all add: HasSuffix_def)
  have kb: "\<not> HasSuffix (digits 10 n @ ''KB'') ''MB''" by (simp add: HasSuffix_def)
  note trim = TrimSpace_digits [of "''MB''" n] TrimSpace_digits [of "''KB''" n] TrimSpace_digits [of "[]" n]
  have "FlashSizeBytes (digits 10 n @ ''MB'') = word_of_int (int n) * (1024 * 1024)"
    using trim sp by (simp add: FlashSizeBytes_def up unit suffix Atoi_digits [OF assms])
  moreover have "FlashSizeBytes (digits 10 n @ ''KB'') = word_of_int (int n) * 1024"
    using trim sp by (simp add: FlashSizeBytes_def up unit suffix kb Atoi_digits [OF assms])
  moreover have "FlashSizeBytes (digits 10 n) = word_of_int (int n)"
    using trim sp by (simp add: FlashSizeBytes_def ToUpper_digits last Atoi_digits [OF assms])
  moreover have w: "unat (word_of_int (int n) * of_nat m :: u32) = n * m mod 2 ^ 32" for m
    by (simp only: of_int_of_nat_eq of_nat_mult [symmetric] unat_of_nat) simp
  ultimately show ?thesis using w [of "2 ^ 20"] w [of "2 ^ 10"] w [of 1] by simp
qed

lemma FlashSizeBytes_units_witness: "unat (FlashSizeBytes (digits 10 8 @ ''MB'')) = 0x800000 \<and> unat (FlashSizeBytes (digits 10 4096 @ ''MB'')) = 0"
  using FlashSizeBytes_units [of 8] FlashSizeBytes_units [of 4096] by simp

section \<open>What Load returns\<close>

text \<open>The iteration orders Go may choose for a map: every key once, with its value.\<close>

definition iterates :: "(string \<times> string) list \<Rightarrow> (string \<rightharpoonup> string) \<Rightarrow> bool" where
  "iterates kvs m \<longleftrightarrow> distinct (map fst kvs) \<and> map_of kvs = m"

text \<open>The image a map entry stands for, if its offset parses and its file can be read.\<close>

definition imageOf :: "'e readFile \<Rightarrow> string \<Rightarrow> string \<times> string \<Rightarrow> flashFile option" where
  "imageOf rd buildDir = (\<lambda>(offStr, rel). case (ParseUint offStr, rd (pathJoin buildDir rel)) of
     (Inr off, Inr data) \<Rightarrow> Some \<lparr>ffOffset = off, ffName = rel, ffData = data\<rparr> | _ \<Rightarrow> None)"

lemma loadFiles_ok:
  "loadFiles rd d kvs files = Inr out \<longleftrightarrow> (\<forall>kv \<in> set kvs. imageOf rd d kv \<noteq> None) \<and> out = files @ map (the \<circ> imageOf rd d) kvs"
  by (induction rd d kvs files rule: loadFiles.induct) (auto simp: imageOf_def split: sum.split)

lemma iterates_set: "iterates kvs m \<Longrightarrow> (k, v) \<in> set kvs \<longleftrightarrow> m k = Some v"
  by (auto simp: iterates_def map_of_eq_Some_iff)

lemma iterates_mset:
  assumes "iterates a m" and "iterates b m"
  shows "mset a = mset b"
proof -
  have "x \<in> set a \<longleftrightarrow> x \<in> set b" for x
    using iterates_set [OF assms(1), of "fst x" "snd x"] iterates_set [OF assms(2), of "fst x" "snd x"] by simp
  then have "set a = set b" by blast
  moreover have "distinct a" "distinct b" using assms by (simp_all add: iterates_def distinct_map)
  ultimately show ?thesis by (simp add: set_eq_iff_mset_eq_distinct)
qed

lemma imageOf_ok: "imageOf rd d (k, v) \<noteq> None \<longleftrightarrow> \<not> isl (ParseUint k) \<and> \<not> isl (rd (pathJoin d v))"
  by (auto simp: imageOf_def split: sum.split)

lemma imageOf_Some:
  "imageOf rd d (k, v) = Some f \<longleftrightarrow> ParseUint k = Inr (ffOffset f) \<and> rd (pathJoin d v) = Inr (ffData f) \<and> ffName f = v"
  by (cases f) (auto simp: imageOf_def split: sum.split)

lemma Load_conv:
  "Load rd unjson iter d = Inr (fa, files) \<longleftrightarrow> (\<exists>raw. rd (pathJoin d ''flasher_args.json'') = Inr raw \<and> unjson raw = Inr fa
     \<and> (\<forall>kv \<in> set (iter (FlashFiles fa)). imageOf rd d kv \<noteq> None)
     \<and> files = sortFiles (map (the \<circ> imageOf rd d) (iter (FlashFiles fa))))"
proof -
  have c: "(case x of Inl e \<Rightarrow> Inl e | Inr out \<Rightarrow> Inr (fa', g out)) = Inr (fa, files) \<longleftrightarrow> (\<exists>out. x = Inr out \<and> fa' = fa \<and> files = g out)"
    for x :: "('e, 'j) argsErr + flashFile list" and fa' fa files and g :: "flashFile list \<Rightarrow> flashFile list"
    by (cases x) auto
  show ?thesis
  proof (cases "rd (pathJoin d ''flasher_args.json'')")
    case (Inr raw)
    then show ?thesis by (cases "unjson raw") (auto simp: Load_def c loadFiles_ok)
  qed (simp add: Load_def)
qed

text \<open>C29. What a build directory loads to: the images come sorted by flash offset, one for each
  entry of \<open>flash_files\<close>, with the offset the key parses to, the name of the entry and the
  contents of that file under the build directory.\<close>
theorem Load_images:
  assumes "Load rd unjson iter d = Inr (fa, files)" and "iterates (iter (FlashFiles fa)) (FlashFiles fa)"
  shows "sorted (map ffOffset files) \<and> length files = card (dom (FlashFiles fa))
    \<and> set files = {f. \<exists>k. FlashFiles fa k = Some (ffName f) \<and> ParseUint k = Inr (ffOffset f) \<and> rd (pathJoin d (ffName f)) = Inr (ffData f)}"
proof -
  let ?kvs = "iter (FlashFiles fa)"
  from assms(1) have ok: "\<forall>kv \<in> set ?kvs. imageOf rd d kv \<noteq> None"
    and files: "files = sortFiles (map (the \<circ> imageOf rd d) ?kvs)" by (auto simp: Load_conv)
  have "dom (FlashFiles fa) = fst ` set ?kvs" using assms(2) by (simp add: iterates_def dom_map_of_conv_image_fst [symmetric])
  then have "length files = card (dom (FlashFiles fa))"
    using assms(2) by (simp add: files sortFiles_def iterates_def distinct_card flip: set_map)
  moreover have "f \<in> set files \<longleftrightarrow> (\<exists>k. FlashFiles fa k = Some (ffName f) \<and> ParseUint k = Inr (ffOffset f) \<and> rd (pathJoin d (ffName f)) = Inr (ffData f))" for f
  proof -
    have "f \<in> set files \<longleftrightarrow> (\<exists>kv \<in> set ?kvs. imageOf rd d kv = Some f)" using ok by (force simp: files sortFiles_def)
    also have "\<dots> \<longleftrightarrow> (\<exists>k v. FlashFiles fa k = Some v \<and> imageOf rd d (k, v) = Some f)"
      using iterates_set [OF assms(2)] by fast
    finally show ?thesis by (auto simp: imageOf_Some)
  qed
  ultimately show ?thesis by (auto simp: files sortFiles_def)
qed

text \<open>C30. The random order of Go's map iteration does not matter: if a build directory loads and
  its images have different offsets, it loads to the same images in the same order whatever order
  the map is iterated in.\<close>
theorem Load_order_independent:
  assumes "Load rd unjson iter d = Inr (fa, files)" and "distinct (map ffOffset files)"
    and "iterates (iter (FlashFiles fa)) (FlashFiles fa)" and "iterates (iter' (FlashFiles fa)) (FlashFiles fa)"
  shows "Load rd unjson iter' d = Inr (fa, files)"
proof -
  let ?m = "FlashFiles fa"
  let ?img = "map (the \<circ> imageOf rd d)"
  from assms(1) have files: "files = sortFiles (?img (iter ?m))" by (auto simp: Load_conv)
  have eq: "mset (iter ?m) = mset (iter' ?m)" by (rule iterates_mset [OF assms(3,4)])
  have "sortFiles (?img (iter' ?m)) = files"
    unfolding sortFiles_def
  proof (rule sort_key_inj_key_eq)
    show m: "mset (?img (iter' ?m)) = mset files" using eq by (simp add: files sortFiles_def)
    show "inj_on ffOffset (set (?img (iter' ?m)))" using assms(2) mset_eq_setD [OF m] by (simp add: distinct_map)
    show "sorted (map ffOffset files)" by (simp add: files sortFiles_def)
  qed
  then show ?thesis using assms(1) mset_eq_setD [OF eq] by (auto simp: Load_conv)
qed

text \<open>Loading is all or nothing: once \<open>flasher_args.json\<close> is read and parsed, \<open>Load\<close> returns
  an error exactly when an offset does not parse or an image cannot be read, in whatever order
  the map is iterated, and no image is left out silently.\<close>
theorem Load_fails:
  assumes "rd (pathJoin d ''flasher_args.json'') = Inr raw" and "unjson raw = Inr fa"
    and "iterates (iter (FlashFiles fa)) (FlashFiles fa)"
  shows "isl (Load rd unjson iter d) \<longleftrightarrow>
    (\<exists>k v. FlashFiles fa k = Some v \<and> (isl (ParseUint k) \<or> isl (rd (pathJoin d v))))"
proof -
  have "\<not> isl (Load rd unjson iter d) \<longleftrightarrow> (\<exists>fa' files. Load rd unjson iter d = Inr (fa', files))"
    by (cases "Load rd unjson iter d") auto
  also have "\<dots> \<longleftrightarrow> (\<forall>kv \<in> set (iter (FlashFiles fa)). imageOf rd d kv \<noteq> None)"
    using assms(1,2) by (auto simp: Load_conv)
  also have "\<dots> \<longleftrightarrow> (\<forall>k v. FlashFiles fa k = Some v \<longrightarrow> \<not> isl (ParseUint k) \<and> \<not> isl (rd (pathJoin d v)))"
    unfolding Ball_def split_paired_All iterates_set [OF assms(3)] imageOf_ok ..
  finally show ?thesis by blast
qed

text \<open>A build directory for the witnesses.\<close>

definition demoArgs :: flasherArgs where
  "demoArgs = \<lparr>FlashMode = ''dio'', FlashSize = ''8MB'', FlashFreq = ''80m'',
     FlashFiles = [''0x0'' \<mapsto> ''boot.bin'', ''0x10000'' \<mapsto> ''app.bin''], ExtraChip = ''esp32s3'', ExtraStub = True,
     ExtraBefore = ''default_reset'', ExtraAfter = ''hard_reset''\<rparr>"

definition demoRead :: "string \<Rightarrow> unit + bytes" where
  "demoRead p = (if p = ''build/flasher_args.json'' then Inr [123, 125] else if p = ''build/boot.bin'' then Inr [0xE9, 1]
     else if p = ''build/app.bin'' then Inr [0xE9, 2, 3] else Inl ())"

definition demoJson :: "bytes \<Rightarrow> unit + flasherArgs" where
  "demoJson b = (if b = [123, 125] then Inr demoArgs else Inl ())"

definition demoOrder :: "bool \<Rightarrow> iteration" where
  "demoOrder flip m = (if m = FlashFiles demoArgs then
     (if flip then rev else id) [(''0x10000'', ''app.bin''), (''0x0'', ''boot.bin'')] else [])"

definition demoFiles :: "flashFile list" where
  "demoFiles = [\<lparr>ffOffset = 0, ffName = ''boot.bin'', ffData = [0xE9, 1]\<rparr>, \<lparr>ffOffset = 0x10000, ffName = ''app.bin'', ffData = [0xE9, 2, 3]\<rparr>]"

lemma demo_iterates: "iterates (demoOrder b (FlashFiles demoArgs)) (FlashFiles demoArgs)"
  by (auto simp: iterates_def demoOrder_def demoArgs_def fun_eq_iff)

lemma demo_paths:
  "pathJoin ''build'' ''flasher_args.json'' = ''build/flasher_args.json''"
  "pathJoin ''build'' ''boot.bin'' = ''build/boot.bin''" "pathJoin ''build'' ''app.bin'' = ''build/app.bin''"
  by code_simp+

lemma demo_offsets: "ParseUint ''0x0'' = Inr 0" "ParseUint ''0x10000'' = Inr 0x10000"
  by (simp_all add: ParseUint_def parseUint0_def basePrefix_def lowerChar_def digitVal_def)

lemma demo_Load: "Load demoRead demoJson (demoOrder b) ''build'' = Inr (demoArgs, demoFiles)"
proof -
  have rd: "demoRead ''build/flasher_args.json'' = Inr [123, 125]" "demoRead ''build/boot.bin'' = Inr [0xE9, 1]"
    "demoRead ''build/app.bin'' = Inr [0xE9, 2, 3]" by (simp_all add: demoRead_def)
  have j: "demoJson [123, 125] = Inr demoArgs" by (simp add: demoJson_def)
  have "loadFiles demoRead ''build'' (demoOrder b (FlashFiles demoArgs)) [] = (Inr (if b then demoFiles else rev demoFiles) :: (unit, unit) argsErr + _)"
    by (cases b) (simp_all add: demoOrder_def demo_paths demo_offsets rd demoFiles_def)
  moreover have "sortFiles (if b then demoFiles else rev demoFiles) = demoFiles"
    by (cases b) (simp_all add: demoFiles_def sortFiles_def)
  ultimately show ?thesis by (simp only: Load_def demo_paths rd j sum.case)
qed

lemma Load_images_witness:
  "Load demoRead demoJson (demoOrder False) ''build'' = Inr (demoArgs, demoFiles)
    \<and> sorted (map ffOffset demoFiles) \<and> length demoFiles = card (dom (FlashFiles demoArgs))"
  using Load_images [OF demo_Load demo_iterates] demo_Load by blast

lemma Load_order_independent_witness: "Load demoRead demoJson (demoOrder True) ''build'' = Inr (demoArgs, demoFiles)"
  by (rule Load_order_independent [where iter = "demoOrder False", OF demo_Load]) (simp_all add: demo_iterates demoFiles_def)

lemma Load_fails_witness: "\<not> isl (Load demoRead demoJson (demoOrder True) ''build'')"
proof -
  have r: "demoRead (pathJoin ''build'' ''flasher_args.json'') = Inr [123, 125]" "demoJson [123, 125] = Inr demoArgs"
    by (simp_all add: demo_paths demoRead_def demoJson_def)
  show ?thesis
    by (subst Load_fails [where iter = "demoOrder True" and rd = demoRead and unjson = demoJson, OF r demo_iterates])
      (auto simp: demoArgs_def demo_paths demo_offsets demoRead_def split: if_splits)
qed

end
