(* ===== verification/Bundle.thy ===== *)
theory Bundle
  imports FlasherArgs Sha256 "HOL-Library.AList" "HOL-Library.List_Lexorder" "HOL-Library.Char_ord"
begin

text \<open>
  Flash archives (\<open>bundle/bundle.go\<close>): a manifest and the images, packed as a gzipped tar and
  opened again with a check of every image's SHA-256. The tar and gzip writers, the archive
  reader and the JSON codec are arguments.
\<close>

section \<open>Data\<close>

definition schemaVersion :: int where "schemaVersion = 1"

record bundleFile =
  fRole :: string
  fName :: string
  fOffset :: u32
  fSize :: int
  fSHA256 :: string

record manifest =
  mSchema :: int
  mChip :: string
  mFlashMode :: string
  mFlashSize :: string
  mFlashFreq :: string
  mVersion :: string
  mCreatedAt :: string
  mFiles :: "bundleFile list"
  mSignature :: string

text \<open>The map of file contents as an association list with distinct keys.\<close>

record fbundle =
  Manifest :: manifest
  bdata :: "(string \<times> bytes) list"

definition emptyManifest :: manifest where
  "emptyManifest = \<lparr>mSchema = 0, mChip = [], mFlashMode = [], mFlashSize = [], mFlashFreq = [], mVersion = [], mCreatedAt = [],
     mFiles = [], mSignature = []\<rparr>"

section \<open>Building a bundle\<close>

definition roleOf :: "string \<Rightarrow> string" where
  "roleOf name =
     (let n = ToLower name in
      if Contains n ''bootloader'' then ''bootloader''
      else if Contains n ''partition-table'' \<or> Contains n ''partition_table'' then ''partition-table''
      else if Contains n ''ota_data'' \<or> Contains n ''otadata'' then ''otadata''
      else if Contains n ''nvs'' then ''nvs''
      else ''app'')"

definition addFile :: "flashFile \<Rightarrow> fbundle \<Rightarrow> fbundle" where
  "addFile f b =
     (let name = pathBase (ffName f);
          sum = sha256Sum (ffData f)
      in b\<lparr>Manifest := (Manifest b)\<lparr>mFiles := mFiles (Manifest b) @
             [\<lparr>fRole = roleOf name, fName = name, fOffset = ffOffset f, fSize = int (length (ffData f)), fSHA256 = hexEncode sum\<rparr>]\<rparr>,
           bdata := AList.update name (ffData f) (bdata b)\<rparr>)"

definition FromBuildDir :: "'e readFile \<Rightarrow> (bytes \<Rightarrow> 'j + flasherArgs) \<Rightarrow> iteration \<Rightarrow> string \<Rightarrow> string \<Rightarrow> string \<Rightarrow>
    ('e, 'j) argsErr + fbundle" where
  "FromBuildDir rd unjson iter buildDir version createdAt =
     (case Load rd unjson iter buildDir of
        Inl e \<Rightarrow> Inl e
      | Inr (fa, files) \<Rightarrow>
          Inr (fold addFile files
            \<lparr>Manifest = emptyManifest\<lparr>mSchema := schemaVersion, mChip := ExtraChip fa, mFlashMode := FlashMode fa,
               mFlashSize := FlashSize fa, mFlashFreq := FlashFreq fa, mVersion := version, mCreatedAt := createdAt\<rparr>,
             bdata = []\<rparr>))"

section \<open>Packing\<close>

text \<open>The tar writer on top of the gzip writer: its state, and what the code calls.\<close>

record ('w, 'm, 'o) archiver =
  arNew :: 'w
  arHeader :: "string \<Rightarrow> int \<Rightarrow> 'w \<Rightarrow> 'm + 'w"
  arWrite :: "bytes \<Rightarrow> 'w \<Rightarrow> 'm + 'w"
  arClose :: "'w \<Rightarrow> 'm + 'w"
  arGzClose :: "'w \<Rightarrow> 'm + 'o"

text \<open>\<open>if err := x; err != nil { return err }; next\<close>\<close>

fun bindS :: "'m + 'a \<Rightarrow> ('a \<Rightarrow> 'm + 'b) \<Rightarrow> 'm + 'b" where
  "bindS (Inr a) next_step = next_step a"
| "bindS (Inl er) next_step = Inl er"

definition writeTar :: "('w, 'm, 'o) archiver \<Rightarrow> string \<Rightarrow> bytes \<Rightarrow> 'w \<Rightarrow> 'm + 'w" where
  "writeTar a name data w = bindS (arHeader a name (int (length data)) w) (arWrite a data)"

text \<open>\<open>b.data[n]\<close>; a missing key gives nil.\<close>

definition dataOf :: "fbundle \<Rightarrow> string \<Rightarrow> bytes" where
  "dataOf b n = (case map_of (bdata b) n of Some d \<Rightarrow> d | None \<Rightarrow> [])"

fun packFiles :: "('w, 'm, 'o) archiver \<Rightarrow> fbundle \<Rightarrow> string list \<Rightarrow> 'w \<Rightarrow> 'm + 'w" where
  "packFiles a b [] w = Inr w"
| "packFiles a b (n # ns) w = bindS (writeTar a (''files/'' @ n) (dataOf b n) w) (packFiles a b ns)"

definition Pack :: "('w, 'm, 'o) archiver \<Rightarrow> (manifest \<Rightarrow> 'm + bytes) \<Rightarrow> fbundle \<Rightarrow> 'm + 'o" where
  "Pack a marshal b =
     bindS (marshal (Manifest b)) (\<lambda>mj.
     bindS (writeTar a ''manifest.json'' mj (arNew a)) (\<lambda>w.
     bindS (packFiles a b (sort (map fst (bdata b))) w) (\<lambda>w.
     bindS (arClose a w) (arGzClose a))))"

section \<open>Opening\<close>

text \<open>What reading an archive yields: its files in order, up to an error of the reader or the end.\<close>

datatype 'm tarItem = TarFile string bytes | TarErr 'm

datatype ('m, 'j) openErr = OpenGzip 'm | ReadArchive 'm | ParseManifest 'j | NoManifest | MissingFile string | ShaMismatch string

fun openLoop :: "(bytes \<Rightarrow> manifest \<Rightarrow> 'j + manifest) \<Rightarrow> 'm tarItem list \<Rightarrow> fbundle \<Rightarrow> bool \<Rightarrow> ('m, 'j) openErr + fbundle \<times> bool" where
  "openLoop unm [] b haveManifest = Inr (b, haveManifest)"
| "openLoop unm (TarErr e # r) b haveManifest = Inl (ReadArchive e)"
| "openLoop unm (TarFile name data # r) b haveManifest =
     (if name = ''manifest.json'' then
        (case unm data (Manifest b) of
           Inl e \<Rightarrow> Inl (ParseManifest e)
         | Inr m \<Rightarrow> openLoop unm r (b\<lparr>Manifest := m\<rparr>) True)
      else if HasPrefix name ''files/'' then
        openLoop unm r (b\<lparr>bdata := AList.update (TrimPrefix name ''files/'') data (bdata b)\<rparr>) haveManifest
      else openLoop unm r b haveManifest)"

fun checkFiles :: "bundleFile list \<Rightarrow> fbundle \<Rightarrow> ('m, 'j) openErr + fbundle" where
  "checkFiles [] b = Inr b"
| "checkFiles (f # fs) b =
     (case map_of (bdata b) (fName f) of
        None \<Rightarrow> Inl (MissingFile (fName f))
      | Some d \<Rightarrow> if hexEncode (sha256Sum d) \<noteq> fSHA256 f then Inl (ShaMismatch (fName f)) else checkFiles fs b)"

definition OpenBundle :: "('o \<Rightarrow> 'm + 'm tarItem list) \<Rightarrow> (bytes \<Rightarrow> manifest \<Rightarrow> 'j + manifest) \<Rightarrow> 'o \<Rightarrow> ('m, 'j) openErr + fbundle" where
  "OpenBundle unarchive unm r =
     (case unarchive r of
        Inl e \<Rightarrow> Inl (OpenGzip e)
      | Inr items \<Rightarrow>
          (case openLoop unm items \<lparr>Manifest = emptyManifest, bdata = []\<rparr> False of
             Inl e \<Rightarrow> Inl e
           | Inr (b, haveManifest) \<Rightarrow>
               if \<not> haveManifest then Inl NoManifest else checkFiles (mFiles (Manifest b)) b))"

section \<open>Flashing from a bundle\<close>

definition BundleFlashFiles :: "fbundle \<Rightarrow> flashFile list" where
  "BundleFlashFiles b =
     sortFiles (map (\<lambda>f. \<lparr>ffOffset = fOffset f, ffName = fName f, ffData = dataOf b (fName f)\<rparr>) (mFiles (Manifest b)))"

definition BundleFile :: "fbundle \<Rightarrow> string \<Rightarrow> bytes option" where
  "BundleFile b name = map_of (bdata b) name"

end
