(* ===== verification/BundleSpec.thy ===== *)
theory BundleSpec
  imports Bundle
begin

text \<open>
  Bundles against the build directories they come from: what a bundle flashes, what opening one
  guarantees, and that a packed bundle opens to the same bundle.
\<close>

section \<open>Bundles from build directories\<close>

definition fileOf :: "flashFile \<Rightarrow> bundleFile" where
  "fileOf f = \<lparr>fRole = roleOf (pathBase (ffName f)), fName = pathBase (ffName f), fOffset = ffOffset f,
     fSize = int (length (ffData f)), fSHA256 = hexEncode (sha256Sum (ffData f))\<rparr>"

definition baseOf :: "flashFile \<Rightarrow> string" where
  "baseOf f = pathBase (ffName f)"

definition putBase :: "flashFile \<Rightarrow> (string \<rightharpoonup> bytes) \<Rightarrow> (string \<rightharpoonup> bytes)" where
  "putBase f m = m(baseOf f \<mapsto> ffData f)"

lemma fold_addFile:
  "Manifest (fold addFile files b) = (Manifest b)\<lparr>mFiles := mFiles (Manifest b) @ map fileOf files\<rparr>"
  "map_of (bdata (fold addFile files b)) = fold putBase files (map_of (bdata b))"
  "distinct (map fst (bdata b)) \<Longrightarrow> distinct (map fst (bdata (fold addFile files b)))"
  by (induction files arbitrary: b)
    (simp_all add: addFile_def fileOf_def putBase_def baseOf_def Let_def update_conv' distinct_update)

lemma fold_putBase_other: "k \<notin> baseOf ` set files \<Longrightarrow> fold putBase files m k = m k"
  by (induction files arbitrary: m) (auto simp: putBase_def)

lemma fold_putBase:
  "distinct (map baseOf files) \<Longrightarrow> f \<in> set files \<Longrightarrow> fold putBase files m (baseOf f) = Some (ffData f)"
  by (induction files arbitrary: m) (auto simp: fold_putBase_other putBase_def)

text \<open>The bundle of a build directory.\<close>

lemma FromBuildDir_conv:
  assumes "FromBuildDir rd unjson iter d v c = Inr b"
  obtains fa files where "Load rd unjson iter d = Inr (fa, files)" and "mFiles (Manifest b) = map fileOf files"
    and "map_of (bdata b) = fold putBase files Map.empty" and "distinct (map fst (bdata b))"
proof -
  from assms obtain fa files where l: "Load rd unjson iter d = Inr (fa, files)"
    by (auto simp: FromBuildDir_def split: sum.splits)
  with assms show ?thesis by (intro that [OF l]) (auto simp: FromBuildDir_def fold_addFile emptyManifest_def)
qed

text \<open>Well-formed bundles: every file of the manifest is there with its digest.\<close>

definition bundleOk :: "fbundle \<Rightarrow> bool" where
  "bundleOk b \<longleftrightarrow> distinct (map fst (bdata b)) \<and>
     (\<forall>f \<in> set (mFiles (Manifest b)). case map_of (bdata b) (fName f) of None \<Rightarrow> False | Some d \<Rightarrow> fSHA256 f = hexEncode (sha256Sum d))"

lemma FromBuildDir_ok:
  assumes "FromBuildDir rd unjson iter d v c = Inr b" and "Load rd unjson iter d = Inr (fa, files)"
    and "distinct (map baseOf files)"
  shows "bundleOk b"
proof (rule FromBuildDir_conv [OF assms(1)])
  fix fa' files' assume *: "Load rd unjson iter d = Inr (fa', files')" "mFiles (Manifest b) = map fileOf files'"
    "map_of (bdata b) = fold putBase files' Map.empty" "distinct (map fst (bdata b))"
  then have "files' = files" using assms(2) by simp
  then show ?thesis
    using * fold_putBase [OF assms(3)] by (auto simp: bundleOk_def fileOf_def baseOf_def)
qed

lemma sortFiles_sorted: "sorted (map ffOffset files) \<Longrightarrow> sortFiles files = files"
  by (simp add: sortFiles_def sort_key_id_if_sorted)

lemma Load_sorted: "Load rd unjson iter d = Inr (fa, files) \<Longrightarrow> sorted (map ffOffset files)"
  by (auto simp: Load_conv sortFiles_def)

lemma bundle_flashes:
  assumes "Load rd unjson iter d = Inr (fa, files)" and "FromBuildDir rd unjson iter d v c = Inr b"
    and "distinct (map (\<lambda>f. pathBase (ffName f)) files)"
  shows "BundleFlashFiles b = map (\<lambda>f. f\<lparr>ffName := pathBase (ffName f)\<rparr>) files"
proof (rule FromBuildDir_conv [OF assms(2)])
  fix fa' files' assume *: "Load rd unjson iter d = Inr (fa', files')" "mFiles (Manifest b) = map fileOf files'"
    "map_of (bdata b) = fold putBase files' Map.empty"
  then have eq: "files' = files" using assms(1) by simp
  have dist: "distinct (map baseOf files)" using assms(3) by (simp add: baseOf_def [abs_def])
  have "dataOf b (pathBase (ffName f)) = ffData f" if "f \<in> set files" for f
    using fold_putBase [OF dist that, of Map.empty] *(3) by (simp add: dataOf_def eq baseOf_def)
  then have "map (\<lambda>f. \<lparr>ffOffset = fOffset f, ffName = fName f, ffData = dataOf b (fName f)\<rparr>) (mFiles (Manifest b))
      = map (\<lambda>f. f\<lparr>ffName := pathBase (ffName f)\<rparr>) files"
    by (simp add: *(2) eq fileOf_def)
  moreover have "sorted (map ffOffset (map (\<lambda>f. f\<lparr>ffName := pathBase (ffName f)\<rparr>) files))"
    using Load_sorted [OF assms(1)] by (simp add: comp_def)
  ultimately show ?thesis unfolding BundleFlashFiles_def by (simp only: sortFiles_sorted)
qed

text \<open>C32. Flashing a bundle is flashing its build directory: if the images of a build directory
  have different base names, the bundle made from it flashes the same data at the same offsets in
  the same order.\<close>
theorem Bundle_flashes_build:
  assumes "Load rd unjson iter d = Inr (fa, files)" and "FromBuildDir rd unjson iter d v c = Inr b"
    and "distinct (map (\<lambda>f. pathBase (ffName f)) files)"
  shows "BundleFlashFiles b = map (\<lambda>f. f\<lparr>ffName := pathBase (ffName f)\<rparr>) files"
  by (rule bundle_flashes [OF assms])

lemma demo_bundle: "\<exists>b. FromBuildDir demoRead demoJson (demoOrder False) ''build'' v c = Inr b"
  by (simp add: FromBuildDir_def demo_Load)

lemma demo_bases: "pathBase ''boot.bin'' = ''boot.bin''" "pathBase ''app.bin'' = ''app.bin''"
  by (simp_all add: pathBase_def)

lemma Bundle_flashes_build_witness:
  "\<exists>b. FromBuildDir demoRead demoJson (demoOrder False) ''build'' ''1.0'' '''' = Inr b \<and> BundleFlashFiles b = demoFiles"
proof -
  obtain b where b: "FromBuildDir demoRead demoJson (demoOrder False) ''build'' ''1.0'' '''' = Inr b" using demo_bundle by blast
  have "distinct (map (\<lambda>f. pathBase (ffName f)) demoFiles)" by (simp add: demoFiles_def demo_bases)
  from Bundle_flashes_build [OF demo_Load b this] b show ?thesis by (simp add: demoFiles_def demo_bases)
qed

text \<open>C33. Images with the same base name collide: the bundle keeps only the contents of the last of
  them, so flashing it writes those contents at the offset of the earlier one as well.\<close>
theorem Bundle_collision:
  assumes "Load rd unjson iter d = Inr (fa, pre @ f # mid @ g # post)" and "FromBuildDir rd unjson iter d v c = Inr b"
    and "pathBase (ffName f) = pathBase (ffName g)" and "pathBase (ffName g) \<notin> (\<lambda>h. pathBase (ffName h)) ` set post"
  shows "\<lparr>ffOffset = ffOffset f, ffName = pathBase (ffName g), ffData = ffData g\<rparr> \<in> set (BundleFlashFiles b)"
proof (rule FromBuildDir_conv [OF assms(2)])
  let ?files = "pre @ f # mid @ g # post"
  fix fa' files' assume *: "Load rd unjson iter d = Inr (fa', files')" "mFiles (Manifest b) = map fileOf files'"
    "map_of (bdata b) = fold putBase files' Map.empty"
  then have eq: "files' = ?files" using assms(1) by simp
  have "fold putBase ?files m (pathBase (ffName g)) = Some (ffData g)" for m
    using assms(4) by (simp add: fold_putBase_other baseOf_def putBase_def)
  then have d: "dataOf b (pathBase (ffName g)) = ffData g" by (simp add: dataOf_def *(3) eq)
  have "fileOf f \<in> set (mFiles (Manifest b))" by (simp add: *(2) eq)
  then show ?thesis
    using d assms(3) by (auto simp: BundleFlashFiles_def sortFiles_def fileOf_def intro!: image_eqI [of _ _ "fileOf f"])
qed

text \<open>A build directory with the collision.\<close>

definition twiceArgs :: flasherArgs where
  "twiceArgs = demoArgs\<lparr>FlashFiles := [''0'' \<mapsto> ''a/x.bin'', ''4096'' \<mapsto> ''c/x.bin'']\<rparr>"

definition twiceRead :: "string \<Rightarrow> unit + bytes" where
  "twiceRead p = (if p = ''b/flasher_args.json'' then Inr [123, 125] else if p = ''b/a/x.bin'' then Inr [1]
     else if p = ''b/c/x.bin'' then Inr [2] else Inl ())"

definition twiceFiles :: "flashFile list" where
  "twiceFiles = [\<lparr>ffOffset = 0, ffName = ''a/x.bin'', ffData = [1]\<rparr>, \<lparr>ffOffset = 4096, ffName = ''c/x.bin'', ffData = [2]\<rparr>]"

lemma twice_paths:
  "pathJoin ''b'' ''flasher_args.json'' = ''b/flasher_args.json''" "pathJoin ''b'' ''a/x.bin'' = ''b/a/x.bin''"
  "pathJoin ''b'' ''c/x.bin'' = ''b/c/x.bin''" "pathBase ''a/x.bin'' = ''x.bin''" "pathBase ''c/x.bin'' = ''x.bin''"
  by code_simp+

lemma twice_Load:
  "Load twiceRead (\<lambda>_. Inr twiceArgs :: unit + _) (\<lambda>_. [(''0'', ''a/x.bin''), (''4096'', ''c/x.bin'')]) ''b'' = Inr (twiceArgs, twiceFiles)"
proof -
  have p: "ParseUint ''0'' = Inr 0" "ParseUint ''4096'' = Inr 4096"
    by (simp_all add: ParseUint_def parseUint0_def basePrefix_def lowerChar_def digitVal_def)
  have rd: "twiceRead ''b/flasher_args.json'' = Inr [123, 125]" "twiceRead ''b/a/x.bin'' = Inr [1]" "twiceRead ''b/c/x.bin'' = Inr [2]"
    by (simp_all add: twiceRead_def)
  have "loadFiles twiceRead ''b'' [(''0'', ''a/x.bin''), (''4096'', ''c/x.bin'')] [] = (Inr twiceFiles :: (unit, unit) argsErr + _)"
    by (simp add: p rd twice_paths twiceFiles_def)
  moreover have "sortFiles twiceFiles = twiceFiles" by (simp add: twiceFiles_def sortFiles_def)
  ultimately show ?thesis by (simp only: Load_def twice_paths rd sum.case)
qed

lemma Bundle_collision_witness:
  "\<exists>b. FromBuildDir twiceRead (\<lambda>_. Inr twiceArgs :: unit + _) (\<lambda>_. [(''0'', ''a/x.bin''), (''4096'', ''c/x.bin'')]) ''b'' [] [] = Inr b
     \<and> \<lparr>ffOffset = 0, ffName = ''x.bin'', ffData = [2]\<rparr> \<in> set (BundleFlashFiles b)"
proof -
  obtain b where b: "FromBuildDir twiceRead (\<lambda>_. Inr twiceArgs :: unit + _) (\<lambda>_. [(''0'', ''a/x.bin''), (''4096'', ''c/x.bin'')]) ''b'' [] [] = Inr b"
    by (simp add: FromBuildDir_def twice_Load)
  let ?f = "\<lparr>ffOffset = 0, ffName = ''a/x.bin'', ffData = [1]\<rparr>" and ?g = "\<lparr>ffOffset = 4096, ffName = ''c/x.bin'', ffData = [2]\<rparr>"
  have "twiceFiles = [] @ ?f # [] @ ?g # []" by (simp add: twiceFiles_def)
  note load = twice_Load [unfolded this]
  have "\<lparr>ffOffset = ffOffset ?f, ffName = pathBase (ffName ?g), ffData = ffData ?g\<rparr> \<in> set (BundleFlashFiles b)"
    by (rule Bundle_collision [OF load b]) (simp_all add: twice_paths)
  then show ?thesis using b by (simp add: twice_paths)
qed

text \<open>The settings of a build go to the manifest.\<close>

lemma FromBuildDir_settings:
  assumes "FromBuildDir rd unjson iter d v c = Inr b" and "Load rd unjson iter d = Inr (fa, files)"
  shows "mChip (Manifest b) = ExtraChip fa \<and> mFlashMode (Manifest b) = FlashMode fa
    \<and> mFlashSize (Manifest b) = FlashSize fa \<and> mFlashFreq (Manifest b) = FlashFreq fa"
  using assms by (auto simp: FromBuildDir_def fold_addFile)

section \<open>Packing and opening\<close>

text \<open>
  What the program relies on of the tar and gzip writers and readers: entries written completely
  are read back in order. \<open>holds w es\<close> says that the writer in state \<open>w\<close> has been given \<open>es\<close>.
\<close>

definition archiverLaws :: "('w, 'm, 'o) archiver \<Rightarrow> ('o \<Rightarrow> 'm + 'm tarItem list) \<Rightarrow> ('w \<Rightarrow> (string \<times> bytes) list \<Rightarrow> bool) \<Rightarrow> bool" where
  "archiverLaws a unarchive holds \<longleftrightarrow> holds (arNew a) []
     \<and> (\<forall>w es n d w1 w2. holds w es \<and> arHeader a n (int (length d)) w = Inr w1 \<and> arWrite a d w1 = Inr w2 \<longrightarrow> holds w2 (es @ [(n, d)]))
     \<and> (\<forall>w es w1 out. holds w es \<and> arClose a w = Inr w1 \<and> arGzClose a w1 = Inr out \<longrightarrow>
          unarchive out = Inr (map (\<lambda>(n, d). TarFile n d) es))"

lemma bindS_Inr [simp]: "bindS x k = Inr b \<longleftrightarrow> (\<exists>a. x = Inr a \<and> k a = Inr b)"
  by (cases x) simp_all

lemma laws_new: "archiverLaws a unarchive holds \<Longrightarrow> holds (arNew a) []"
  by (simp add: archiverLaws_def)

lemma laws_close:
  "archiverLaws a unarchive holds \<Longrightarrow> holds w es \<Longrightarrow> arClose a w = Inr w1 \<Longrightarrow> arGzClose a w1 = Inr out \<Longrightarrow>
   unarchive out = Inr (map (\<lambda>(n, d). TarFile n d) es)"
  unfolding archiverLaws_def by blast

lemma writeTar_holds:
  "archiverLaws a unarchive holds \<Longrightarrow> holds w es \<Longrightarrow> writeTar a n d w = Inr w' \<Longrightarrow> holds w' (es @ [(n, d)])"
  unfolding archiverLaws_def writeTar_def by (simp add: bindS_Inr) blast

lemma packFiles_holds:
  "archiverLaws a unarchive holds \<Longrightarrow> packFiles a b ns w = Inr w' \<Longrightarrow> holds w es \<Longrightarrow>
   holds w' (es @ map (\<lambda>n. (''files/'' @ n, dataOf b n)) ns)"
proof (induction ns arbitrary: w es)
  case (Cons n ns)
  then obtain w1 where w1: "writeTar a (''files/'' @ n) (dataOf b n) w = Inr w1" "packFiles a b ns w1 = Inr w'" by auto
  from Cons.IH [OF Cons.prems(1) w1(2) writeTar_holds [OF Cons.prems(1,3) w1(1)]] show ?case by simp
qed simp

lemma Pack_Inr:
  "Pack a marshal b = Inr out \<Longrightarrow> \<exists>mj w1 w2 w3. marshal (Manifest b) = Inr mj \<and> writeTar a ''manifest.json'' mj (arNew a) = Inr w1
     \<and> packFiles a b (sort (map fst (bdata b))) w1 = Inr w2 \<and> arClose a w2 = Inr w3 \<and> arGzClose a w3 = Inr out"
  unfolding Pack_def bindS_Inr by blast

lemma tarItems_conv:
  "map (\<lambda>(n, d). TarFile n d) (([] @ [(''manifest.json'', mj)]) @ map (\<lambda>n. (''files/'' @ n, g n)) ns)
     = TarFile ''manifest.json'' mj # map (\<lambda>n. TarFile (''files/'' @ n) (g n)) ns"
  by (simp only: map_append list.map append_Nil append_Cons prod.case map_map comp_def)

lemma Pack_items:
  assumes laws: "archiverLaws a unarchive holds" and "Pack a marshal b = Inr out"
  shows "\<exists>mj. marshal (Manifest b) = Inr mj \<and>
    unarchive out = Inr (TarFile ''manifest.json'' mj # map (\<lambda>n. TarFile (''files/'' @ n) (dataOf b n)) (sort (map fst (bdata b))))"
proof -
  obtain mj w1 w2 w3 where mj: "marshal (Manifest b) = Inr mj" and w1: "writeTar a ''manifest.json'' mj (arNew a) = Inr w1"
    and w2: "packFiles a b (sort (map fst (bdata b))) w1 = Inr w2" and w3: "arClose a w2 = Inr w3" "arGzClose a w3 = Inr out"
    using Pack_Inr [OF assms(2)] by blast
  have "holds w2 (([] @ [(''manifest.json'', mj)]) @ map (\<lambda>n. (''files/'' @ n, dataOf b n)) (sort (map fst (bdata b))))"
    by (rule packFiles_holds [where holds = holds, OF laws w2])
      (rule writeTar_holds [where holds = holds, OF laws laws_new [OF laws] w1])
  from laws_close [where holds = holds, OF laws this w3] mj show ?thesis unfolding tarItems_conv by blast
qed

lemma openLoop_file:
  "openLoop unm (TarFile (''files/'' @ n) d # r) b h = openLoop unm r (b\<lparr>bdata := AList.update n d (bdata b)\<rparr>) h"
proof -
  have "''files/'' @ n \<noteq> ''manifest.json''" by simp
  moreover have "HasPrefix (''files/'' @ n) ''files/''" "TrimPrefix (''files/'' @ n) ''files/'' = n"
    by (rule HasPrefix_append, rule TrimPrefix_append)
  ultimately show ?thesis by (simp only: openLoop.simps if_False if_True)
qed

lemma openLoop_files:
  "openLoop unm (map (\<lambda>n. TarFile (''files/'' @ n) (g n)) ns) b h = Inr (b\<lparr>bdata := fold (\<lambda>n. AList.update n (g n)) ns (bdata b)\<rparr>, h)"
  by (induction ns arbitrary: b) (simp_all only: list.map openLoop_file openLoop.simps(1) fold_simps comp_apply id_apply, simp_all)

lemma fold_update_map: "map_of (fold (\<lambda>n. AList.update n (g n)) ns al) k = (if k \<in> set ns then Some (g k) else map_of al k)"
  by (induction ns arbitrary: al) (auto simp: update_conv')

lemma checkFiles_ok:
  "checkFiles fs b = Inr b' \<longleftrightarrow> b' = b \<and>
     (\<forall>f \<in> set fs. case map_of (bdata b) (fName f) of None \<Rightarrow> False | Some d \<Rightarrow> fSHA256 f = hexEncode (sha256Sum d))"
  by (induction fs) (auto split: option.splits)

text \<open>Opening what was packed.\<close>

lemma open_pack:
  fixes unarchive :: "'o \<Rightarrow> 'm + 'm tarItem list"
  assumes laws: "archiverLaws a unarchive holds" and "Pack a marshal b = Inr out"
    and json: "\<And>mj. marshal (Manifest b) = Inr mj \<Longrightarrow> unm mj emptyManifest = Inr (Manifest b)"
  shows "OpenBundle unarchive unm out =
    (let b' = b\<lparr>bdata := fold (\<lambda>n. AList.update n (dataOf b n)) (sort (map fst (bdata b))) []\<rparr> in checkFiles (mFiles (Manifest b)) b')"
proof -
  let ?fs = "map (\<lambda>n. TarFile (''files/'' @ n) (dataOf b n)) (sort (map fst (bdata b))) :: 'm tarItem list"
  obtain mj where mj: "marshal (Manifest b) = Inr mj" and un: "unarchive out = Inr (TarFile ''manifest.json'' mj # ?fs)"
    using Pack_items [OF laws assms(2)] by blast
  have "openLoop unm (TarFile ''manifest.json'' mj # ?fs) \<lparr>Manifest = emptyManifest, bdata = []\<rparr> False
      = openLoop unm ?fs \<lparr>Manifest = Manifest b, bdata = []\<rparr> True"
    by (simp only: openLoop.simps fbundle.select_convs json [OF mj] sum.case simp_thms if_True) (simp only: fbundle.update_convs)
  then have "openLoop unm (TarFile ''manifest.json'' mj # ?fs) \<lparr>Manifest = emptyManifest, bdata = []\<rparr> False
      = Inr (\<lparr>Manifest = Manifest b, bdata = fold (\<lambda>n. AList.update n (dataOf b n)) (sort (map fst (bdata b))) []\<rparr>, True)"
    by (simp only: openLoop_files fbundle.update_convs fbundle.select_convs)
  moreover have "b\<lparr>bdata := x\<rparr> = \<lparr>Manifest = Manifest b, bdata = x\<rparr>" for x by simp
  ultimately show ?thesis
    unfolding OpenBundle_def
    by (simp only: un sum.case prod.case Let_def simp_thms if_False fbundle.select_convs)
qed

lemma open_packed:
  assumes "archiverLaws a unarchive holds" and "Pack a marshal b = Inr out" and "bundleOk b"
    and "\<And>mj. marshal (Manifest b) = Inr mj \<Longrightarrow> unm mj emptyManifest = Inr (Manifest b)"
  shows "\<exists>b'. OpenBundle unarchive unm out = Inr b' \<and> Manifest b' = Manifest b \<and> BundleFile b' = BundleFile b
    \<and> BundleFlashFiles b' = BundleFlashFiles b"
proof -
  let ?b = "b\<lparr>bdata := fold (\<lambda>n. AList.update n (dataOf b n)) (sort (map fst (bdata b))) []\<rparr>"
  have same: "map_of (bdata ?b) = map_of (bdata b)"
  proof
    fix k
    have "k \<in> fst ` set (bdata b) \<longleftrightarrow> map_of (bdata b) k \<noteq> None" by (simp add: map_of_eq_None_iff)
    then show "map_of (bdata ?b) k = map_of (bdata b) k"
      by (cases "map_of (bdata b) k") (simp_all add: fold_update_map dataOf_def)
  qed
  then have "checkFiles (mFiles (Manifest b)) ?b = Inr ?b"
    using assms(3) unfolding checkFiles_ok bundleOk_def by simp
  moreover have "dataOf ?b = dataOf b" using same by (simp add: dataOf_def fun_eq_iff)
  moreover have "BundleFile ?b = BundleFile b" using same by (simp add: BundleFile_def fun_eq_iff)
  ultimately show ?thesis
    using open_pack [OF assms(1,2), of unm] assms(4)
    by (intro exI [of _ ?b]) (simp add: Let_def BundleFlashFiles_def)
qed

text \<open>C31. A packed bundle opens to the same bundle: for every well-formed bundle (each file of the
  manifest present, with its SHA-256), if packing succeeds then opening the archive succeeds and
  gives the same manifest, the same contents for every name, and the same images to flash. The
  tar and gzip packages must read back what was written completely, and the JSON package the
  manifest it encoded.\<close>
theorem Bundle_roundtrip:
  assumes "archiverLaws a unarchive holds" and "Pack a marshal b = Inr out" and "bundleOk b"
    and "\<And>mj. marshal (Manifest b) = Inr mj \<Longrightarrow> unm mj emptyManifest = Inr (Manifest b)"
  shows "\<exists>b'. OpenBundle unarchive unm out = Inr b' \<and> Manifest b' = Manifest b \<and> BundleFile b' = BundleFile b
    \<and> BundleFlashFiles b' = BundleFlashFiles b"
  by (rule open_packed [where holds = holds and marshal = marshal and unm = unm]) (fact assms)+

text \<open>An archive format and a codec for the witnesses.\<close>

type_synonym demoWriter = "(string \<times> bytes) list \<times> string option"

definition demoArchiver :: "(demoWriter, unit, (string \<times> bytes) list) archiver" where
  "demoArchiver = \<lparr>arNew = ([], None), arHeader = (\<lambda>n sz (es, h). if h = None then Inr (es, Some n) else Inl ()),
     arWrite = (\<lambda>d (es, h). case h of None \<Rightarrow> Inl () | Some n \<Rightarrow> Inr (es @ [(n, d)], None)),
     arClose = (\<lambda>w. Inr w), arGzClose = (\<lambda>(es, h). Inr es)\<rparr>"

definition demoUnarchive :: "(string \<times> bytes) list \<Rightarrow> unit + unit tarItem list" where
  "demoUnarchive es = Inr (map (\<lambda>(n, d). TarFile n d) es)"

lemma demo_laws: "archiverLaws demoArchiver demoUnarchive (\<lambda>w es. w = (es, None))"
  by (auto simp: archiverLaws_def demoArchiver_def demoUnarchive_def)

lemma demo_writeTar: "writeTar demoArchiver n d (es, None) = Inr (es @ [(n, d)], None)"
  by (simp add: writeTar_def demoArchiver_def)

lemma demo_packFiles: "\<exists>es'. packFiles demoArchiver b ns (es, None) = Inr (es', None)"
  by (induction ns arbitrary: es) (simp_all add: demo_writeTar)

lemma demo_Pack: "\<exists>out. Pack demoArchiver (\<lambda>_. Inr [123]) b = Inr out"
proof -
  have "arNew demoArchiver = ([], None)" by (simp add: demoArchiver_def)
  moreover obtain es where "packFiles demoArchiver b (sort (map fst (bdata b))) ([(''manifest.json'', [123])], None) = Inr (es, None)"
    using demo_packFiles by blast
  moreover have "arClose demoArchiver (es, None) = Inr (es, None)" "arGzClose demoArchiver (es, None) = Inr es"
    by (simp_all add: demoArchiver_def)
  ultimately show ?thesis unfolding Pack_def by (simp add: demo_writeTar)
qed

lemma demo_ok:
  obtains b where "FromBuildDir demoRead demoJson (demoOrder False) ''build'' ''1.0'' '''' = Inr b" and "bundleOk b"
proof -
  obtain b where b: "FromBuildDir demoRead demoJson (demoOrder False) ''build'' ''1.0'' '''' = Inr b" using demo_bundle by blast
  have "distinct (map baseOf demoFiles)" by (simp add: demoFiles_def baseOf_def demo_bases)
  from FromBuildDir_ok [OF b demo_Load this] show ?thesis by (rule that [OF b])
qed

lemma Bundle_roundtrip_witness:
  "\<exists>b out b'. FromBuildDir demoRead demoJson (demoOrder False) ''build'' ''1.0'' '''' = Inr b \<and> Pack demoArchiver (\<lambda>_. Inr [123]) b = Inr out
     \<and> OpenBundle demoUnarchive (\<lambda>_ _. Inr (Manifest b) :: unit + _) out = Inr b' \<and> Manifest b' = Manifest b"
proof -
  obtain b where b: "FromBuildDir demoRead demoJson (demoOrder False) ''build'' ''1.0'' '''' = Inr b" "bundleOk b" by (rule demo_ok)
  obtain out where out: "Pack demoArchiver (\<lambda>_. Inr [123]) b = Inr out" using demo_Pack by blast
  from Bundle_roundtrip [OF demo_laws out b(2), of "\<lambda>_ _. Inr (Manifest b) :: unit + _"] b out show ?thesis by blast
qed

text \<open>C35. An opened bundle is verified: every file of its manifest is present and its contents have
  the SHA-256 of the manifest, so no image is flashed whose digest was not checked.\<close>
theorem OpenBundle_verifies:
  assumes "OpenBundle unarchive unm r = Inr b" and "f \<in> set (BundleFlashFiles b)"
  shows "\<exists>m \<in> set (mFiles (Manifest b)). fName m = ffName f \<and> fOffset m = ffOffset f
    \<and> BundleFile b (fName m) = Some (ffData f) \<and> hexEncode (sha256Sum (ffData f)) = fSHA256 m"
proof -
  from assms(1) have "checkFiles (mFiles (Manifest b)) b = Inr b"
    by (auto simp: OpenBundle_def checkFiles_ok split: sum.splits if_splits)
  then have ok: "\<And>m. m \<in> set (mFiles (Manifest b)) \<Longrightarrow> \<exists>d. map_of (bdata b) (fName m) = Some d \<and> fSHA256 m = hexEncode (sha256Sum d)"
    unfolding checkFiles_ok by (force split: option.splits)
  obtain m where m: "m \<in> set (mFiles (Manifest b))" "f = \<lparr>ffOffset = fOffset m, ffName = fName m, ffData = dataOf b (fName m)\<rparr>"
    using assms(2) by (auto simp: BundleFlashFiles_def sortFiles_def)
  then show ?thesis using ok [OF m(1)] by (auto simp: dataOf_def BundleFile_def intro!: bexI [OF _ m(1)])
qed

lemma OpenBundle_verifies_witness:
  "\<exists>b out b' f. Pack demoArchiver (\<lambda>_. Inr [123]) b = Inr out
     \<and> OpenBundle demoUnarchive (\<lambda>_ _. Inr (Manifest b) :: unit + _) out = Inr b' \<and> f \<in> set (BundleFlashFiles b')
     \<and> (\<exists>m \<in> set (mFiles (Manifest b')). hexEncode (sha256Sum (ffData f)) = fSHA256 m)"
proof -
  obtain b where b: "FromBuildDir demoRead demoJson (demoOrder False) ''build'' ''1.0'' '''' = Inr b" "bundleOk b" by (rule demo_ok)
  obtain out where out: "Pack demoArchiver (\<lambda>_. Inr [123]) b = Inr out" using demo_Pack by blast
  obtain b' where b': "OpenBundle demoUnarchive (\<lambda>_ _. Inr (Manifest b) :: unit + _) out = Inr b'" "Manifest b' = Manifest b"
    using open_packed [OF demo_laws out b(2), of "\<lambda>_ _. Inr (Manifest b) :: unit + _"] by blast
  have "mFiles (Manifest b) \<noteq> []"
  proof (rule FromBuildDir_conv [OF b(1)])
    fix fa files assume "Load demoRead demoJson (demoOrder False) ''build'' = Inr (fa, files)" "mFiles (Manifest b) = map fileOf files"
    then show ?thesis unfolding demo_Load by (auto simp: demoFiles_def)
  qed
  then have "length (BundleFlashFiles b') \<noteq> 0" using b'(2) by (simp add: BundleFlashFiles_def sortFiles_def)
  then have "BundleFlashFiles b' \<noteq> []" by simp
  then have f: "hd (BundleFlashFiles b') \<in> set (BundleFlashFiles b')" by simp
  from OpenBundle_verifies [OF b'(1) f] out b' f show ?thesis by blast
qed

end
