(* ===== verification/PartTable.thy ===== *)
theory PartTable
  imports Bytes
begin

text \<open>
  The reader of \<open>partition-table.bin\<close> (\<open>partition/table.go\<close>), the format it reads as an
  encoder, and a reference reader that looks at the table as a list of rows.
\<close>

section \<open>The reader\<close>

definition ptEntrySize :: nat where "ptEntrySize = 32"
definition entryMagic :: u16 where "entryMagic = 0x50AA"
definition md5Magic :: u16 where "md5Magic = 0xEBEB"
definition MaxTableSize :: nat where "MaxTableSize = 0xC00"
definition TypeApp :: byte where "TypeApp = 0x00"
definition TypeData :: byte where "TypeData = 0x01"

lemmas pt_consts = ptEntrySize_def entryMagic_def md5Magic_def MaxTableSize_def

record partEntry =
  ptName :: string
  ptType :: byte
  ptSub :: byte
  ptOffset :: u32
  ptSize :: u32
  ptFlags :: u32

datatype tableErr = BadRecord nat | BadMagic u16 nat | NoEntries

definition decodeEntry :: "bytes \<Rightarrow> partEntry" where
  "decodeEntry r = \<lparr>ptName = bytes_str (takeWhile (\<lambda>b. b \<noteq> 0) (take 16 (drop 12 r))), ptType = r ! 2, ptSub = r ! 3,
     ptOffset = get32 (drop 4 r), ptSize = get32 (drop 8 r), ptFlags = get32 (drop 28 r)\<rparr>"

function tableLoop :: "bytes \<Rightarrow> nat \<Rightarrow> partEntry list \<Rightarrow> tableErr + partEntry list" where
  "tableLoop data off out =
     (if off + ptEntrySize \<le> length data \<and> off < MaxTableSize then
        let r = take ptEntrySize (drop off data);
            magic = get16 r
        in if magic = entryMagic then tableLoop data (off + ptEntrySize) (out @ [decodeEntry r])
           else if magic = md5Magic then tableLoop data (off + ptEntrySize) out
           else if magic = 0xFFFF then
             (if length (filter (\<lambda>b. b = 0xFF) r) \<noteq> ptEntrySize then Inl (BadRecord off)
              else tableLoop data (MaxTableSize + ptEntrySize) out)
           else Inl (BadMagic magic off)
      else Inr out)"
  by pat_completeness auto
termination
  by (relation "measure (\<lambda>(data, off, out). MaxTableSize - off)") (auto simp: pt_consts)

declare tableLoop.simps [simp del]

definition ParseTable :: "bytes \<Rightarrow> tableErr + partEntry list" where
  "ParseTable data =
     (case tableLoop data 0 [] of
        Inl e \<Rightarrow> Inl e
      | Inr out \<Rightarrow> if out = [] then Inl NoEntries else Inr out)"

text \<open>The pointer into the slice is the index of the entry and the entry.\<close>

fun findFrom :: "nat \<Rightarrow> partEntry list \<Rightarrow> string \<Rightarrow> (nat \<times> partEntry) option" where
  "findFrom i [] name = None"
| "findFrom i (e # es) name = (if ptName e = name then Some (i, e) else findFrom (Suc i) es name)"

definition FindEntry :: "partEntry list \<Rightarrow> string \<Rightarrow> (nat \<times> partEntry) option" where
  "FindEntry entries name = findFrom 0 entries name"

section \<open>A reference reader\<close>

text \<open>
  The table as its rows: 32-byte records, at most 96 of them, an incomplete one at the end left
  out. What counts are the rows before the first erased one.
\<close>

datatype tableRow = DataRow partEntry | ChecksumRow | ErasedRow | BadRow tableErr

definition rowAt :: "bytes \<Rightarrow> nat \<Rightarrow> tableRow" where
  "rowAt data i = (let r = take 32 (drop (32 * i) data) in
     if get16 r = 0x50AA then DataRow (decodeEntry r) else if get16 r = 0xEBEB then ChecksumRow
     else if r = replicate 32 0xFF then ErasedRow
     else BadRow (if get16 r = 0xFFFF then BadRecord (32 * i) else BadMagic (get16 r) (32 * i)))"

definition tableRows :: "bytes \<Rightarrow> tableRow list" where
  "tableRows data = map (rowAt data) [0..<min 96 (length data div 32)]"

fun rowEntry :: "tableRow \<Rightarrow> partEntry list" where
  "rowEntry (DataRow e) = [e]" | "rowEntry _ = []"

fun rowErr :: "tableRow \<Rightarrow> tableErr option" where
  "rowErr (BadRow e) = Some e" | "rowErr _ = None"

definition tableSpec :: "tableRow list \<Rightarrow> tableErr + partEntry list" where
  "tableSpec rows =
     (let used = takeWhile (\<lambda>r. r \<noteq> ErasedRow) rows in
      case List.map_filter rowErr used of
        e # _ \<Rightarrow> Inl e
      | [] \<Rightarrow> (let out = concat (map rowEntry used) in if out = [] then Inl NoEntries else Inr out))"

fun rowsFold :: "tableRow list \<Rightarrow> partEntry list \<Rightarrow> tableErr + partEntry list" where
  "rowsFold [] out = Inr out"
| "rowsFold (DataRow e # rs) out = rowsFold rs (out @ [e])"
| "rowsFold (ChecksumRow # rs) out = rowsFold rs out"
| "rowsFold (ErasedRow # rs) out = Inr out"
| "rowsFold (BadRow e # rs) out = Inl e"

lemma rowsFold_spec:
  "rowsFold rows out = (let used = takeWhile (\<lambda>r. r \<noteq> ErasedRow) rows in
     case List.map_filter rowErr used of e # _ \<Rightarrow> Inl e | [] \<Rightarrow> Inr (out @ concat (map rowEntry used)))"
  by (induction rows out rule: rowsFold.induct) (simp_all add: Let_def map_filter_simps split: list.split)

lemma all_ff: "length r = n \<Longrightarrow> length (filter (\<lambda>b. b = x) r) = n \<longleftrightarrow> r = replicate n x"
proof (induction r arbitrary: n)
  case (Cons y r)
  then show ?case using length_filter_le [of "\<lambda>b. b = x" r] by (cases n) auto
qed simp

lemma tableLoop_stop: "\<not> (off + 32 \<le> length data \<and> off < 0xC00) \<Longrightarrow> tableLoop data off out = Inr out"
  by (subst tableLoop.simps) (simp only: pt_consts if_False)

lemma tableLoop_step:
  assumes "32 * i + 32 \<le> length data" and "32 * i < 0xC00"
  shows "tableLoop data (32 * i) out = (case rowAt data i of
     DataRow e \<Rightarrow> tableLoop data (32 * Suc i) (out @ [e]) | ChecksumRow \<Rightarrow> tableLoop data (32 * Suc i) out
   | ErasedRow \<Rightarrow> Inr out | BadRow e \<Rightarrow> Inl e)"
proof -
  define r where "r = take 32 (drop (32 * i) data)"
  have len: "length r = 32" using assms(1) by (simp add: r_def)
  have stop: "tableLoop data (0xC00 + 32) out = Inr out" by (rule tableLoop_stop) simp
  have ff: "r = replicate 32 0xFF \<Longrightarrow> get16 r = 0xFFFF" by (simp add: get16_def)
  have "32 * i + 32 \<le> length data \<and> 32 * i < 0xC00" using assms by simp
  then have "tableLoop data (32 * i) out =
     (if get16 r = 0x50AA then tableLoop data (32 * i + 32) (out @ [decodeEntry r])
      else if get16 r = 0xEBEB then tableLoop data (32 * i + 32) out
      else if get16 r = 0xFFFF then if length (filter (\<lambda>b. b = 0xFF) r) \<noteq> 32 then Inl (BadRecord (32 * i)) else tableLoop data (0xC00 + 32) out
      else Inl (BadMagic (get16 r) (32 * i)))"
    by (subst tableLoop.simps) (simp only: pt_consts Let_def if_True r_def [symmetric] simp_thms)
  moreover have "rowAt data i = (if get16 r = 0x50AA then DataRow (decodeEntry r) else if get16 r = 0xEBEB then ChecksumRow
     else if r = replicate 32 0xFF then ErasedRow
     else BadRow (if get16 r = 0xFFFF then BadRecord (32 * i) else BadMagic (get16 r) (32 * i)))"
    by (simp only: rowAt_def Let_def r_def)
  moreover have "32 * Suc i = 32 * i + 32" by simp
  ultimately show ?thesis
    using ff by (simp only: all_ff [OF len] stop) (simp split: if_split)
qed

lemma tableLoop_rows:
  "i \<le> min 96 (length data div 32) \<Longrightarrow>
   tableLoop data (32 * i) out = rowsFold (map (rowAt data) [i..<min 96 (length data div 32)]) out"
proof (induction "min 96 (length data div 32) - i" arbitrary: i out)
  case 0
  then have i: "i = min 96 (length data div 32)" by simp
  have "\<not> (32 * i + 32 \<le> length data \<and> 32 * i < 0xC00)"
  proof
    assume a: "32 * i + 32 \<le> length data \<and> 32 * i < 0xC00"
    then have "i < length data div 32" "i < 96" by linarith+
    then show False using i by simp
  qed
  moreover have "[i..<min 96 (length data div 32)] = []" using i by (simp only: upt_conv_Nil)
  ultimately show ?case by (simp only: tableLoop_stop [of "32 * i" data out] list.map rowsFold.simps simp_thms)
next
  case (Suc n)
  let ?m = "min 96 (length data div 32)"
  have lt: "i < ?m" using Suc.hyps(2) by linarith
  then have le: "32 * i + 32 \<le> length data" "32 * i < 0xC00" by linarith+
  have rec: "tableLoop data (32 * Suc i) out' = rowsFold (map (rowAt data) [Suc i..<?m]) out'" for out'
    by (rule Suc.hyps(1)) (use Suc.hyps(2) lt in simp_all)
  have "[i..<?m] = i # [Suc i..<?m]" using lt by (simp only: upt_conv_Cons)
  then have rows: "rowsFold (map (rowAt data) [i..<?m]) out = rowsFold (rowAt data i # map (rowAt data) [Suc i..<?m]) out"
    by (simp only: list.map)
  show ?case
    unfolding rows tableLoop_step [OF le] rec by (cases "rowAt data i") simp_all
qed

lemma ParseTable_rows: "tableLoop data 0 [] = rowsFold (tableRows data) []"
  using tableLoop_rows [of 0 data "[]"] by (simp add: tableRows_def)

text \<open>C25. The reader of a partition table is the reference reader: \<open>ParseTable\<close> looks at the
  32-byte rows of the image up to 0xC00 bytes, stops at the first erased row, reports the first
  row that is neither an entry, a checksum row nor erased, and otherwise returns the entries in
  order, or an error if there is none.\<close>
theorem ParseTable_spec: "ParseTable data = tableSpec (tableRows data)"
  by (simp add: ParseTable_def ParseTable_rows rowsFold_spec tableSpec_def Let_def split: list.split)

section \<open>The format as an encoder\<close>

definition encodeEntry :: "partEntry \<Rightarrow> bytes" where
  "encodeEntry e = [0xAA, 0x50, ptType e, ptSub e] @ le32 (ptOffset e) @ le32 (ptSize e)
     @ str_bytes (ptName e) @ replicate (16 - length (ptName e)) 0 @ le32 (ptFlags e)"

definition okEntry :: "partEntry \<Rightarrow> bool" where
  "okEntry e \<longleftrightarrow> length (ptName e) \<le> 16 \<and> CHR 0x00 \<notin> set (ptName e)"

lemma length_encodeEntry [simp]: "okEntry e \<Longrightarrow> length (encodeEntry e) = 32"
  by (simp add: encodeEntry_def okEntry_def)

lemma decode_encode: "okEntry e \<Longrightarrow> decodeEntry (encodeEntry e) = e"
proof -
  assume ok: "okEntry e"
  let ?n = "str_bytes (ptName e) @ replicate (16 - length (ptName e)) 0"
  have e: "encodeEntry e = ([0xAA, 0x50, ptType e, ptSub e] @ le32 (ptOffset e) @ le32 (ptSize e)) @ ?n @ le32 (ptFlags e)"
    by (simp add: encodeEntry_def)
  have n: "length ?n = 16" using ok by (simp add: okEntry_def)
  have "take 16 (drop 12 (encodeEntry e)) = ?n" "drop 28 (encodeEntry e) = le32 (ptFlags e)"
    unfolding e using n by simp_all
  moreover have "drop 4 (encodeEntry e) = le32 (ptOffset e) @ le32 (ptSize e) @ ?n @ le32 (ptFlags e)"
    "drop 8 (encodeEntry e) = le32 (ptSize e) @ ?n @ le32 (ptFlags e)"
    "encodeEntry e ! 2 = ptType e" "encodeEntry e ! 3 = ptSub e" by (simp_all add: e)
  ultimately show ?thesis
    using ok by (simp add: decodeEntry_def takeWhile_key okEntry_def)
qed

lemma magic_encode: "get16 (encodeEntry e) = 0x50AA"
  by (simp add: encodeEntry_def get16_def)

lemma rowAt_encode:
  assumes "length pre = 32 * i" and "okEntry e"
  shows "rowAt (pre @ encodeEntry e @ rest) i = DataRow e"
proof -
  have "take 32 (drop (32 * i) (pre @ encodeEntry e @ rest)) = encodeEntry e" using assms by simp
  then show ?thesis by (simp only: rowAt_def Let_def magic_encode decode_encode [OF assms(2)] if_True simp_thms)
qed

lemma tableLoop_entries:
  "length pre = 32 * i \<Longrightarrow> list_all okEntry es \<Longrightarrow> i + length es \<le> 96 \<Longrightarrow>
   tableLoop (pre @ concat (map encodeEntry es) @ rest) (32 * i) out
   = tableLoop (pre @ concat (map encodeEntry es) @ rest) (32 * (i + length es)) (out @ es)"
proof (induction es arbitrary: pre i out)
  case (Cons e es)
  let ?d = "pre @ encodeEntry e @ concat (map encodeEntry es) @ rest"
  have ok: "okEntry e" using Cons.prems(2) by simp
  have "tableLoop ?d (32 * i) out = tableLoop ?d (32 * Suc i) (out @ [e])"
    using Cons.prems by (subst tableLoop_step) (simp_all add: rowAt_encode)
  also have "\<dots> = tableLoop ?d (32 * (Suc i + length es)) ((out @ [e]) @ es)"
    using Cons.IH [of "pre @ encodeEntry e" "Suc i" "out @ [e]"] Cons.prems by simp
  finally show ?case by (simp add: add.commute [of i])
qed simp

definition checksumRow :: "bytes \<Rightarrow> bool" where
  "checksumRow r \<longleftrightarrow> length r = 32 \<and> take 2 r = [0xEB, 0xEB]"

lemma tableLoop_erased:
  assumes "length pre = 32 * i"
  shows "tableLoop (pre @ replicate 32 0xFF @ rest) (32 * i) out = Inr out"
proof (cases "i < 96")
  case True
  have "get16 (replicate 32 0xFF) = 0xFFFF" by (simp add: get16_def)
  then have "rowAt (pre @ replicate 32 0xFF @ rest) i = ErasedRow" using assms by (simp add: rowAt_def Let_def)
  then show ?thesis using assms True by (subst tableLoop_step) simp_all
next
  case False
  then show ?thesis by (intro tableLoop_stop) simp
qed

text \<open>C26. A partition table reads back: the entries of a table of at most 96, encoded after the
  format (magic, type, subtype, offset, size, NUL-padded name of at most 16 bytes, flags) and
  followed by an optional checksum row, an erased row and anything else, are what \<open>ParseTable\<close>
  returns.\<close>
theorem ParseTable_roundtrip:
  assumes "list_all okEntry es" and "es \<noteq> []" and "length es \<le> 96" and "c = [] \<or> checksumRow c"
  shows "ParseTable (concat (map encodeEntry es) @ c @ replicate 32 0xFF @ rest) = Inr es"
proof -
  let ?d = "concat (map encodeEntry es) @ c @ replicate 32 0xFF @ rest"
  let ?i = "length es"
  have len: "length (concat (map encodeEntry es)) = 32 * ?i" using assms(1) by (induction es) simp_all
  have "tableLoop ?d (32 * ?i) es = Inr es"
  proof (cases "c = [] \<or> \<not> ?i < 96")
    case True
    then show ?thesis using tableLoop_erased [OF len, of rest es] tableLoop_stop [of "32 * ?i" ?d es] by fastforce
  next
    case False
    then have c: "length c = 32" "take 2 c = [0xEB, 0xEB]" using assms(4) by (simp_all add: checksumRow_def)
    then obtain r where r: "c = 0xEB # 0xEB # r" by (cases c; cases "tl c") auto
    have "get16 c = 0xEBEB" by (simp add: get16_def r)
    then have "rowAt ?d ?i = ChecksumRow" using len c by (simp add: rowAt_def Let_def)
    then have "tableLoop ?d (32 * ?i) es = tableLoop ?d (32 * Suc ?i) es"
      using False len c by (subst tableLoop_step) simp_all
    also have "\<dots> = Inr es"
      using tableLoop_erased [of "concat (map encodeEntry es) @ c" "Suc ?i" rest es] len c by simp
    finally show ?thesis .
  qed
  then have "tableLoop ?d 0 [] = Inr es"
    using tableLoop_entries [of "[]" 0 es "c @ replicate 32 0xFF @ rest" "[]"] assms by simp
  then show ?thesis using assms(2) by (simp add: ParseTable_def)
qed

definition exampleEntry :: partEntry where
  "exampleEntry = \<lparr>ptName = ''ota_0'', ptType = TypeApp, ptSub = 0x10, ptOffset = 0x10000, ptSize = 0x100000, ptFlags = 0\<rparr>"

lemma ParseTable_roundtrip_witness:
  "ParseTable (concat (map encodeEntry [exampleEntry]) @ (0xEB # 0xEB # replicate 30 7) @ replicate 32 0xFF @ [1, 2, 3]) = Inr [exampleEntry]"
  by (rule ParseTable_roundtrip) (simp_all add: okEntry_def exampleEntry_def checksumRow_def)

text \<open>C27. What \<open>ParseTable\<close> returns is bounded and well formed: at least one entry, at most 96,
  at most one per 32 bytes of input, and names of at most 16 bytes without a NUL.\<close>
theorem ParseTable_bounds:
  assumes "ParseTable data = Inr es"
  shows "es \<noteq> [] \<and> length es \<le> 96 \<and> 32 * length es \<le> length data \<and> list_all okEntry es"
proof -
  have row: "rowAt data i = DataRow e \<Longrightarrow> okEntry e" for i e
  proof -
    assume "rowAt data i = DataRow e"
    then have e: "e = decodeEntry (take 32 (drop (32 * i) data))" by (auto simp: rowAt_def Let_def split: if_splits)
    let ?n = "takeWhile (\<lambda>b. b \<noteq> (0 :: byte)) (take 16 (drop 12 (take 32 (drop (32 * i) data))))"
    have "length ?n \<le> 16" by (rule le_trans [OF length_takeWhile_le]) simp
    moreover have "(0 :: byte) \<in> set (str_bytes (bytes_str n))" if "CHR 0x00 \<in> set (bytes_str n)" for n
      using imageI [OF that, of of_char] by (simp add: str_bytes_def del: str_bytes_inverse)
    then have "CHR 0x00 \<in> set (bytes_str ?n) \<Longrightarrow> 0 \<in> set ?n" by simp
    then have "CHR 0x00 \<notin> set (bytes_str ?n)" by (auto dest: set_takeWhileD)
    ultimately show "okEntry e" by (simp add: e decodeEntry_def okEntry_def)
  qed
  have fold: "rowsFold rows out = Inr es \<Longrightarrow> list_all okEntry out \<Longrightarrow> (\<forall>e. DataRow e \<in> set rows \<longrightarrow> okEntry e) \<Longrightarrow>
      list_all okEntry es \<and> length es \<le> length out + length rows" for rows out
    by (induction rows out rule: rowsFold.induct) fastforce+
  have "rowsFold (tableRows data) [] = Inr es" "es \<noteq> []"
    using assms by (auto simp: ParseTable_def ParseTable_rows split: sum.splits if_splits)
  moreover have "\<forall>e. DataRow e \<in> set (tableRows data) \<longrightarrow> okEntry e" using row by (force simp: tableRows_def)
  ultimately have "list_all okEntry es" "length es \<le> length (tableRows data)"
    using fold [of "tableRows data" "[]"] by simp_all
  then show ?thesis using \<open>es \<noteq> []\<close> by (auto simp: tableRows_def)
qed

lemma ParseTable_bounds_witness:
  "\<exists>es. ParseTable (encodeEntry exampleEntry) = Inr es \<and> es \<noteq> [] \<and> length es \<le> 96 \<and> 32 * length es \<le> length (encodeEntry exampleEntry)
     \<and> list_all okEntry es"
proof -
  have ok: "okEntry exampleEntry" by (simp add: okEntry_def exampleEntry_def)
  have "rowsFold [DataRow exampleEntry] [] = Inr [exampleEntry]" by simp
  moreover have "tableRows (encodeEntry exampleEntry) = [DataRow exampleEntry]"
    using rowAt_encode [of "[]" 0 exampleEntry "[]"] ok by (simp add: tableRows_def)
  ultimately have p: "ParseTable (encodeEntry exampleEntry) = Inr [exampleEntry]"
    by (simp only: ParseTable_def ParseTable_rows) simp
  from ParseTable_bounds [OF p] p show ?thesis by blast
qed

text \<open>\<open>FindEntry\<close> returns the first entry of the name, as a pointer into the slice, and nil
  exactly when no entry has the name.\<close>
theorem FindEntry_first:
  "(case FindEntry es name of
      Some (i, e) \<Rightarrow> i < length es \<and> es ! i = e \<and> ptName e = name \<and> name \<notin> ptName ` set (take i es)
    | None \<Rightarrow> name \<notin> ptName ` set es)"
proof -
  have "case findFrom k es name of
      Some (i, e) \<Rightarrow> (\<exists>m < length es. i = k + m \<and> es ! m = e \<and> ptName e = name \<and> name \<notin> ptName ` set (take m es))
    | None \<Rightarrow> name \<notin> ptName ` set es" for k
  proof (induction es arbitrary: k)
    case (Cons e es)
    have "\<exists>m < length (e # es). i = k + m \<and> (e # es) ! m = x \<and> ptName x = name \<and> name \<notin> ptName ` set (take m (e # es))"
      if "findFrom (Suc k) es name = Some (i, x)" "ptName e \<noteq> name" for i x
    proof -
      from Cons.IH [of "Suc k"] that(1) obtain m where "m < length es" "i = Suc k + m" "es ! m = x" "ptName x = name"
        "name \<notin> ptName ` set (take m es)" by auto
      then show ?thesis using that(2) by (intro exI [of _ "Suc m"]) auto
    qed
    then show ?case using Cons.IH [of "Suc k"] by (auto split: option.splits)
  qed simp
  from this [of 0] show ?thesis by (auto simp: FindEntry_def split: option.splits)
qed

end
