(* ===== verification/Detect.thy ===== *)
theory Detect
  imports GoText
begin

text \<open>
  Choosing the serial port (\<open>esp/detect.go\<close>). The list of the host's ports comes from the
  enumerator package and is an argument.
\<close>

record rawPort =
  rpName :: string
  rpIsUSB :: bool
  rpVID :: string
  rpPID :: string
  rpProduct :: string
  rpSerial :: string

record portInfo =
  piName :: string
  piIsUSB :: bool
  piVID :: string
  piPID :: string
  piProduct :: string
  piSerial :: string
  piVendor :: string

definition knownVIDs :: "string \<rightharpoonup> string" where
  "knownVIDs = [''10c4'' \<mapsto> ''Silicon Labs CP210x'', ''1a86'' \<mapsto> ''WCH CH34x'', ''0403'' \<mapsto> ''FTDI'', ''303a'' \<mapsto> ''Espressif'']"

definition portOf :: "rawPort \<Rightarrow> portInfo" where
  "portOf p =
     (let pin = \<lparr>piName = rpName p, piIsUSB = rpIsUSB p, piVID = [], piPID = [], piProduct = [], piSerial = [], piVendor = []\<rparr>
      in if rpIsUSB p
         then pin\<lparr>piVID := rpVID p, piPID := rpPID p, piProduct := rpProduct p, piSerial := rpSerial p,
                piVendor := (case knownVIDs (ToLower (rpVID p)) of Some v \<Rightarrow> v | None \<Rightarrow> [])\<rparr>
         else pin)"

definition ListPorts :: "'e + rawPort list \<Rightarrow> 'e + portInfo list" where
  "ListPorts found = (case found of Inl e \<Rightarrow> Inl e | Inr ports \<Rightarrow> Inr (map portOf ports))"

datatype 'e detectErr = EnumerateErr 'e | ManyKnown "string list" | NoUSBPorts | ManyPorts "string list"

fun splitPorts :: "portInfo list \<Rightarrow> string list \<Rightarrow> string list \<Rightarrow> string list \<times> string list" where
  "splitPorts [] preferred other = (preferred, other)"
| "splitPorts (p # ps) preferred other =
     (if \<not> piIsUSB p then splitPorts ps preferred other
      else if piVendor p \<noteq> [] then splitPorts ps (preferred @ [piName p]) other
      else splitPorts ps preferred (other @ [piName p]))"

definition DetectPort :: "'e + rawPort list \<Rightarrow> 'e detectErr + string" where
  "DetectPort found =
     (case ListPorts found of
        Inl e \<Rightarrow> Inl (EnumerateErr e)
      | Inr ports \<Rightarrow>
          (let (preferred, other) = splitPorts ports [] [] in
           if length preferred = 1 then Inr (preferred ! 0)
           else if 1 < length preferred then Inl (ManyKnown preferred)
           else if length other = 1 then Inr (other ! 0)
           else if length other = 0 then Inl NoUSBPorts
           else Inl (ManyPorts other)))"

section \<open>Which port is chosen\<close>

definition knownBridge :: "rawPort \<Rightarrow> bool" where
  "knownBridge p \<longleftrightarrow> rpIsUSB p \<and> ToLower (rpVID p) \<in> {''10c4'', ''1a86'', ''0403'', ''303a''}"

definition otherUSB :: "rawPort \<Rightarrow> bool" where
  "otherUSB p \<longleftrightarrow> rpIsUSB p \<and> \<not> knownBridge p"

lemma vendor_known: "piVendor (portOf p) \<noteq> [] \<longleftrightarrow> knownBridge p"
  by (auto simp: portOf_def knownBridge_def knownVIDs_def Let_def)

lemma splitPorts_filter:
  "splitPorts (map portOf ps) a b = (a @ map rpName (filter knownBridge ps), b @ map rpName (filter otherUSB ps))"
proof (induction ps arbitrary: a b)
  case (Cons p ps)
  have "piIsUSB (portOf p) = rpIsUSB p" "piName (portOf p) = rpName p" by (simp_all add: portOf_def Let_def)
  then show ?case using Cons vendor_known [of p] by (auto simp: otherUSB_def knownBridge_def)
qed simp

text \<open>C36. The port chosen when none is given: the only USB port of a known vendor, or, when there
  is none of a known vendor, the only USB port. Every other situation is an error, and a different
  one: the list of ports could not be had (its error is passed on), several known ports, no USB port at
  all, or several unknown ones. Ports that are not USB are never chosen, and an error names
  the candidates in the order of the list.\<close>
theorem DetectPort_verdict:
  "DetectPort found = (case found of
     Inl e \<Rightarrow> Inl (EnumerateErr e)
   | Inr ports \<Rightarrow> (case (map rpName (filter knownBridge ports), map rpName (filter otherUSB ports)) of
       ([n], _) \<Rightarrow> Inr n
     | (n # m # r, _) \<Rightarrow> Inl (ManyKnown (n # m # r))
     | ([], [n]) \<Rightarrow> Inr n
     | ([], []) \<Rightarrow> Inl NoUSBPorts
     | ([], ns) \<Rightarrow> Inl (ManyPorts ns)))"
proof (cases found)
  case (Inl e)
  then show ?thesis by (simp add: DetectPort_def ListPorts_def)
next
  case (Inr ports)
  have "(if length xs = 1 then Inr (xs ! 0) else if 1 < length xs then Inl (ManyKnown xs)
      else if length ys = 1 then Inr (ys ! 0) else if length ys = 0 then Inl NoUSBPorts else Inl (ManyPorts ys))
    = (case (xs, ys) of ([n], _) \<Rightarrow> Inr n | (n # m # r, _) \<Rightarrow> Inl (ManyKnown (n # m # r)) | ([], [n]) \<Rightarrow> Inr n
       | ([], []) \<Rightarrow> Inl NoUSBPorts | ([], ns) \<Rightarrow> Inl (ManyPorts ns))" for xs ys
    by (cases xs; cases "tl xs"; cases ys; cases "tl ys") simp_all
  from this [of "map rpName (filter knownBridge ports)" "map rpName (filter otherUSB ports)"] show ?thesis
    by (simp only: Inr DetectPort_def ListPorts_def sum.case splitPorts_filter append_Nil prod.case Let_def)
qed

text \<open>Vendor ids are compared whatever their letter case.\<close>

lemma DetectPort_case:
  "DetectPort (Inr [\<lparr>rpName = ''/dev/ttyS0'', rpIsUSB = False, rpVID = [], rpPID = [], rpProduct = [], rpSerial = []\<rparr>,
     \<lparr>rpName = ''/dev/ttyACM0'', rpIsUSB = True, rpVID = ''303A'', rpPID = ''1001'', rpProduct = [], rpSerial = []\<rparr>,
     \<lparr>rpName = ''/dev/ttyUSB0'', rpIsUSB = True, rpVID = ''9999'', rpPID = ''1'', rpProduct = [], rpSerial = []\<rparr>])
   = (Inr ''/dev/ttyACM0'' :: unit detectErr + string)"
  by code_simp

end
