(* ===== verification/Monitor.thy ===== *)
theory Monitor
  imports LoaderLive
begin

text \<open>
  The serial monitor (\<open>esp/monitor.go\<close>). Opening the port and the writer the output goes to
  are arguments; what is written to the writer is logged as \<open>EvOut\<close>.
\<close>

section \<open>The model\<close>

definition readSome :: "'d env \<Rightarrow> nat \<Rightarrow> ('d, bytes \<times> err option) esp" where
  "readSome E n l = (let ((bs, x), d) = t_read E n (dev l) in Some (Ok (bs, x), logged [EvRead bs] d l))"

text \<open>An \<open>io.Writer\<close>: how many bytes it took, and its error. The monitor looks at the error only.\<close>

type_synonym 'd writer = "bytes \<Rightarrow> 'd \<Rightarrow> (int \<times> err option) \<times> 'd"

definition writeOut :: "'d writer \<Rightarrow> bytes \<Rightarrow> ('d, unit) esp" where
  "writeOut w bs = call (EvOut bs) (\<lambda>d. let ((_, x), d') = w bs d in (x, d'))"

lemma try_io_mono [partial_function_mono]:
  assumes m: "mono_option (\<lambda>f. m f s)" and k: "\<And>a t. mono_option (\<lambda>f. k a f t)"
  shows "mono_option (\<lambda>f. try_io (m f) (\<lambda>a. k a f) s)"
  unfolding try_io_def
proof (rule bind_mono [OF m])
  fix p
  show "mono_option (\<lambda>f. case p of (r, s') \<Rightarrow>
      (case r of Ok a \<Rightarrow> k (Inr a) f s' | Fail e \<Rightarrow> k (Inl e) f s' | Panic \<Rightarrow> Some (Panic, s')))"
    by (cases p; cases "fst p") (auto simp: k option.const_mono)
qed

lemma sum_io_mono [partial_function_mono]:
  assumes "\<And>a. mono_option (\<lambda>f. m a f s)" and "\<And>a. mono_option (\<lambda>f. k a f s)"
  shows "mono_option (\<lambda>f. (case x of Inl a \<Rightarrow> m a f | Inr a \<Rightarrow> k a f) s)"
  using assms by (cases x) simp_all

partial_function (option) monitorLoop :: "'d env \<Rightarrow> 'd writer \<Rightarrow> 'd loader \<Rightarrow> ((err, unit) outcome \<times> 'd loader) option" where
  "monitorLoop E w l = try_io (ctxErr E) (\<lambda>c. case c of Inl _ \<Rightarrow> ret () | Inr _ \<Rightarrow>
     bind_io (setReadTimeout E (200 * millisecond)) (\<lambda>_.
     bind_io (readSome E 1024) (\<lambda>q.
     bind_io (if fst q \<noteq> [] then writeOut w (fst q) else ret ()) (\<lambda>_.
     case snd q of Some er \<Rightarrow> throw er | None \<Rightarrow> monitorLoop E w)))) l"

definition monitorReset :: "'d env \<Rightarrow> ('d, unit) esp" where
  "monitorReset E =
     bind_io (ignore_io (setDTR E False)) (\<lambda>_.
     bind_io (ignore_io (setRTS E True)) (\<lambda>_.
     bind_io (sleep E (100 * millisecond)) (\<lambda>_.
     ignore_io (setRTS E False))))"

text \<open>\<open>defer t.Close()\<close>: the port is closed however the body ends; the result stays.\<close>

definition deferClose :: "'d env \<Rightarrow> ('d, 'a) esp \<Rightarrow> ('d, 'a) esp" where
  "deferClose E m l = Option.bind (m l) (\<lambda>(r, l'). map_option (\<lambda>(_, l''). (r, l'')) (Close E l'))"

definition Monitor :: "'d env \<Rightarrow> (string \<Rightarrow> int \<Rightarrow> err + 'd) \<Rightarrow> string \<Rightarrow> int \<Rightarrow> 'd writer \<Rightarrow> bool \<Rightarrow>
    ((err, unit) outcome \<times> 'd loader option) option" where
  "Monitor E opn port baud w reset =
     (case opn port baud of
        Inl er \<Rightarrow> Some (Fail er, None)
      | Inr d \<Rightarrow>
          map_option (\<lambda>(r, l). (r, Some l))
            (deferClose E (bind_io (if reset then monitorReset E else ret ()) (\<lambda>_. monitorLoop E w)) (NewLoader d)))"

section \<open>What reaches the writer\<close>

definition outBy :: "event list \<Rightarrow> bytes" where
  "outBy es = concat (map (\<lambda>e. case e of EvOut bs \<Rightarrow> bs | _ \<Rightarrow> []) es)"

definition readBy :: "event list \<Rightarrow> bytes" where
  "readBy es = concat (map (\<lambda>e. case e of EvRead bs \<Rightarrow> bs | _ \<Rightarrow> []) es)"

text \<open>The control of the lines and the reset, in order.\<close>

definition lineBy :: "event list \<Rightarrow> event list" where
  "lineBy es = filter (\<lambda>e. case e of EvSetDTR _ \<Rightarrow> True | EvSetRTS _ \<Rightarrow> True | EvSleep _ \<Rightarrow> True | EvSetBaud _ \<Rightarrow> True
     | EvFlushInput \<Rightarrow> True | _ \<Rightarrow> False) es"

lemma by_simps [simp]:
  "outBy [] = []" "readBy [] = []" "lineBy [] = []"
  "outBy (a @ b) = outBy a @ outBy b" "readBy (a @ b) = readBy a @ readBy b" "lineBy (a @ b) = lineBy a @ lineBy b"
  by (simp_all add: outBy_def readBy_def lineBy_def)

text \<open>The run from \<open>l\<close> to \<open>l'\<close> copied everything read to the writer and only listened.\<close>

definition copies :: "'d loader \<Rightarrow> 'd loader \<Rightarrow> bool" where
  "copies l l' \<longleftrightarrow> (\<exists>es. evs l' = evs l @ es \<and> outBy es = readBy es \<and> writtenBy es = [] \<and> lineBy es = [] \<and> EvClose \<notin> set es)"

lemma copies_refl: "copies l l"
  by (auto simp: copies_def)

lemma copies_trans: "copies l m \<Longrightarrow> copies m n \<Longrightarrow> copies l n"
  unfolding copies_def by fastforce

text \<open>One round: cancelled, failed, or data passed on.\<close>

definition monitorRound :: "'d env \<Rightarrow> 'd writer \<Rightarrow> ('d, bool) esp" where
  "monitorRound E w = try_io (ctxErr E) (\<lambda>c. case c of Inl _ \<Rightarrow> ret False | Inr _ \<Rightarrow>
     bind_io (setReadTimeout E (200 * millisecond)) (\<lambda>_.
     bind_io (readSome E 1024) (\<lambda>q.
     bind_io (if fst q \<noteq> [] then writeOut w (fst q) else ret ()) (\<lambda>_.
     case snd q of Some er \<Rightarrow> throw er | None \<Rightarrow> ret True))))"

lemma monitorRound_bind:
  "try_io (ctxErr E) (\<lambda>c. case c of Inl _ \<Rightarrow> ret () | Inr _ \<Rightarrow>
     bind_io (setReadTimeout E (200 * millisecond)) (\<lambda>_.
     bind_io (readSome E 1024) (\<lambda>q.
     bind_io (if fst q \<noteq> [] then writeOut w (fst q) else ret ()) (\<lambda>_.
     case snd q of Some er \<Rightarrow> throw er | None \<Rightarrow> k)))) l
   = bind_io (monitorRound E w) (\<lambda>go. if go then k else ret ()) l"
  unfolding monitorRound_def
  by (simp add: try_io_def bind_io_def prim_defs readSome_def writeOut_def ret_def throw_def split: prod.split option.split)

lemma monitorRound_copies: "monitorRound E w l = Some (r, l') \<Longrightarrow> copies l l'"
  unfolding monitorRound_def copies_def
  by (auto simp: try_io_def bind_io_def prim_defs readSome_def writeOut_def ret_def throw_def outBy_def readBy_def lineBy_def
      split: prod.splits option.splits if_splits)

lemma monitorLoop_step: "monitorLoop E w l = bind_io (monitorRound E w) (\<lambda>go. if go then monitorLoop E w else ret ()) l"
  by (subst monitorLoop.simps) (rule monitorRound_bind)

lemma monitorLoop_copies:
  assumes "monitorLoop E w l = Some (r, l')"
  shows "copies l l'"
proof -
  define Q where "Q l y \<longleftrightarrow> copies l (snd y)" for l :: "'a loader" and y :: "(err, unit) outcome \<times> 'a loader"
  have "Q l (r, l')"
  proof (rule monitorLoop.raw_induct [where P = "\<lambda>E w l y. Q l y", OF _ assms])
    fix loop E w l y
    assume IH: "\<And>E w l y. loop E w l = Some y \<Longrightarrow> Q l y"
      and "try_io (ctxErr E) (\<lambda>c. case c of Inl _ \<Rightarrow> ret () | Inr _ \<Rightarrow>
         bind_io (setReadTimeout E (200 * millisecond)) (\<lambda>_.
         bind_io (readSome E 1024) (\<lambda>q.
         bind_io (if fst q \<noteq> [] then writeOut w (fst q) else ret ()) (\<lambda>_.
         case snd q of Some er \<Rightarrow> throw er | None \<Rightarrow> loop E w)))) l = Some y"
    then have run: "bind_io (monitorRound E w) (\<lambda>go. if go then loop E w else ret ()) l = Some y"
      by (simp only: monitorRound_bind)
    then obtain r' l' where y: "bind_io (monitorRound E w) (\<lambda>go. if go then loop E w else ret ()) l = Some (r', l')" "y = (r', l')"
      by (cases y) simp
    from y(1) show "Q l y"
    proof (cases rule: bind_io_Some)
      case (Ok go l1)
      then show ?thesis
        using monitorRound_copies [OF Ok(1)] IH [of E w l1 y] y(2) by (cases go) (auto simp: Q_def intro: copies_trans)
    qed (use monitorRound_copies y(2) in \<open>auto simp: Q_def\<close>)
  qed
  then show ?thesis by (simp add: Q_def)
qed

lemma ignore_call: "ignore_io (call e f) l = Some (Ok (), logged [e] (snd (f (dev l))) l)"
  by (simp add: ignore_io_def try_io_def call_def split: prod.split option.split)

lemma monitorReset_run:
  "\<exists>l'. monitorReset E l = Some (Ok (), l')
     \<and> evs l' = evs l @ [EvSetDTR False, EvSetRTS True, EvSleep (100 * millisecond), EvSetRTS False]"
  by (simp add: monitorReset_def setDTR_def setRTS_def sleep_def ignore_call bind_io_def)

lemma startMonitor:
  obtains l0 where "(if reset then monitorReset E else ret ()) (NewLoader d) = Some (Ok (), l0)"
    and "evs l0 = (if reset then [EvSetDTR False, EvSetRTS True, EvSleep (100 * millisecond), EvSetRTS False] else [])"
  using monitorReset_run [of E "NewLoader d"] by (cases reset) (auto simp: NewLoader_def)

text \<open>C37. The monitor only listens: whenever it returns, with or without an error, what it gave
  to the writer is exactly what it read, in order; nothing was written to the port; the control
  lines were driven only if a reset was asked for, DTR off, RTS on for 100 ms, RTS off, and the
  port has been closed.\<close>
theorem Monitor_listens:
  assumes "Monitor E opn port baud w reset = Some (r, Some l)"
  shows "outBy (evs l) = readBy (evs l) \<and> writtenBy (evs l) = []
    \<and> lineBy (evs l) = (if reset then [EvSetDTR False, EvSetRTS True, EvSleep (100 * millisecond), EvSetRTS False] else [])
    \<and> last (evs l) = EvClose"
proof -
  let ?seq = "if reset then [EvSetDTR False, EvSetRTS True, EvSleep (100 * millisecond), EvSetRTS False] else []"
  from assms obtain d l1 l2 x where opn: "opn port baud = Inr d"
    and body: "bind_io (if reset then monitorReset E else ret ()) (\<lambda>_. monitorLoop E w) (NewLoader d) = Some (r, l1)"
    and close: "Close E l1 = Some (x, l)"
    by (auto simp: Monitor_def deferClose_def split: sum.splits bind_splits)
  obtain l0 where l0: "(if reset then monitorReset E else ret ()) (NewLoader d) = Some (Ok (), l0)" "evs l0 = ?seq"
    by (rule startMonitor)
  from body have "monitorLoop E w l0 = Some (r, l1)" by (simp add: bind_io_eval(1) [of "if reset then monitorReset E else ret ()", OF l0(1)])
  then have "copies l0 l1" by (rule monitorLoop_copies)
  moreover have "evs l = evs l1 @ [EvClose]" using close by (auto simp: prim_defs split: prod.splits)
  ultimately show ?thesis
    using l0(2) by (auto simp: copies_def outBy_def readBy_def lineBy_def)
qed

text \<open>Interrupting the monitor ends it: on a port and a writer without errors, if the context
  is cancelled after finitely many reads, \<open>Monitor\<close> returns, without an error.\<close>
theorem Monitor_stops:
  fixes reads :: "'d \<Rightarrow> nat"
  assumes "opn port baud = Inr d"
    and cancel: "\<And>d. reads d = 0 \<Longrightarrow> fst (ctx_err E d) \<noteq> None"
    and count: "\<And>n d. reads (snd (t_read E n d)) \<le> reads d - 1" "\<And>d. reads (snd (ctx_err E d)) \<le> reads d"
      "\<And>t d. reads (snd (t_setReadTimeout E t d)) \<le> reads d" "\<And>bs d. reads (snd (w bs d)) \<le> reads d"
    and ok: "\<And>n d. snd (fst (t_read E n d)) = None" "\<And>t d. fst (t_setReadTimeout E t d) = None" "\<And>bs d. snd (fst (w bs d)) = None"
  shows "\<exists>l. Monitor E opn port baud w reset = Some (Ok (), Some l)"
proof -
  have round: "\<exists>go l'. monitorRound E w l = Some (Ok go, l') \<and> (go \<longrightarrow> reads (dev l') < reads (dev l))" for l
  proof -
    obtain c d1 where c: "ctx_err E (dev l) = (c, d1)" by (metis surj_pair)
    obtain d2 where d2: "t_setReadTimeout E (200 * millisecond) d1 = (None, d2)" using ok(2) by (metis prod.collapse)
    obtain bs d3 where d3: "t_read E 1024 d2 = ((bs, None), d3)" using ok(1) by (metis prod.collapse)
    obtain k d4 where d4: "w bs d3 = ((k, None), d4)" using ok(3) by (metis prod.collapse)
    have "c = None \<Longrightarrow> 0 < reads (dev l)" using cancel [of "dev l"] c by auto
    moreover have "reads d1 \<le> reads (dev l)" "reads d2 \<le> reads d1" "reads d3 \<le> reads d2 - 1" "reads d4 \<le> reads d3"
      using count(2) [of "dev l"] count(3) [of "200 * millisecond" d1] count(1) [of 1024 d2] count(4) [of bs d3] c d2 d3 d4 by simp_all
    ultimately have less: "c = None \<Longrightarrow> reads d3 < reads (dev l)" "c = None \<Longrightarrow> reads d4 < reads (dev l)" by linarith+
    have "\<exists>l'. monitorRound E w l = Some (Ok (c = None), l') \<and> (c = None \<longrightarrow> reads (dev l') < reads (dev l))"
      using c d2 d3 d4 less
      by (cases c; cases "bs = []")
        (simp_all add: monitorRound_def try_io_def bind_io_def ctxErr_def setReadTimeout_def call_def readSome_def writeOut_def)
    then show ?thesis by blast
  qed
  have loop: "\<exists>l'. monitorLoop E w l = Some (Ok (), l')" for l
  proof (induction "reads (dev l)" arbitrary: l rule: less_induct)
    case less
    obtain go l1 where "monitorRound E w l = Some (Ok go, l1)" "go \<longrightarrow> reads (dev l1) < reads (dev l)" using round by blast
    then show ?case using less [of l1] by (cases go) (simp_all add: monitorLoop_step [of E w l] bind_io_eval)
  qed
  obtain l0 where "(if reset then monitorReset E else ret ()) (NewLoader d) = Some (Ok (), l0)" by (rule startMonitor)
  then obtain l1 where "bind_io (if reset then monitorReset E else ret ()) (\<lambda>_. monitorLoop E w) (NewLoader d) = Some (Ok (), l1)"
    using loop [of l0] by (auto simp: bind_io_eval)
  then show ?thesis using assms(1) by (auto simp: Monitor_def deferClose_def prim_defs split: prod.splits)
qed

text \<open>A port that delivers one byte at a time and is interrupted after some reads.\<close>

definition tickEnv :: "nat env" where
  "tickEnv = \<lparr>t_read = (\<lambda>_ d. (([65], None), d - 1)), t_write = (\<lambda>b d. ((int (length b), None), d)), t_close = (\<lambda>d. (None, d)),
     t_setBaud = (\<lambda>_ d. (None, d)), t_setDTR = (\<lambda>_ d. (None, d)), t_setRTS = (\<lambda>_ d. (None, d)),
     t_setReadTimeout = (\<lambda>_ d. (None, d)), t_flushInput = (\<lambda>d. (None, d)), time_now = (\<lambda>d. (0, d)), time_sleep = (\<lambda>_ d. d),
     ctx_err = (\<lambda>d. (if d = 0 then Some ErrTimeout else None, d))\<rparr>"

lemma Monitor_stops_witness: "\<exists>l. Monitor tickEnv (\<lambda>_ _. Inr 3) ''/dev/ttyUSB0'' 115200 (\<lambda>bs d. ((int (length bs), None), d)) True = Some (Ok (), Some l)"
  by (rule Monitor_stops [where reads = id and d = 3]) (simp_all add: tickEnv_def)

lemma Monitor_listens_witness:
  "\<exists>l. Monitor tickEnv (\<lambda>_ _. Inr 2) ''/dev/ttyUSB0'' 115200 (\<lambda>bs d. ((int (length bs), None), d)) True = Some (Ok (), Some l) \<and> outBy (evs l) = readBy (evs l)
     \<and> outBy (evs l) = [65, 65]"
proof -
  let ?w = "\<lambda>bs d. ((int (length bs), None), d)"
  have r: "monitorRound tickEnv ?w l = Some (if dev l = 0 then (Ok False, logged [] 0 l)
      else (Ok True, logged [EvOut [65]] (dev l - 1) (logged [EvRead [65]] (dev l - 1) (logged [EvSetReadTimeout (200 * millisecond)] (dev l) (logged [] (dev l) l)))))" for l
    by (simp add: monitorRound_def try_io_def bind_io_def prim_defs readSome_def writeOut_def tickEnv_def)
  have l: "monitorLoop tickEnv ?w l = (if dev l = 0 then Some (Ok (), logged [] 0 l)
      else monitorLoop tickEnv ?w (logged [EvOut [65]] (dev l - 1) (logged [EvRead [65]] (dev l - 1) (logged [EvSetReadTimeout (200 * millisecond)] (dev l) (logged [] (dev l) l)))))" for l
    by (subst monitorLoop_step) (simp add: bind_io_def r)
  have "\<exists>l1. monitorLoop tickEnv ?w l = Some (Ok (), l1) \<and> outBy (evs l1) = outBy (evs l) @ [65, 65]" if "dev l = 2" for l
    using that by (simp add: l [of l] l [of "logged _ (Suc 0) _"] l [of "logged _ 0 _"] outBy_def)
  moreover obtain l0 where "monitorReset tickEnv (NewLoader 2) = Some (Ok (), l0)" "dev l0 = 2" "outBy (evs l0) = []"
    by (simp add: monitorReset_def setDTR_def setRTS_def sleep_def ignore_call bind_io_def tickEnv_def NewLoader_def outBy_def)
  ultimately obtain l2 where m: "Monitor tickEnv (\<lambda>_ _. Inr 2) ''/dev/ttyUSB0'' 115200 ?w True = Some (Ok (), Some l2)" "outBy (evs l2) = [65, 65]"
    by (force simp: Monitor_def deferClose_def bind_io_eval prim_defs tickEnv_def [THEN arg_cong, of t_close] outBy_def)
  from Monitor_listens [OF m(1)] m show ?thesis by blast
qed

end
