(* ===== verification/Serial.thy ===== *)
theory Serial
  imports Monitor
begin

text \<open>
  The transport over a serial port (\<open>esp/transport.go\<close>): the adapter of the library
  \<open>go.bug.st/serial\<close>, whose operations on an open port are the record \<open>serialLib\<close>, a parameter.
\<close>

record serialMode =
  BaudRate :: int
  InitialStatusBits :: "(bool \<times> bool) option"  \<comment> \<open>RTS and DTR\<close>

record 'd serialLib =
  s_open :: "string \<Rightarrow> serialMode \<Rightarrow> 'd \<Rightarrow> err + 'd"
  s_read :: "nat \<Rightarrow> 'd \<Rightarrow> (bytes \<times> err option) \<times> 'd"
  s_write :: "bytes \<Rightarrow> 'd \<Rightarrow> (int \<times> err option) \<times> 'd"
  s_close :: "'d \<Rightarrow> err option \<times> 'd"
  s_setMode :: "serialMode \<Rightarrow> 'd \<Rightarrow> err option \<times> 'd"
  s_setDTR :: "bool \<Rightarrow> 'd \<Rightarrow> err option \<times> 'd"
  s_setRTS :: "bool \<Rightarrow> 'd \<Rightarrow> err option \<times> 'd"
  s_setReadTimeout :: "duration \<Rightarrow> 'd \<Rightarrow> err option \<times> 'd"
  s_resetInputBuffer :: "'d \<Rightarrow> err option \<times> 'd"

text \<open>The clock, and the context a call was given.\<close>

record 'd clock =
  c_now :: "'d \<Rightarrow> int \<times> 'd"
  c_sleep :: "duration \<Rightarrow> 'd \<Rightarrow> 'd"
  c_err :: "'d \<Rightarrow> err option \<times> 'd"

definition OpenSerial :: "'d serialLib \<Rightarrow> string \<Rightarrow> int \<Rightarrow> 'd \<Rightarrow> err + 'd" where
  "OpenSerial S name baud = s_open S name \<lparr>BaudRate = baud, InitialStatusBits = Some (False, False)\<rparr>"

definition serialTransport :: "'d serialLib \<Rightarrow> 'd clock \<Rightarrow> 'd env" where
  "serialTransport S C =
     \<lparr>t_read = s_read S, t_write = s_write S, t_close = s_close S,
      t_setBaud = (\<lambda>b. s_setMode S \<lparr>BaudRate = b, InitialStatusBits = None\<rparr>),
      t_setDTR = s_setDTR S, t_setRTS = s_setRTS S, t_setReadTimeout = s_setReadTimeout S,
      t_flushInput = s_resetInputBuffer S, time_now = c_now C, time_sleep = c_sleep C, ctx_err = c_err C\<rparr>"

end
