(* ===== verification/FlagSet.thy ===== *)
theory FlagSet
  imports GoText
begin

text \<open>
  What the commands use of Go's package \<open>flag\<close>: a flag set with string, integer and boolean
  flags, parsed up to the first argument that is not a flag. The map from names to values holds
  the defaults before and the values after parsing.
\<close>

datatype flagValue = FStr string | FInt int | FBool bool

type_synonym flags = "string \<rightharpoonup> flagValue"

datatype flagErr = BadFlagSyntax string | UnknownFlag string | FlagHelp | BadFlagValue string string | NeedsArgument string

text \<open>\<open>flag.Value.Set\<close>, by the kind of the flag.\<close>

definition setFlag :: "flagValue \<Rightarrow> string \<Rightarrow> flagValue option" where
  "setFlag old s = (case old of
       FStr _ \<Rightarrow> Some (FStr s)
     | FInt _ \<Rightarrow> (case ParseInt s of Inl _ \<Rightarrow> None | Inr i \<Rightarrow> Some (FInt i))
     | FBool _ \<Rightarrow> map_option FBool (ParseBool s))"

definition isBool :: "flagValue \<Rightarrow> bool" where
  "isBool v = (case v of FBool _ \<Rightarrow> True | _ \<Rightarrow> False)"

text \<open>\<open>name=value\<close>; the equals sign cannot come first.\<close>

definition splitFlag :: "string \<Rightarrow> string \<times> string option" where
  "splitFlag s = (case Cut (tl s) CHR ''='' of (a, b, ok) \<Rightarrow> if ok then (hd s # a, Some b) else (s, None))"

text \<open>One flag with its value; the flag set is done when the first argument is not a flag.\<close>

definition assign :: "flags \<Rightarrow> string \<Rightarrow> flagValue \<Rightarrow> string \<Rightarrow> string list \<Rightarrow> flagErr + bool \<times> flags \<times> string list" where
  "assign fs name old v r = (case setFlag old v of
       None \<Rightarrow> Inl (BadFlagValue name v)
     | Some new \<Rightarrow> Inr (True, fs(name \<mapsto> new), r))"

fun parseOne :: "flags \<Rightarrow> string list \<Rightarrow> flagErr + bool \<times> flags \<times> string list" where
  "parseOne fs [] = Inr (False, fs, [])"
| "parseOne fs (s # r) =
     (if length s < 2 \<or> s ! 0 \<noteq> CHR ''-'' then Inr (False, fs, s # r)
      else if s = ''--'' then Inr (False, fs, r)
      else let name = drop (if s ! 1 = CHR ''-'' then 2 else 1) s in
        if name = [] \<or> hd name = CHR ''-'' \<or> hd name = CHR ''='' then Inl (BadFlagSyntax s)
        else let (name, val) = splitFlag name in
          case fs name of
            None \<Rightarrow> Inl (if name = ''help'' \<or> name = ''h'' then FlagHelp else UnknownFlag name)
          | Some old \<Rightarrow>
              if isBool old then assign fs name old (case val of Some v \<Rightarrow> v | None \<Rightarrow> ''true'') r
              else (case val of
                  Some v \<Rightarrow> assign fs name old v r
                | None \<Rightarrow> (case r of [] \<Rightarrow> Inl (NeedsArgument name) | v # r' \<Rightarrow> assign fs name old v r')))"

lemma assign_Inr:
  "assign fs name old v r = Inr (seen, fs', r') \<longleftrightarrow> seen \<and> r' = r \<and> (\<exists>new. setFlag old v = Some new \<and> fs' = fs(name \<mapsto> new))"
  by (auto simp: assign_def split: option.split)

lemma parseOne_seen:
  assumes "parseOne fs args = Inr (True, fs', r)"
  obtains name old new v where "fs name = Some old" and "setFlag old v = Some new" and "fs' = fs(name \<mapsto> new)"
    and "length r < length args"
  using assms
  by (cases args) (auto simp: Let_def assign_Inr intro: that split: if_splits option.splits prod.splits list.splits)

function parseFlags :: "flags \<Rightarrow> string list \<Rightarrow> flagErr + flags \<times> string list" where
  "parseFlags fs args =
     (case parseOne fs args of
        Inl e \<Rightarrow> Inl e
      | Inr (seen, fs', r) \<Rightarrow> if seen then parseFlags fs' r else Inr (fs', r))"
  by pat_completeness auto
termination
  by (relation "measure (\<lambda>(fs, args). length args)") (auto elim: parseOne_seen)

declare parseFlags.simps [simp del]

definition strFlag :: "flags \<Rightarrow> string \<Rightarrow> string" where
  "strFlag fs n = (case fs n of Some (FStr s) \<Rightarrow> s | _ \<Rightarrow> [])"

definition intFlag :: "flags \<Rightarrow> string \<Rightarrow> int" where
  "intFlag fs n = (case fs n of Some (FInt i) \<Rightarrow> i | _ \<Rightarrow> 0)"

definition boolFlag :: "flags \<Rightarrow> string \<Rightarrow> bool" where
  "boolFlag fs n = (case fs n of Some (FBool b) \<Rightarrow> b | _ \<Rightarrow> False)"

text \<open>The kinds of the flags stay; a flag is never added or removed.\<close>

definition sameKind :: "flagValue \<Rightarrow> flagValue \<Rightarrow> bool" where
  "sameKind v w \<longleftrightarrow> (case (v, w) of (FStr _, FStr _) \<Rightarrow> True | (FInt _, FInt _) \<Rightarrow> True | (FBool _, FBool _) \<Rightarrow> True | _ \<Rightarrow> False)"

lemma sameKind_refl [simp]: "sameKind v v"
  by (cases v) (simp_all add: sameKind_def)

lemma setFlag_kind: "setFlag v s = Some w \<Longrightarrow> sameKind u v \<Longrightarrow> sameKind u w"
  by (cases u; cases v) (auto simp: setFlag_def sameKind_def split: sum.splits)

lemma sameKind_trans: "sameKind a b \<Longrightarrow> sameKind b c \<Longrightarrow> sameKind a c"
  by (cases a; cases b; cases c) (simp_all add: sameKind_def)

definition sameFlags :: "flags \<Rightarrow> flags \<Rightarrow> bool" where
  "sameFlags f g \<longleftrightarrow> dom f = dom g \<and> (\<forall>n v w. f n = Some v \<and> g n = Some w \<longrightarrow> sameKind v w)"

lemma sameFlags_refl: "sameFlags f f"
  by (auto simp: sameFlags_def)

lemma sameFlags_trans: "sameFlags f g \<Longrightarrow> sameFlags g h \<Longrightarrow> sameFlags f h"
  unfolding sameFlags_def by (metis domD domI sameKind_trans)

lemma sameFlags_set: "fs name = Some old \<Longrightarrow> setFlag old v = Some new \<Longrightarrow> sameFlags fs (fs(name \<mapsto> new))"
  using setFlag_kind [of old v new old] by (auto simp: sameFlags_def)

text \<open>Parsing never adds, removes or changes the kind of a flag.\<close>

lemma parseFlags_typed: "parseFlags fs args = Inr (fs', rest) \<Longrightarrow> sameFlags fs fs'"
proof (induction fs args rule: parseFlags.induct)
  case (1 fs args)
  obtain seen f1 r where one: "parseOne fs args = Inr (seen, f1, r)"
    using "1.prems" by (subst (asm) parseFlags.simps) (auto split: sum.splits)
  show ?case
  proof (cases seen)
    case True
    have "parseFlags f1 r = Inr (fs', rest)" using "1.prems" one True by (subst (asm) parseFlags.simps) simp
    then have "sameFlags f1 fs'" using "1.IH" [OF one refl refl] True by simp
    moreover have "sameFlags fs f1" using one True by (auto elim!: parseOne_seen intro: sameFlags_set)
    ultimately show ?thesis using sameFlags_trans by blast
  next
    case False
    then have "f1 = fs"
      using one by (cases args) (auto simp: Let_def assign_Inr split: if_splits option.splits prod.splits list.splits)
    then show ?thesis using "1.prems" one False by (subst (asm) parseFlags.simps) (simp add: sameFlags_refl)
  qed
qed

lemma parseFlags_plain: "length s < 2 \<or> s ! 0 \<noteq> CHR ''-'' \<Longrightarrow> parseFlags fs (s # r) = Inr (fs, s # r)"
  by (subst parseFlags.simps) simp

lemma parseFlags_Nil: "parseFlags fs [] = Inr (fs, [])"
  by (subst parseFlags.simps) simp

end
