(* ===== verification/Cli.thy ===== *)
theory Cli
  imports Ops Security BundleSpec Detect Serial FlagSet
begin

text \<open>
  The command line (\<open>cmd/flasher/main.go\<close>): one definition per command, over the packages they
  put together.

  The process has the loader of the open port (with the hidden state of everything outside), a
  log of the ports it opened, and a log of the operations on files with the error each of them
  ended with. \<open>os.Exit\<close> is the error of the computation:
  it skips deferred calls, which a panic and a return do not. What a command prints is not
  modelled, except that \<open>list\<close>, \<open>chip-info\<close> and \<open>info\<close> return the values they print; neither is what
  a \<open>pack\<close> that fails half-way leaves in the file it has created. The host is
  a parameter: serial library, clock, port list, file system, JSON, tar and gzip, zlib, and the
  embedded stubs.
\<close>

section \<open>The process\<close>

record ('d, 'o, 'w) host =
  h_serial :: "'d serialLib"
  h_clock :: "'d clock"
  h_ports :: "'d \<Rightarrow> string + rawPort list"
  h_stdout :: "'d writer"
  h_stat :: "string \<Rightarrow> 'd \<Rightarrow> string + bool"
  h_readFile :: "string \<Rightarrow> 'd \<Rightarrow> string + bytes"
  h_open :: "string \<Rightarrow> 'd \<Rightarrow> string + 'o"
  h_create :: "string \<Rightarrow> 'd \<Rightarrow> string option \<times> 'd"
  h_mkdirAll :: "string \<Rightarrow> 'd \<Rightarrow> string option \<times> 'd"
  h_writeFile :: "string \<Rightarrow> bytes \<Rightarrow> 'd \<Rightarrow> string option \<times> 'd"
  h_append :: "string \<Rightarrow> 'd writer"
  h_store :: "string \<Rightarrow> 'o \<Rightarrow> 'd \<Rightarrow> 'd"
  h_args :: "bytes \<Rightarrow> string + flasherArgs"
  h_iter :: iteration
  h_marshal :: "manifest \<Rightarrow> string + bytes"
  h_marshalIndent :: "manifest \<Rightarrow> bytes"
  h_unmarshal :: "bytes \<Rightarrow> manifest \<Rightarrow> string + manifest"
  h_archiver :: "('w, string, 'o) archiver"
  h_unarchive :: "'o \<Rightarrow> string + string tarItem list"
  h_zlib :: "bytes \<Rightarrow> err + bytes"
  h_stubs :: "stubFile \<Rightarrow> err + stubImage"
  h_date :: string

datatype cliErr =
    CliEsp err | CliOs string | CliArgs "(string, string) argsErr" | CliOpen "(string, string) openErr" | CliPack string
  | CliDetect "string detectErr" | NeedsStub err | BadRegion string | BadRegionOffset string numErr
  | BadRegionSize string numErr | BadReadOffset string numErr | BadReadSize string numErr

datatype exit = ExitHelp | ExitUsage | Fatal cliErr

datatype 'o fileOp = OpCreate string | OpMkdirAll string | OpWriteFile string bytes | OpPacked string 'o

record ('d, 'o) proc =
  lo :: "'d loader"
  opened :: "(string \<times> int) list"
  fileOps :: "('o fileOp \<times> string option) list"

type_synonym ('d, 'o, 'a) cmd = "(('d, 'o) proc, exit, 'a) io"

definition exitCode :: "(exit, 'a) outcome \<Rightarrow> nat" where
  "exitCode r = (case r of Ok _ \<Rightarrow> 0 | Fail ExitHelp \<Rightarrow> 0 | Fail ExitUsage \<Rightarrow> 2 | Fail (Fatal _) \<Rightarrow> 1 | Panic \<Rightarrow> 2)"

definition envOf :: "('d, 'o, 'w) host \<Rightarrow> 'd env" where
  "envOf H = serialTransport (h_serial H) (h_clock H)"

definition espIO :: "('d, 'a) esp \<Rightarrow> (('d, 'o) proc, err, 'a) io" where
  "espIO m p = map_option (\<lambda>(r, l). (r, p\<lparr>lo := l\<rparr>)) (m (lo p))"

text \<open>\<open>if err := m; err != nil { fatal(err) }\<close>\<close>

definition fatalEsp :: "('d, 'a) esp \<Rightarrow> ('d, 'o, 'a) cmd" where
  "fatalEsp m = wrap_io (\<lambda>e. Fatal (CliEsp e)) (espIO m)"

text \<open>The error is not fatal here.\<close>

definition ignoreEsp :: "('d, 'a) esp \<Rightarrow> ('d, 'o, unit) cmd" where
  "ignoreEsp m = try_io (espIO m) (\<lambda>_. ret ())"

definition orFatal :: "('e \<Rightarrow> cliErr) \<Rightarrow> 'e + 'a \<Rightarrow> ('d, 'o, 'a) cmd" where
  "orFatal f x = (case x of Inl e \<Rightarrow> throw (Fatal (f e)) | Inr a \<Rightarrow> ret a)"

text \<open>What is read of the world around, and a call that changes a file: the error it returns, if
  any, goes to the log and is fatal.\<close>

definition world :: "('d, 'o, 'd) cmd" where
  "world = bind_io get_io (\<lambda>p. ret (dev (lo p)))"

definition osCall :: "'o fileOp \<Rightarrow> ('d \<Rightarrow> string option \<times> 'd) \<Rightarrow> ('d, 'o, unit) cmd" where
  "osCall op f p = (let (x, d) = f (dev (lo p)) in
     Some (case x of None \<Rightarrow> Ok () | Some e \<Rightarrow> Fail (Fatal (CliOs e)),
           p\<lparr>lo := (lo p)\<lparr>dev := d\<rparr>, fileOps := fileOps p @ [(op, x)]\<rparr>))"

text \<open>\<open>defer l.Close()\<close>\<close>

definition deferCloseCmd :: "'d env \<Rightarrow> ('d, 'o, 'a) cmd \<Rightarrow> ('d, 'o, 'a) cmd" where
  "deferCloseCmd E m p = Option.bind (m p) (\<lambda>(r, p'). case r of
       Fail x \<Rightarrow> Some (Fail x, p')
     | _ \<Rightarrow> map_option (\<lambda>(_, l). (r, p'\<lparr>lo := l\<rparr>)) (Close E (lo p')))"

definition withFlags :: "flags \<Rightarrow> string list \<Rightarrow> (flags \<Rightarrow> string list \<Rightarrow> ('d, 'o, 'a) cmd) \<Rightarrow> ('d, 'o, 'a) cmd" where
  "withFlags fs args k = (case parseFlags fs args of
       Inl FlagHelp \<Rightarrow> throw ExitHelp
     | Inl _ \<Rightarrow> throw ExitUsage
     | Inr (fs', rest) \<Rightarrow> k fs' rest)"

section \<open>Shared helpers\<close>

definition resolvePort :: "('d, 'o, 'w) host \<Rightarrow> string list \<Rightarrow> ('d, 'o, string) cmd" where
  "resolvePort H args =
     (if 1 \<le> length args then ret (args ! 0)
      else bind_io world (\<lambda>d. orFatal CliDetect (DetectPort (h_ports H d))))"

definition openPort :: "('d, 'o, 'w) host \<Rightarrow> string \<Rightarrow> int \<Rightarrow> ('d, 'o, unit) cmd" where
  "openPort H port baud p = (let p = p\<lparr>opened := opened p @ [(port, baud)]\<rparr> in
     case OpenSerial (h_serial H) port baud (dev (lo p)) of
       Inl e \<Rightarrow> Some (Fail (Fatal (CliEsp e)), p)
     | Inr d \<Rightarrow> Some (Ok (), p\<lparr>lo := NewLoader d\<rparr>))"

definition connect :: "('d, 'o, 'w) host \<Rightarrow> string \<Rightarrow> ('d, 'o, unit) cmd" where
  "connect H port = bind_io (openPort H port ROMBaud) (\<lambda>_. fatalEsp (Connect (envOf H)))"

definition loadStub :: "('d, 'o, 'w) host \<Rightarrow> ('d, 'o, unit) cmd" where
  "loadStub H = wrap_io (\<lambda>e. Fatal (NeedsStub e)) (espIO (RunStub (envOf H) (h_stubs H)))"

text \<open>\<open>port := *portFlag; if port == "" { port = resolvePort(args) }\<close>\<close>

definition portOr :: "('d, 'o, 'w) host \<Rightarrow> string \<Rightarrow> string list \<Rightarrow> ('d, 'o, string) cmd" where
  "portOr H portFlag args = (if portFlag = [] then resolvePort H args else ret portFlag)"

definition onoff :: "bool \<Rightarrow> string" where
  "onoff b = (if b then ''ENABLED'' else ''disabled'')"

definition loadFlashSource :: "('d, 'o, 'w) host \<Rightarrow> string \<Rightarrow>
    ('d, 'o, string \<times> string \<times> string \<times> string \<times> flashFile list) cmd" where
  "loadFlashSource H path = bind_io world (\<lambda>d.
     bind_io (orFatal CliOs (h_stat H path d)) (\<lambda>isDir.
     if isDir then
       bind_io (orFatal CliArgs (Load (\<lambda>f. h_readFile H f d) (h_args H) (h_iter H) path)) (\<lambda>(fa, ff).
       ret (ExtraChip fa, FlashMode fa, FlashSize fa, FlashFreq fa, ff))
     else
       bind_io (orFatal CliOs (h_open H path d)) (\<lambda>f.
       bind_io (orFatal CliOpen (OpenBundle (h_unarchive H) (h_unmarshal H) f)) (\<lambda>b.
       let m = Manifest b in ret (mChip m, mFlashMode m, mFlashSize m, mFlashFreq m, BundleFlashFiles b)))))"

section \<open>flash\<close>

fun writeImages :: "('d, 'o, 'w) host \<Rightarrow> flashFile list \<Rightarrow> ('d, 'o, unit) cmd" where
  "writeImages H [] = ret ()"
| "writeImages H (f # fs) =
     bind_io (fatalEsp (WriteFlash (envOf H) (h_zlib H) (ffOffset f) (ffData f) True)) (\<lambda>_. writeImages H fs)"

text \<open>The session on a connected port; without a stub it goes on in ROM mode.\<close>

definition flashSession :: "('d, 'o, 'w) host \<Rightarrow> int \<Rightarrow> string \<Rightarrow> flashFile list \<Rightarrow> ('d, 'o, unit) cmd" where
  "flashSession H baud fsize fls = (let E = envOf H in
     bind_io (ignoreEsp (RunStub E (h_stubs H))) (\<lambda>_.
     bind_io (fatalEsp (SpiAttach E)) (\<lambda>_.
     bind_io (fatalEsp (SpiSetParams E (FlashSizeBytes fsize))) (\<lambda>_.
     bind_io (if baud \<noteq> ROMBaud then fatalEsp (ChangeBaud E baud) else ret ()) (\<lambda>_.
     bind_io (writeImages H fls) (\<lambda>_.
     bind_io (ignoreEsp (FlashFinish E False)) (\<lambda>_.
     ignoreEsp (HardReset E))))))))"

definition flashFlags :: flags where
  "flashFlags = [''baud'' \<mapsto> FInt 921600, ''port'' \<mapsto> FStr [], ''dry-run'' \<mapsto> FBool False]"

definition cmdFlash :: "('d, 'o, 'w) host \<Rightarrow> string list \<Rightarrow> ('d, 'o, unit) cmd" where
  "cmdFlash H args = withFlags flashFlags args (\<lambda>fs rest.
     if length rest < 1 then throw ExitUsage
     else bind_io (loadFlashSource H (rest ! 0)) (\<lambda>(chip, fmode, fsize, ffreq, fls).
       if boolFlag fs ''dry-run'' then ret ()
       else bind_io (portOr H (strFlag fs ''port'') []) (\<lambda>port.
         bind_io (connect H port) (\<lambda>_.
         deferCloseCmd (envOf H) (flashSession H (intFlag fs ''baud'') fsize fls)))))"

section \<open>erase and read\<close>

definition parseRegion :: "string \<Rightarrow> cliErr + u32 \<times> u32" where
  "parseRegion s = (case Cut s CHR '':'' of (a, b, ok) \<Rightarrow>
     if \<not> ok then Inl (BadRegion s)
     else case ParseUint a of
       Inl e \<Rightarrow> Inl (BadRegionOffset a e)
     | Inr off \<Rightarrow> (case ParseUint b of Inl e \<Rightarrow> Inl (BadRegionSize b e) | Inr sz \<Rightarrow> Inr (off, sz)))"

definition eraseSession :: "('d, 'o, 'w) host \<Rightarrow> string \<Rightarrow> ('d, 'o, unit) cmd" where
  "eraseSession H region = (let E = envOf H in
     bind_io (loadStub H) (\<lambda>_.
     bind_io (if region \<noteq> [] then
         bind_io (orFatal id (parseRegion region)) (\<lambda>(off, sz). fatalEsp (EraseRegion E off sz))
       else fatalEsp (EraseFlash E)) (\<lambda>_.
     ignoreEsp (HardReset E))))"

definition cmdErase :: "('d, 'o, 'w) host \<Rightarrow> string list \<Rightarrow> ('d, 'o, unit) cmd" where
  "cmdErase H args = withFlags [''port'' \<mapsto> FStr [], ''region'' \<mapsto> FStr []] args (\<lambda>fs rest.
     bind_io (portOr H (strFlag fs ''port'') rest) (\<lambda>port.
     bind_io (connect H port) (\<lambda>_.
     deferCloseCmd (envOf H) (eraseSession H (strFlag fs ''region'')))))"

definition readSession :: "('d, 'o, 'w) host \<Rightarrow> u32 \<Rightarrow> u32 \<Rightarrow> string \<Rightarrow> ('d, 'o, unit) cmd" where
  "readSession H off sz outfile = (let E = envOf H in
     bind_io (loadStub H) (\<lambda>_.
     bind_io (fatalEsp (ReadFlash E off sz True)) (\<lambda>data.
     bind_io (osCall (OpWriteFile outfile data) (h_writeFile H outfile data)) (\<lambda>_.
     ignoreEsp (HardReset E)))))"

definition cmdRead :: "('d, 'o, 'w) host \<Rightarrow> string list \<Rightarrow> ('d, 'o, unit) cmd" where
  "cmdRead H args = withFlags [''port'' \<mapsto> FStr []] args (\<lambda>fs rest.
     if length rest < 3 then throw ExitUsage
     else
       bind_io (orFatal (BadReadOffset (rest ! 0)) (ParseUint (rest ! 0))) (\<lambda>off.
       bind_io (orFatal (BadReadSize (rest ! 1)) (ParseUint (rest ! 1))) (\<lambda>sz.
       bind_io (portOr H (strFlag fs ''port'') []) (\<lambda>port.
       bind_io (connect H port) (\<lambda>_.
       deferCloseCmd (envOf H) (readSession H off sz (rest ! 2)))))))"

section \<open>pack and unpack\<close>

definition defaultBundleName :: "string \<Rightarrow> string" where
  "defaultBundleName buildDir =
     (let base = pathBase (pathClean buildDir);
          base = (if base = ''build'' then pathBase (pathDir (pathClean buildDir)) else base);
          base = (if base = [] \<or> base = ''.'' \<or> base = ''/'' then ''firmware'' else base)
      in base @ ''.fbundle'')"

definition cmdPack :: "('d, 'o, 'w) host \<Rightarrow> string list \<Rightarrow> ('d, 'o, unit) cmd" where
  "cmdPack H args = withFlags [''o'' \<mapsto> FStr [], ''version'' \<mapsto> FStr []] args (\<lambda>fs rest.
     if length rest < 1 then throw ExitUsage
     else bind_io world (\<lambda>d.
       let buildDir = rest ! 0 in
       bind_io (orFatal CliArgs (FromBuildDir (\<lambda>f. h_readFile H f d) (h_args H) (h_iter H) buildDir
           (strFlag fs ''version'') (h_date H))) (\<lambda>b.
       let outPath = (if strFlag fs ''o'' = [] then defaultBundleName buildDir else strFlag fs ''o'') in
       bind_io (osCall (OpCreate outPath) (h_create H outPath)) (\<lambda>_.
       bind_io (orFatal CliPack (Pack (h_archiver H) (h_marshal H) b)) (\<lambda>out.
       osCall (OpPacked outPath out) (\<lambda>d. (None, h_store H outPath out d)))))))"

fun unpackFiles :: "('d, 'o, 'w) host \<Rightarrow> string \<Rightarrow> fbundle \<Rightarrow> bundleFile list \<Rightarrow> ('d, 'o, unit) cmd" where
  "unpackFiles H dir b [] = ret ()"
| "unpackFiles H dir b (f # fs) =
     (let d = (case BundleFile b (fName f) of Some d \<Rightarrow> d | None \<Rightarrow> []); path = pathJoin dir (fName f) in
      bind_io (osCall (OpWriteFile path d) (h_writeFile H path d)) (\<lambda>_. unpackFiles H dir b fs))"

definition cmdUnpack :: "('d, 'o, 'w) host \<Rightarrow> string list \<Rightarrow> ('d, 'o, unit) cmd" where
  "cmdUnpack H args = withFlags [''C'' \<mapsto> FStr ''.''] args (\<lambda>fs rest.
     if length rest < 1 then throw ExitUsage
     else bind_io world (\<lambda>d.
       bind_io (orFatal CliOs (h_open H (rest ! 0) d)) (\<lambda>f.
       bind_io (orFatal CliOpen (OpenBundle (h_unarchive H) (h_unmarshal H) f)) (\<lambda>b.
       let dir = strFlag fs ''C''; mj = h_marshalIndent H (Manifest b); path = pathJoin dir ''manifest.json'' in
       bind_io (osCall (OpMkdirAll dir) (h_mkdirAll H dir)) (\<lambda>_.
       bind_io (osCall (OpWriteFile path mj) (h_writeFile H path mj)) (\<lambda>_.
       unpackFiles H dir b (mFiles (Manifest b))))))))"

section \<open>monitor\<close>

text \<open>\<open>io.MultiWriter\<close>: every writer gets the bytes, until one has an error or takes too few.\<close>

fun multiWriter :: "'d writer list \<Rightarrow> 'd writer" where
  "multiWriter [] bs d = ((int (length bs), None), d)"
| "multiWriter (w # ws) bs d = (case w bs d of
     ((n, Some e), d') \<Rightarrow> ((n, Some e), d')
   | ((n, None), d') \<Rightarrow> if n \<noteq> int (length bs) then ((n, Some (External ''short write'')), d') else multiWriter ws bs d')"

text \<open>The error is dropped when the context was cancelled.\<close>

definition runMonitor :: "('d, 'o, 'w) host \<Rightarrow> string \<Rightarrow> int \<Rightarrow> 'd writer \<Rightarrow> bool \<Rightarrow> ('d, 'o, unit) cmd" where
  "runMonitor H port baud w reset p =
     Option.bind (Monitor (envOf H) (\<lambda>n b. OpenSerial (h_serial H) n b (dev (lo p))) port baud w reset) (\<lambda>(r, x).
       let p' = p\<lparr>opened := opened p @ [(port, baud)], lo := (case x of Some l \<Rightarrow> l | None \<Rightarrow> lo p)\<rparr> in
       case r of
         Ok _ \<Rightarrow> Some (Ok (), p')
       | Panic \<Rightarrow> Some (Panic, p')
       | Fail e \<Rightarrow> try_io (espIO (ctxErr (envOf H))) (\<lambda>c. case c of Inl _ \<Rightarrow> ret () | Inr _ \<Rightarrow> throw (Fatal (CliEsp e))) p')"

definition cmdMonitor :: "('d, 'o, 'w) host \<Rightarrow> string list \<Rightarrow> ('d, 'o, unit) cmd" where
  "cmdMonitor H args = withFlags [''baud'' \<mapsto> FInt 115200, ''out'' \<mapsto> FStr [], ''reset'' \<mapsto> FBool False] args (\<lambda>fs rest.
     bind_io (resolvePort H rest) (\<lambda>port.
     let out = strFlag fs ''out'' in
     bind_io (if out \<noteq> [] then
         bind_io (osCall (OpCreate out) (h_create H out)) (\<lambda>_. ret (multiWriter [h_stdout H, h_append H out]))
       else ret (h_stdout H)) (\<lambda>w.
     runMonitor H port (intFlag fs ''baud'') w (boolFlag fs ''reset''))))"

section \<open>list, chip-info and info\<close>

definition cmdList :: "('d, 'o, 'w) host \<Rightarrow> ('d, 'o, portInfo list) cmd" where
  "cmdList H = bind_io world (\<lambda>d.
     bind_io (orFatal CliOs (ListPorts (h_ports H d))) (\<lambda>ports.
     ret (map (\<lambda>p. if piVendor p = [] then p\<lparr>piVendor := ''unknown''\<rparr> else p) (filter piIsUSB ports))))"

record identity =
  idMAC :: string
  idEUI64 :: string
  idWiFi :: string
  idBLE :: string

definition printIdentity :: "('d, 'o, 'w) host \<Rightarrow> ('d, 'o, macs \<times> identity) cmd" where
  "printIdentity H = bind_io (fatalEsp (MACs (envOf H))) (\<lambda>m.
     ret (m, \<lparr>idMAC = HexID (WiFiSTA m), idEUI64 = EUI64Hex (WiFiSTA m), idWiFi = FormatMAC (WiFiSTA m), idBLE = FormatMAC (BT m)\<rparr>))"

definition printChipID :: "securityInfo \<Rightarrow> u32 \<times> string" where
  "printChipID si = (SecChipID si, ChipName (SecChipID si))"

definition cmdChipInfo :: "('d, 'o, 'w) host \<Rightarrow> string list \<Rightarrow> ('d, 'o, identity \<times> (u32 \<times> string) option) cmd" where
  "cmdChipInfo H args = bind_io (resolvePort H args) (\<lambda>port.
     bind_io (connect H port) (\<lambda>_.
     deferCloseCmd (envOf H) (
       bind_io (printIdentity H) (\<lambda>(_, ident).
       try_io (espIO (SecurityInfo (envOf H))) (\<lambda>r.
       bind_io (ignoreEsp (HardReset (envOf H))) (\<lambda>_.
       ret (ident, case r of Inl _ \<Rightarrow> None | Inr si \<Rightarrow> Some (printChipID si))))))))"

record infoReport =
  irIdentity :: identity
  irWiFiAP :: string
  irETH :: string
  irChip :: "u32 \<times> string"
  irSecureBoot :: string
  irFlashEncryption :: string
  irSecureDownload :: string
  irRevoked :: "bool \<times> bool \<times> bool"
  irFlags :: u32
  irCryptCnt :: byte
  irKeys :: "string list"

definition cmdInfo :: "('d, 'o, 'w) host \<Rightarrow> string list \<Rightarrow> ('d, 'o, infoReport) cmd" where
  "cmdInfo H args = bind_io (resolvePort H args) (\<lambda>port.
     bind_io (connect H port) (\<lambda>_.
     deferCloseCmd (envOf H) (
       bind_io (printIdentity H) (\<lambda>(m, ident).
       bind_io (fatalEsp (SecurityInfo (envOf H))) (\<lambda>si.
       bind_io (ignoreEsp (HardReset (envOf H))) (\<lambda>_.
       ret \<lparr>irIdentity = ident, irWiFiAP = FormatMAC (WiFiAP m), irETH = FormatMAC (ETH m), irChip = printChipID si,
         irSecureBoot = onoff (SecureBoot si), irFlashEncryption = onoff (FlashEncryption si),
         irSecureDownload = onoff (SecureDownload si), irRevoked = KeyRevocations si, irFlags = Flags si, irCryptCnt = FlashCryptCnt si,
         irKeys = map KeyPurposeName (take 6 (KeyPurposes si))\<rparr>))))))"

section \<open>main\<close>

definition void_cmd :: "('d, 'o, 'a) cmd \<Rightarrow> ('d, 'o, unit) cmd" where
  "void_cmd m = bind_io m (\<lambda>_. ret ())"

text \<open>\<open>args\<close> is \<open>os.Args\<close>, the program's name first.\<close>

definition mainCmd :: "('d, 'o, 'w) host \<Rightarrow> string list \<Rightarrow> ('d, 'o, unit) cmd" where
  "mainCmd H args =
     (if length args < 2 then throw ExitUsage
      else let c = args ! 1; r = drop 2 args in
        if c = ''list'' then void_cmd (cmdList H)
        else if c = ''chip-info'' then void_cmd (cmdChipInfo H r)
        else if c = ''info'' then void_cmd (cmdInfo H r)
        else if c = ''monitor'' then cmdMonitor H r
        else if c = ''flash'' then cmdFlash H r
        else if c = ''erase'' then cmdErase H r
        else if c = ''read'' then cmdRead H r
        else if c = ''pack'' then cmdPack H r
        else if c = ''unpack'' then cmdUnpack H r
        else throw ExitUsage)"

end
