(* ===== verification/FlashIdle.thy ===== *)
theory FlashIdle
  imports Ops
begin

text \<open>
  What leaves the flash of the chip alone: every operation of the loader except the write paths
  puts only bytes on the line that the chip's receiver passes over without touching the flash,
  whether the operation succeeds or not, and wherever its frames were cut.
\<close>

definition harmless :: "(bytes \<Rightarrow> 's \<Rightarrow> 's) \<Rightarrow> bytes \<Rightarrow> bool" where
  "harmless exec acc \<longleftrightarrow> (\<forall>s. fold exec (closed acc) s = s)"

lemma harmless_Nil [simp]: "harmless exec []"
  by (simp add: harmless_def)

definition idleLine :: "(bytes \<Rightarrow> 's \<Rightarrow> 's) \<Rightarrow> bytes \<Rightarrow> bool" where
  "idleLine exec w \<longleftrightarrow> (\<forall>acc s. harmless exec acc \<longrightarrow> (\<exists>acc'. receive exec (acc, s) w = (acc', s) \<and> harmless exec acc'))"

lemma idleLine_Nil [simp]: "idleLine exec []"
  by (simp add: idleLine_def)

lemma idleLine_append: "idleLine exec v \<Longrightarrow> idleLine exec w \<Longrightarrow> idleLine exec (v @ w)"
  unfolding idleLine_def by (metis receive_append)

definition idle :: "(bytes \<Rightarrow> 's \<Rightarrow> 's) \<Rightarrow> 'd loader \<Rightarrow> 'd loader \<Rightarrow> bool" where
  "idle exec l l' \<longleftrightarrow> (\<exists>w. sent l' = sent l @ w \<and> idleLine exec w)"

lemma idle_same: "sent l' = sent l \<Longrightarrow> idle exec l l'"
  by (auto simp: idle_def)

lemma idle_trans: "idle exec l m \<Longrightarrow> idle exec m n \<Longrightarrow> idle exec l n"
  unfolding idle_def by (metis append.assoc idleLine_append)

interpretation idle: read_rel "idle exec" for exec
  by unfold_locales (auto intro: idle_same idle_trans)

lemma keeps_idle_call:
  assumes "\<And>bs. e \<noteq> EvWrite bs"
  shows "keeps (idle exec) (call e f)"
  using assms by (auto intro!: keepsI idle_same simp: call_def split: prod.splits event.splits)

lemma keeps_idle_lines [keeps_intros]:
  "keeps (idle exec) (setDTR E v)" "keeps (idle exec) (setRTS E v)" "keeps (idle exec) (setBaud E b)"
  "keeps (idle exec) (flushInput E)" "keeps (idle exec) (Close E)"
  by (simp_all add: prim_defs(2-) keeps_idle_call)

lemma keeps_idle_sleep [keeps_intros]: "keeps (idle exec) (sleep E t)"
  by (auto intro!: keepsI idle_same simp: sleep_def)

lemma keeps_idle_upd [keeps_intros]:
  "keeps (idle exec) (upd_io (\<lambda>l. l\<lparr>stub := b\<rparr>))" "keeps (idle exec) (upd_io (\<lambda>l. l\<lparr>chip_of := c\<rparr>))"
  "keeps (idle exec) (upd_io (\<lambda>l. l\<lparr>curBaud := n\<rparr>))"
  by (auto intro!: idle.keeps_upd idle_same)

lemma keeps_idle_void [keeps_intros]: "keeps (idle exec) m \<Longrightarrow> keeps (idle exec) (void m)"
  unfolding void_def by (intro keeps_intros)

section \<open>Requests\<close>

text \<open>A request the chip runs without touching the flash, cut or not.\<close>

context executor
begin

lemma cut_harmless:
  assumes "length d < 65536" and "\<And>s. exec (encodeCommand c d k) s = s"
    and "\<forall>q \<in> set (closed acc). \<exists>j. q = take j (encodeCommand c d k)"
  shows "harmless exec acc"
  using pending_harmless [OF assms(1,3)] assms(2) by (auto simp: harmless_def)

lemma idleLine_cut:
  assumes "length d < 65536" and "\<And>s. exec (encodeCommand c d k) s = s"
  shows "idleLine exec (take j (slipEncode (encodeCommand c d k)))"
  unfolding idleLine_def
proof (intro allI impI)
  let ?p = "encodeCommand c d k"
  fix acc s assume h: "harmless exec acc"
  then have acc: "fold exec (closed acc) s = s" by (simp add: harmless_def)
  show "\<exists>acc'. receive exec (acc, s) (take j (slipEncode ?p)) = (acc', s) \<and> harmless exec acc'"
  proof (rule receive_cut [where p = ?p and k = j and exec = exec and acc = acc and s = s])
    fix acc'
    assume "receive exec (acc, s) (take j (slipEncode ?p)) = (acc', fold exec (closed acc) s)"
      and "\<forall>q \<in> set (closed acc'). \<exists>j. q = take j ?p"
    then show ?thesis using cut_harmless [OF assms] acc by auto
  next
    assume "receive exec (acc, s) (take j (slipEncode ?p)) = ([], exec ?p (fold exec (closed acc) s))"
    then show ?thesis using acc assms(2) by auto
  next
    assume none: "take j (slipEncode ?p) = []"
    show ?thesis unfolding none receive_Nil using h by blast
  qed simp
qed

lemma keeps_idle_command:
  assumes "length d < 65536" and "\<And>s. exec (encodeCommand c d k) s = s"
  shows "keeps (idle exec) (command E c d k t)"
  by (rule keepsI) (auto dest!: command_sent simp: idle_def intro: idleLine_cut [OF assms])

end

section \<open>The operations that do not write the flash\<close>

definition flashCmd :: "byte \<Rightarrow> bool" where
  "flashCmd c \<longleftrightarrow> c \<in> {cmdFlashBegin, cmdFlashData, cmdFlashDeflBegin, cmdFlashDeflData}"

lemma exec_other: "\<not> flashCmd c \<Longrightarrow> length d < 65536 \<Longrightarrow> execFlash inflate (encodeCommand c d k) s = s"
  by (auto simp: execFlash_def parseRequest_encodeCommand flashCmd_def)

lemma not_flashCmd [simp]:
  "\<not> flashCmd cmdSync" "\<not> flashCmd cmdGetSecurityInfo" "\<not> flashCmd cmdMemBegin" "\<not> flashCmd cmdMemData" "\<not> flashCmd cmdMemEnd"
  "\<not> flashCmd cmdSpiAttach" "\<not> flashCmd cmdSpiSetParams" "\<not> flashCmd cmdChangeBaudrate" "\<not> flashCmd cmdFlashEnd"
  "\<not> flashCmd cmdReadReg" "\<not> flashCmd cmdReadFlash" "\<not> flashCmd cmdSpiFlashMD5"
  by (simp_all add: flashCmd_def cmd_defs)

lemma keeps_idle_other:
  assumes "\<not> flashCmd c" and "length d < 65536"
  shows "keeps (idle (execFlash inflate)) (command E c d k t)"
  using assms by (intro flash_chip.keeps_idle_command exec_other)

lemma keeps_idle_reset [keeps_intros]:
  "keeps (idle exec) (resetToBootloader E)" "keeps (idle exec) (HardReset E)"
  unfolding resetToBootloader_def HardReset_def by (intro keeps_intros)+

lemma keeps_idle_sync [keeps_intros]: "keeps (idle (execFlash inflate)) (sync E)"
  unfolding sync_def by (intro keeps_intros idle.keeps_drainEchoes keeps_idle_other) (simp_all add: syncPayload_def)

lemma keeps_idle_trySync [keeps_intros]: "keeps (idle (execFlash inflate)) (trySync E n)"
  by (induction n) (simp_all only: trySync.simps, (intro keeps_intros; assumption)+)

lemma keeps_idle_connectLoop [keeps_intros]: "keeps (idle (execFlash inflate)) (connectLoop E n)"
  by (induction n) (simp_all only: connectLoop.simps, (intro keeps_intros idle.keeps_ctxErr; assumption?)+)

lemma keeps_idle_Connect [keeps_intros]: "keeps (idle (execFlash inflate)) (Connect E)"
  unfolding Connect_def by (rule keeps_idle_connectLoop)

lemma keeps_idle_ensureChip [keeps_intros]: "keeps (idle (execFlash inflate)) (ensureChip E)"
  unfolding ensureChip_def ChipID_def Let_def by (intro keeps_intros keeps_idle_other) simp_all

lemma block_bound:
  fixes start n :: u32
  assumes "\<not> (if start + espRAMBlock > n then n else start + espRAMBlock) < start"
  shows "unat (if start + espRAMBlock > n then n else start + espRAMBlock) - unat start \<le> 0x1800"
proof -
  have "unat (start + espRAMBlock) \<le> unat start + 0x1800"
    using mod_less_eq_dividend [of "unat start + 0x1800" "2 ^ 32"] by (simp add: unat_word_ariths)
  moreover have "n < start + espRAMBlock \<Longrightarrow> unat n \<le> unat (start + espRAMBlock)"
    by (simp add: word_less_nat_alt)
  ultimately show ?thesis by auto
qed

lemma keeps_idle_memLoop [keeps_intros]: "keeps (idle (execFlash inflate)) (memLoop E data n seq k)"
proof (induction k arbitrary: seq)
  case (Suc k)
  define start stop where "start = seq * espRAMBlock"
    and "stop = (if start + espRAMBlock > n then n else start + espRAMBlock)"
  show ?case
  proof (cases "stop < start")
    case True
    then show ?thesis
      by (simp only: memLoop.simps Let_def start_def [symmetric] stop_def [symmetric] if_True idle.keeps_panic)
  next
    case False
    define block where "block = take (unat stop - unat start) (drop (unat start) data)"
    have "unat stop - unat start \<le> 0x1800"
      unfolding stop_def by (rule block_bound [OF False [unfolded stop_def]])
    then have "length (blockData seq block) < 65536" by (simp add: block_def)
    then have "keeps (idle (execFlash inflate)) (command E cmdMemData (blockData seq block) (checksum block) cmdTimeout)"
      by (intro keeps_idle_other) simp_all
    then show ?thesis
      using False
      by (simp only: memLoop.simps Let_def start_def [symmetric] stop_def [symmetric] if_False block_def [symmetric])
        (intro idle.keeps_bind Suc.IH)
  qed
qed (simp add: idle.keeps_ret del: ret_apply)

lemma keeps_idle_RunStub [keeps_intros]: "keeps (idle (execFlash inflate)) (RunStub E unmarshal)"
proof -
  have ohai: "keeps (idle (execFlash inflate)) (awaitOHAI E i)" for i
    by (induction i) (simp_all only: awaitOHAI.simps, (intro keeps_intros; assumption?)+)
  have up: "keeps (idle (execFlash inflate)) (memUpload E data addr)" for data addr
    unfolding memUpload_def Let_def
    by (intro keeps_intros keeps_idle_other) (simp_all add: memBeginData_conv)
  have fin: "keeps (idle (execFlash inflate)) (memFinish E entry)" for entry
    unfolding memFinish_def by (intro keeps_intros keeps_idle_other) (simp_all add: memEndData_def put32_def Let_def)
  show ?thesis
    unfolding RunStub_def by (intro keeps_intros idle.keeps_theChip up fin ohai)
qed

lemma keeps_idle_flash_setup [keeps_intros]:
  "keeps (idle (execFlash inflate)) (SpiAttach E)" "keeps (idle (execFlash inflate)) (SpiSetParams E sz)"
  "keeps (idle (execFlash inflate)) (ChangeBaud E b)" "keeps (idle (execFlash inflate)) (FlashFinish E reboot)"
  unfolding SpiAttach_def SpiSetParams_def ChangeBaud_def FlashFinish_def Let_def
  by (intro keeps_intros keeps_idle_other; simp add: put32_def)+

end
