(* ===== verification/CliFlash.thy ===== *)
theory CliFlash
  imports Cli FlashIdle
begin

text \<open>
  \<open>flasher flash\<close> end to end: a run that exits with status 0 has put bytes on the line that make
  the chip's flash hold every image of the build, whatever the stub, the baud rate and the port
  did on the way. The images are those of the source the command loaded.
\<close>

section \<open>Commands over the loader\<close>

lemma espIO_Some: "espIO m p = Some (r, p') \<longleftrightarrow> (\<exists>l. m (lo p) = Some (r, l) \<and> p' = p\<lparr>lo := l\<rparr>)"
  by (auto simp: espIO_def)

lemma fatalEsp_Ok [io_inv]: "fatalEsp m p = Some (Ok a, p') \<longleftrightarrow> (\<exists>l. m (lo p) = Some (Ok a, l) \<and> p' = p\<lparr>lo := l\<rparr>)"
  by (simp add: fatalEsp_def wrap_io_Ok espIO_Some)

lemma ignoreEsp_Ok [io_inv]:
  "ignoreEsp m p = Some (Ok (), p') \<longleftrightarrow> (\<exists>r l. m (lo p) = Some (r, l) \<and> r \<noteq> Panic \<and> p' = p\<lparr>lo := l\<rparr>)"
proof (cases rule: io_exhaust [of "espIO m" p])
  case (Ok a p1)
  then show ?thesis by (auto simp: ignoreEsp_def try_io_eval espIO_Some)
next
  case (Fail e p1)
  then show ?thesis by (auto simp: ignoreEsp_def try_io_eval espIO_Some)
next
  case (Panic p1)
  then show ?thesis by (auto simp: ignoreEsp_def try_io_eval espIO_Some)
qed (auto simp: ignoreEsp_def try_io_eval espIO_def)

lemma orFatal_Ok [io_inv]: "orFatal f x p = Some (Ok a, p') \<longleftrightarrow> x = Inr a \<and> p' = p"
  by (cases x) (auto simp: orFatal_def)

lemma world_bind: "bind_io world k p = k (dev (lo p)) p"
  by (simp add: world_def bind_io_def)

lemma deferClose_Ok [io_inv]:
  "deferCloseCmd E m p = Some (Ok a, p') \<longleftrightarrow>
   (\<exists>p1 x l. m p = Some (Ok a, p1) \<and> Close E (lo p1) = Some (x, l) \<and> p' = p1\<lparr>lo := l\<rparr>)"
proof (cases rule: io_exhaust [of m p])
  case (Ok a p1)
  obtain x d where "t_close E (dev (lo p1)) = (x, d)" by (metis surj_pair)
  then obtain y l where "Close E (lo p1) = Some (y, l)" by (simp add: Close_def call_def)
  with Ok show ?thesis by (auto simp: deferCloseCmd_def)
qed (auto simp: deferCloseCmd_def split: option.split)

lemma connect_Ok:
  assumes "connect H port p = Some (Ok (), p')"
  obtains d l where "OpenSerial (h_serial H) port ROMBaud (dev (lo p)) = Inr d"
    and "Connect (envOf H) (NewLoader d) = Some (Ok (), l)"
    and "p' = p\<lparr>lo := l, opened := opened p @ [(port, ROMBaud)]\<rparr>"
  using assms by (auto simp: connect_def bind_io_Ok openPort_def fatalEsp_Ok Let_def split: sum.splits)

section \<open>The images on the flash\<close>

definition imageOf :: "bool \<Rightarrow> flashFile \<Rightarrow> bytes" where
  "imageOf st f = (if st then ffData f else padBlocks 1024 (ffData f))"

definition flashOne :: "bool \<Rightarrow> flashFile \<Rightarrow> (nat \<Rightarrow> byte) \<Rightarrow> (nat \<Rightarrow> byte)" where
  "flashOne st f m = programAt (unat (ffOffset f)) (imageOf st f) (eraseRange (unat (ffOffset f)) (length (imageOf st f)) m)"

text \<open>The sectors a write of the file may erase, in either mode.\<close>

definition sectorsOf :: "flashFile \<Rightarrow> nat set" where
  "sectorsOf f = {a. inSectors (unat (ffOffset f)) (length (padBlocks 1024 (ffData f))) a}"

lemma inSectors_mono: "n \<le> k \<Longrightarrow> inSectors off n a \<Longrightarrow> inSectors off k a"
proof -
  assume "n \<le> k" "inSectors off n a"
  moreover from \<open>n \<le> k\<close> have "(off + n + 4095) div 4096 \<le> (off + k + 4095) div 4096" by (simp add: div_le_mono)
  ultimately show ?thesis by (auto simp: inSectors_def)
qed

lemma flashOne_other: "a \<notin> sectorsOf f \<Longrightarrow> flashOne st f m a = m a"
  using inSectors_mono [OF length_padBlocks(2) [of "ffData f" 1024], of "unat (ffOffset f)" a]
  unfolding flashOne_def sectorsOf_def
  by (intro programmed_other) (auto simp: imageOf_def)

lemma flashOne_data: "i < length (ffData f) \<Longrightarrow> flashOne st f m (unat (ffOffset f) + i) = ffData f ! i"
  using length_padBlocks(2) [of "ffData f" 1024]
  by (simp add: flashOne_def imageOf_def programmed_region padBlocks_nth)

lemma sectorsOf_data: "i < length (ffData f) \<Longrightarrow> unat (ffOffset f) + i \<in> sectorsOf f"
  using length_padBlocks(2) [of "ffData f" 1024] unfolding sectorsOf_def by (auto intro: inSectors_covers)

definition apart :: "flashFile list \<Rightarrow> bool" where
  "apart fls \<longleftrightarrow> (\<forall>f \<in> set fls. \<forall>g \<in> set fls. f \<noteq> g \<longrightarrow> sectorsOf f \<inter> sectorsOf g = {})"

lemma fold_flashOne:
  "apart fls \<Longrightarrow> (\<forall>f \<in> set fls. \<forall>i < length (ffData f). fold (flashOne st) fls m (unat (ffOffset f) + i) = ffData f ! i)
    \<and> (\<forall>a. (\<forall>f \<in> set fls. a \<notin> sectorsOf f) \<longrightarrow> fold (flashOne st) fls m a = m a)"
proof (induction fls rule: rev_induct)
  case (snoc g fls)
  then have IH: "\<forall>f \<in> set fls. \<forall>i < length (ffData f). fold (flashOne st) fls m (unat (ffOffset f) + i) = ffData f ! i"
    "\<forall>a. (\<forall>f \<in> set fls. a \<notin> sectorsOf f) \<longrightarrow> fold (flashOne st) fls m a = m a"
    by (simp_all add: apart_def)
  have "fold (flashOne st) (fls @ [g]) m (unat (ffOffset f) + i) = ffData f ! i"
    if f: "f \<in> set (fls @ [g])" "i < length (ffData f)" for f i
  proof (cases "f = g")
    case True
    then show ?thesis using f(2) by (simp add: flashOne_data)
  next
    case False
    then have "sectorsOf f \<inter> sectorsOf g = {}" using f(1) snoc.prems by (auto simp: apart_def)
    then have "unat (ffOffset f) + i \<notin> sectorsOf g" using sectorsOf_data [OF f(2)] by blast
    then show ?thesis using False f IH(1) by (simp add: flashOne_other)
  qed
  moreover have "fold (flashOne st) (fls @ [g]) m a = m a" if "\<forall>f \<in> set (fls @ [g]). a \<notin> sectorsOf f" for a
    using that IH(2) by (simp add: flashOne_other)
  ultimately show ?case by blast
qed simp

text \<open>What the compressor must give for an image: something not empty, not too long, that inflates
  to the image.\<close>

definition deflates :: "(bytes \<Rightarrow> err + bytes) \<Rightarrow> (bytes \<Rightarrow> bytes option) \<Rightarrow> flashFile \<Rightarrow> bool" where
  "deflates zlib inflate f \<longleftrightarrow> (\<forall>z. zlib (ffData f) = Inr z \<longrightarrow>
     z \<noteq> [] \<and> length z + 16384 \<le> 2 ^ 32 \<and> inflate z = Some (ffData f))"

text \<open>The run from \<open>l\<close> to \<open>l'\<close> turns the memory of an idle chip from \<open>m\<close> into \<open>F m\<close>.\<close>

definition flashes :: "(bytes \<Rightarrow> bytes option) \<Rightarrow> ((nat \<Rightarrow> byte) \<Rightarrow> (nat \<Rightarrow> byte)) \<Rightarrow> 'd loader \<Rightarrow> 'd loader \<Rightarrow> bool" where
  "flashes inflate F l l' \<longleftrightarrow> (\<exists>w. sent l' = sent l @ w \<and>
     (\<forall>s. \<exists>s'. receive (execFlash inflate) ([], s) w = ([], s') \<and> mem s' = F (mem s)))"

lemma flashes_refl: "flashes inflate id l l"
  by (auto simp: flashes_def)

lemma flashes_trans:
  assumes "flashes inflate F l m" and "flashes inflate G m n"
  shows "flashes inflate (G \<circ> F) l n"
proof -
  obtain v w where v: "sent m = sent l @ v" "\<And>s. \<exists>s'. receive (execFlash inflate) ([], s) v = ([], s') \<and> mem s' = F (mem s)"
    and w: "sent n = sent m @ w" "\<And>s. \<exists>s'. receive (execFlash inflate) ([], s) w = ([], s') \<and> mem s' = G (mem s)"
    using assms unfolding flashes_def by blast
  have "\<exists>s'. receive (execFlash inflate) ([], s) (v @ w) = ([], s') \<and> mem s' = (G \<circ> F) (mem s)" for s
    using v(2) [of s] w(2) by (auto simp: receive_append) (metis prod.inject)
  then show ?thesis using v(1) w(1) unfolding flashes_def by (metis append.assoc)
qed

lemma WriteFlash_flashes:
  assumes "WriteFlash E zlib (ffOffset f) (ffData f) prog l = Some (Ok (), l')"
    and "length (ffData f) + 16384 \<le> 2 ^ 32" and "deflates zlib inflate f"
  shows "flashes inflate (flashOne (stub l) f) l l'"
proof (cases "stub l")
  case True
  obtain z where z: "zlib (ffData f) = Inr z"
    using assms(1) True by (cases "zlib (ffData f)") (auto simp: WriteFlash_def writeFlashCompressed_def)
  with assms(3) have d: "z \<noteq> []" "length z + 16384 \<le> 2 ^ 32" "inflate z = Some (ffData f)" by (auto simp: deflates_def)
  have "length (ffData f) < 2 ^ 32" using assms(2) by simp
  from WriteFlash_stub_line [OF assms(1) True z d(1,2) this] obtain w where "sent l' = sent l @ w"
    and "\<And>s. \<exists>s'. receive (execFlash inflate) ([], s) w = ([], s')
      \<and> mem s' = programAt (unat (ffOffset f)) (ffData f) (eraseRange (unat (ffOffset f)) (length (ffData f)) (mem s))"
    using d(3) by metis
  then show ?thesis by (auto simp: flashes_def flashOne_def imageOf_def True)
next
  case False
  have "length (ffData f) + 1024 \<le> 2 ^ 32" using assms(2) by simp
  from WriteFlash_raw_line [OF assms(1) False this] obtain w where "sent l' = sent l @ w"
    and "\<And>s. \<exists>s'. receive (execFlash inflate) ([], s) w = ([], s')
      \<and> mem s' = programAt (unat (ffOffset f)) (padBlocks 1024 (ffData f))
          (eraseRange (unat (ffOffset f)) (length (padBlocks 1024 (ffData f))) (mem s))"
    by metis
  then show ?thesis by (auto simp: flashes_def flashOne_def imageOf_def False)
qed

lemma WriteFlash_mode: "WriteFlash E zlib off data prog l = Some (r, l') \<Longrightarrow> stub l' = stub l"
  by (rule same_fields_run(1) [OF fields.keeps_WriteFlash])

lemma writeImages_flashes:
  "writeImages H fls p = Some (Ok (), p') \<Longrightarrow>
   \<forall>f \<in> set fls. length (ffData f) + 16384 \<le> 2 ^ 32 \<and> deflates (h_zlib H) inflate f \<Longrightarrow>
   flashes inflate (fold (flashOne (stub (lo p))) fls) (lo p) (lo p')"
proof (induction fls arbitrary: p)
  case Nil
  then show ?case using flashes_refl [of inflate "lo p", unfolded id_def] by simp
next
  case (Cons f fls)
  from Cons.prems(1) obtain l where
    w: "WriteFlash (envOf H) (h_zlib H) (ffOffset f) (ffData f) True (lo p) = Some (Ok (), l)"
    and k: "writeImages H fls (p\<lparr>lo := l\<rparr>) = Some (Ok (), p')"
    by (auto simp: bind_io_Ok fatalEsp_Ok)
  have "flashes inflate (flashOne (stub (lo p)) f) (lo p) l" using WriteFlash_flashes [OF w] Cons.prems(2) by simp
  moreover have "flashes inflate (fold (flashOne (stub l)) fls) l (lo p')"
    using Cons.IH [OF k] Cons.prems(2) by simp
  ultimately have "flashes inflate (fold (flashOne (stub (lo p))) fls \<circ> flashOne (stub (lo p)) f) (lo p) (lo p')"
    by (simp add: flashes_trans WriteFlash_mode [OF w])
  then show ?case by (simp add: comp_def)
qed

section \<open>The session\<close>

text \<open>As \<open>flashes\<close>, also when a cut frame was left pending before or is left pending after.\<close>

definition reaches :: "(bytes \<Rightarrow> bytes option) \<Rightarrow> ((nat \<Rightarrow> byte) \<Rightarrow> (nat \<Rightarrow> byte)) \<Rightarrow> 'd loader \<Rightarrow> 'd loader \<Rightarrow> bool" where
  "reaches inflate F l l' \<longleftrightarrow> (\<exists>w. sent l' = sent l @ w \<and>
     (\<forall>acc s. harmless (execFlash inflate) acc \<longrightarrow>
        (\<exists>acc' s'. receive (execFlash inflate) (acc, s) w = (acc', s') \<and> harmless (execFlash inflate) acc' \<and> mem s' = F (mem s))))"

lemma idle_reaches: "idle (execFlash inflate) l l' \<Longrightarrow> reaches inflate id l l'"
  unfolding idle_def idleLine_def reaches_def by (metis id_apply)

lemma reaches_trans:
  assumes "reaches inflate F l m" and "reaches inflate G m n"
  shows "reaches inflate (G \<circ> F) l n"
proof -
  obtain v where v: "sent m = sent l @ v" "\<And>acc s. harmless (execFlash inflate) acc \<Longrightarrow>
      \<exists>acc' s'. receive (execFlash inflate) (acc, s) v = (acc', s') \<and> harmless (execFlash inflate) acc' \<and> mem s' = F (mem s)"
    using assms(1) unfolding reaches_def by blast
  obtain w where w: "sent n = sent m @ w" "\<And>acc s. harmless (execFlash inflate) acc \<Longrightarrow>
      \<exists>acc' s'. receive (execFlash inflate) (acc, s) w = (acc', s') \<and> harmless (execFlash inflate) acc' \<and> mem s' = G (mem s)"
    using assms(2) unfolding reaches_def by blast
  have "\<exists>acc' s'. receive (execFlash inflate) (acc, s) (v @ w) = (acc', s') \<and> harmless (execFlash inflate) acc' \<and> mem s' = (G \<circ> F) (mem s)"
    if h: "harmless (execFlash inflate) acc" for acc s
  proof -
    obtain a1 s1 where 1: "receive (execFlash inflate) (acc, s) v = (a1, s1)" "harmless (execFlash inflate) a1" "mem s1 = F (mem s)"
      using v(2) [OF h] by blast
    obtain a2 s2 where "receive (execFlash inflate) (a1, s1) w = (a2, s2)" "harmless (execFlash inflate) a2" "mem s2 = G (mem s1)"
      using w(2) [OF 1(2)] by blast
    with 1 show ?thesis by (simp add: receive_append)
  qed
  then show ?thesis using v(1) w(1) unfolding reaches_def by (intro exI [of _ "v @ w"]) simp
qed

text \<open>A frame closes what was pending; from there on the chip is idle.\<close>

lemma frame_reaches:
  assumes "sent m = sent l @ slipEncode p" and "p \<noteq> []" and "\<And>s. execFlash inflate p s = s" and "flashes inflate F m n"
  shows "reaches inflate F l n"
proof -
  obtain w where w: "sent n = sent m @ w" "\<And>s. \<exists>s'. receive (execFlash inflate) ([], s) w = ([], s') \<and> mem s' = F (mem s)"
    using assms(4) unfolding flashes_def by blast
  have "receive (execFlash inflate) (acc, s) (slipEncode p @ w) = receive (execFlash inflate) ([], s) w"
    if "harmless (execFlash inflate) acc" for acc s
    using that assms(2,3) by (simp add: receive_append receive_slipEncode harmless_def)
  then show ?thesis
    using w assms(1) unfolding reaches_def by (intro exI [of _ "slipEncode p @ w"]) (auto, metis harmless_Nil)
qed

lemma idle_run:
  assumes "m l = Some (r, l')" and "keeps (idle (execFlash inflate)) m"
  shows "reaches inflate id l l'"
  using keepsD [OF assms(2,1)] by (rule idle_reaches)

lemma SpiSetParams_frame:
  assumes "SpiSetParams E sz l = Some (Ok (), l')"
  obtains d where "length d < 65536" and "sent l' = sent l @ slipEncode (encodeCommand cmdSpiSetParams d 0)"
proof -
  define d where "d = put32 20 0xffff (put32 16 0x100 (put32 12 0x1000 (put32 8 0x10000 (put32 4 sz (put32 0 0 (replicate 24 0))))))"
  have "length d < 65536" by (simp add: d_def)
  moreover have "sent l' = sent l @ slipEncode (encodeCommand cmdSpiSetParams d 0)"
    using assms by (auto simp: SpiSetParams_def Let_def void_def bind_io_Ok d_def dest: command_Ok(1))
  ultimately show ?thesis by (rule that)
qed

lemma ChangeBaud_flashes:
  assumes "ChangeBaud E b l = Some (Ok (), l')"
  shows "flashes inflate id l l'"
proof -
  let ?d = "put32 4 (if stub l then word_of_int (curBaud l) else 0) (put32 0 (word_of_int b) (replicate 8 0))"
  obtain r l1 where c: "command E cmdChangeBaudrate ?d 0 cmdTimeout l = Some (Ok r, l1)" and s: "sent l' = sent l1"
  proof -
    from assms obtain r l1 l2 l3 where c: "command E cmdChangeBaudrate ?d 0 cmdTimeout l = Some (Ok r, l1)"
      and b: "setBaud E b l1 = Some (Ok (), l2)" and f: "flushInput E l3 = Some (Ok (), l')" and l3: "sleep E (50 * millisecond) (l2\<lparr>curBaud := b\<rparr>) = Some (Ok (), l3)"
      by (auto simp: ChangeBaud_def Let_def bind_io_Ok)
    have "sent l2 = sent l1" "sent l' = sent l3" using b f by (auto simp: prim_defs split: prod.splits)
    moreover have "sent l3 = sent l2" using l3 by (auto simp: sleep_def)
    ultimately show ?thesis using c by (intro that) simp_all
  qed
  have "sent l' = sent l @ slipEncode (encodeCommand cmdChangeBaudrate ?d 0)" using command_Ok(1) [OF c] s by simp
  moreover have "execFlash inflate (encodeCommand cmdChangeBaudrate ?d 0) s = s" for s
    by (rule exec_other) simp_all
  ultimately show ?thesis
    unfolding flashes_def by (intro exI [of _ "slipEncode (encodeCommand cmdChangeBaudrate ?d 0)"]) (simp add: receive_slipEncode)
qed

lemma flashSession_reaches:
  assumes "flashSession H baud fsize fls p = Some (Ok (), p')"
    and "\<forall>f \<in> set fls. length (ffData f) + 16384 \<le> 2 ^ 32 \<and> deflates (h_zlib H) inflate f"
  shows "\<exists>st. reaches inflate (fold (flashOne st) fls) (lo p) (lo p')"
proof -
  let ?E = "envOf H"
  from assms(1) obtain r1 l1 l2 l3 p4 p5 r6 l6 r7 l7 where
    stub: "RunStub ?E (h_stubs H) (lo p) = Some (r1, l1)" and att: "SpiAttach ?E l1 = Some (Ok (), l2)"
    and par: "SpiSetParams ?E (FlashSizeBytes fsize) l2 = Some (Ok (), l3)"
    and baud: "(if baud \<noteq> ROMBaud then fatalEsp (ChangeBaud ?E baud) else ret ()) (p\<lparr>lo := l3\<rparr>) = Some (Ok (), p4)"
    and img: "writeImages H fls p4 = Some (Ok (), p5)"
    and fin: "FlashFinish ?E False (lo p5) = Some (r6, l6)" and rst: "HardReset ?E l6 = Some (r7, l7)" and p': "lo p' = l7"
    by (auto simp: flashSession_def Let_def bind_io_Ok fatalEsp_Ok ignoreEsp_Ok)
  have "flashes inflate id l3 (lo p4)"
    using baud flashes_refl ChangeBaud_flashes by (auto simp: fatalEsp_Ok split: if_splits)
  from flashes_trans [OF this writeImages_flashes [OF img assms(2)]]
  have mid: "flashes inflate (fold (flashOne (stub (lo p4))) fls) l3 (lo p5)" by simp
  obtain d where d: "length d < 65536" "sent l3 = sent l2 @ slipEncode (encodeCommand cmdSpiSetParams d 0)"
    by (rule SpiSetParams_frame [OF par])
  have "execFlash inflate (encodeCommand cmdSpiSetParams d 0) s = s" for s
    using d(1) by (intro exec_other) simp_all
  from frame_reaches [OF d(2) _ this mid] have "reaches inflate (fold (flashOne (stub (lo p4))) fls) l2 (lo p5)" by simp
  moreover have "reaches inflate id (lo p) l1" "reaches inflate id l1 l2" "reaches inflate id (lo p5) l6" "reaches inflate id l6 l7"
    using stub att fin rst by - (erule idle_run, intro keeps_intros)+
  ultimately have "reaches inflate (fold (flashOne (stub (lo p4))) fls) (lo p) l7"
    by (metis comp_id id_comp reaches_trans)
  then show ?thesis using p' by blast
qed

section \<open>The command\<close>

lemma loadFlashSource_state: "loadFlashSource H path p = Some (r, p') \<Longrightarrow> p' = p"
  by (auto simp: loadFlashSource_def world_def orFatal_def bind_io_def Let_def split: sum.splits if_splits prod.splits)

lemma portOr_state: "portOr H n args p = Some (r, p') \<Longrightarrow> p' = p"
  by (auto simp: portOr_def resolvePort_def world_def orFatal_def bind_io_def split: sum.splits if_splits)

lemma cmdFlash_Ok:
  assumes "cmdFlash H args p = Some (Ok (), p')" and "parseFlags flashFlags args = Inr (fs, path # rest)"
    and "\<not> boolFlag fs ''dry-run''" and "loadFlashSource H path p = Some (Ok (chip, fmode, fsize, ffreq, fls), p)"
  obtains port p1 p2 x where "connect H port p = Some (Ok (), p1)"
    and "flashSession H (intFlag fs ''baud'') fsize fls p1 = Some (Ok (), p2)"
    and "Close (envOf H) (lo p2) = Some (x, lo p')" and "p' = p2\<lparr>lo := lo p'\<rparr>"
proof -
  from assms obtain port p0 where port: "portOr H (strFlag fs ''port'') [] p = Some (Ok port, p0)"
    and "bind_io (connect H port) (\<lambda>_. deferCloseCmd (envOf H) (flashSession H (intFlag fs ''baud'') fsize fls)) p0 = Some (Ok (), p')"
    by (auto simp: cmdFlash_def withFlags_def bind_io_Ok)
  then show ?thesis
    using portOr_state [OF port] by (auto simp: bind_io_Ok deferClose_Ok intro: that)
qed


section \<open>A concrete run\<close>

text \<open>A host whose port replays a recorded input; the build directory has one image.\<close>

definition demoSerial :: "replay serialLib" where
  "demoSerial = \<lparr>s_open = (\<lambda>_ _ d. Inr d), s_read = t_read (replay_env 64), s_write = t_write (replay_env 64),
     s_close = (\<lambda>s. (None, s)), s_setMode = (\<lambda>_ s. (None, s)), s_setDTR = (\<lambda>_ s. (None, s)), s_setRTS = (\<lambda>_ s. (None, s)),
     s_setReadTimeout = (\<lambda>_ s. (None, s)), s_resetInputBuffer = (\<lambda>s. (None, s))\<rparr>"

definition oneArgs :: flasherArgs where
  "oneArgs = demoArgs\<lparr>FlashFiles := [''0x10000'' \<mapsto> ''app.bin'']\<rparr>"

definition listArchiver :: "((string \<times> bytes) list \<times> string option, string, (string \<times> bytes) list) archiver" where
  "listArchiver = \<lparr>arNew = ([], None), arHeader = (\<lambda>n sz (es, h). if h = None then Inr (es, Some n) else Inl []),
     arWrite = (\<lambda>d (es, h). case h of None \<Rightarrow> Inl [] | Some n \<Rightarrow> Inr (es @ [(n, d)], None)),
     arClose = Inr, arGzClose = (\<lambda>(es, h). Inr es)\<rparr>"

definition oneFile :: flashFile where
  "oneFile = \<lparr>ffOffset = 0x10000, ffName = ''app.bin'', ffData = [0xE9, 2, 3]\<rparr>"

definition oneBundle :: fbundle where
  "oneBundle = fold addFile [oneFile] \<lparr>Manifest = emptyManifest\<lparr>mSchema := schemaVersion, mChip := ''esp32s3'', mFlashMode := ''dio'',
     mFlashSize := ''8MB'', mFlashFreq := ''80m'', mVersion := [], mCreatedAt := []\<rparr>, bdata = []\<rparr>"

definition demoHost :: "(replay, (string \<times> bytes) list, (string \<times> bytes) list \<times> string option) host" where
  "demoHost = \<lparr>h_serial = demoSerial, h_clock = \<lparr>c_now = time_now (replay_env 64), c_sleep = time_sleep (replay_env 64), c_err = ctx_err (replay_env 64)\<rparr>,
     h_ports = (\<lambda>_. Inr []), h_stdout = (\<lambda>bs d. ((int (length bs), None), d)), h_stat = (\<lambda>p _. Inr (p = ''build'')),
     h_readFile = (\<lambda>p _. if p = ''build/flasher_args.json'' then Inr [123, 125] else if p = ''build/app.bin'' then Inr [0xE9, 2, 3] else Inl ''ENOENT''),
     h_open = (\<lambda>_ _. Inr [(''manifest.json'', [123]), (''files/app.bin'', [0xE9, 2, 3])]), h_create = (\<lambda>_ d. (None, d)), h_mkdirAll = (\<lambda>_ d. (None, d)),
     h_writeFile = (\<lambda>_ _ d. (None, d)), h_append = (\<lambda>_ bs d. ((int (length bs), None), d)), h_store = (\<lambda>_ _ d. d),
     h_args = (\<lambda>_. Inr oneArgs), h_iter = (\<lambda>_. [(''0x10000'', ''app.bin'')]), h_marshal = (\<lambda>_. Inr [123]), h_marshalIndent = (\<lambda>_. [123, 10]),
     h_unmarshal = (\<lambda>_ _. Inr (Manifest oneBundle)), h_archiver = listArchiver,
     h_unarchive = (\<lambda>es. Inr (map (\<lambda>(n, d). TarFile n d) es)), h_zlib = Inr, h_stubs = (\<lambda>_. Inl NoOHAI), h_date = []\<rparr>"

lemma demoHost_env [simp]: "envOf demoHost = replay_env 64"
  by (simp add: envOf_def demoHost_def demoSerial_def serialTransport_def replay_env_def)

definition demoProc :: "bytes \<Rightarrow> (replay, (string \<times> bytes) list) proc" where
  "demoProc bs = \<lparr>lo = replaying bs, opened = [], fileOps = []\<rparr>"

lemma demo_source: "loadFlashSource demoHost ''build'' p = Some (Ok (''esp32s3'', ''dio'', ''8MB'', ''80m'', [oneFile]), p)"
proof -
  have "loadFiles (\<lambda>f. h_readFile demoHost f d) ''build'' [(''0x10000'', ''app.bin'')] [] = (Inr [oneFile] :: (string, string) argsErr + _)" for d
    by (simp add: demo_offsets demo_paths demoHost_def oneFile_def)
  then have "Load (\<lambda>f. h_readFile demoHost f d) (h_args demoHost) (h_iter demoHost) ''build'' = Inr (oneArgs, [oneFile])" for d
    unfolding Load_def demo_paths by (simp add: demoHost_def sortFiles_def)
  moreover have "h_stat demoHost ''build'' d = Inr True" for d by (simp add: demoHost_def)
  ultimately show ?thesis
    by (simp add: loadFlashSource_def world_bind orFatal_def oneArgs_def demoArgs_def)
qed

definition demoArgv :: "string list" where
  "demoArgv = [''-baud=115200'', ''--port'', ''/dev/ttyUSB0'', ''build'']"

lemma demo_flags:
  obtains fs where "parseFlags flashFlags demoArgv = Inr (fs, [''build''])" and "\<not> boolFlag fs ''dry-run''"
    and "intFlag fs ''baud'' = ROMBaud" and "strFlag fs ''port'' = ''/dev/ttyUSB0''"
proof -
  have num: "ParseInt ''115200'' = Inr 115200"
    by (simp add: ParseInt_def parseUint0_def digitVal_def lowerChar_def)
  let ?fs = "flashFlags(''baud'' \<mapsto> FInt 115200, ''port'' \<mapsto> FStr ''/dev/ttyUSB0'')"
  have "parseOne flashFlags demoArgv = Inr (True, flashFlags(''baud'' \<mapsto> FInt 115200), [''--port'', ''/dev/ttyUSB0'', ''build''])"
    by (simp add: demoArgv_def splitFlag_def Cut_def flashFlags_def isBool_def assign_def setFlag_def num)
  moreover have "parseOne (flashFlags(''baud'' \<mapsto> FInt 115200)) [''--port'', ''/dev/ttyUSB0'', ''build''] = Inr (True, ?fs, [''build''])"
    by (simp add: splitFlag_def Cut_def flashFlags_def isBool_def assign_def setFlag_def)
  moreover have "parseOne ?fs [''build''] = Inr (False, ?fs, [''build''])" by simp
  ultimately have "parseFlags flashFlags demoArgv = Inr (?fs, [''build''])"
    by (simp only: parseFlags.simps [of flashFlags] parseFlags.simps [of "flashFlags(''baud'' \<mapsto> FInt 115200)"]
        parseFlags.simps [of ?fs] sum.case prod.case if_True if_False)
  then show ?thesis by (rule that) (simp_all add: boolFlag_def intFlag_def strFlag_def flashFlags_def ROMBaud_def)
qed

lemma replay_reset: "\<exists>l'. resetToBootloader (replay_env w) l = Some (Ok (), l') \<and> rx (dev l') = rx (dev l) \<and> stub l' = stub l"
  by (simp add: resetToBootloader_def ignore_io_def try_io_def bind_io_def prim_defs)

lemma drain_replay:
  "rx (dev l) = answers False cmdSync n @ rest \<Longrightarrow>
   \<exists>l'. drainEchoes (replay_env w) n l = Some (Ok (), l') \<and> rx (dev l') = rest \<and> stub l' = stub l"
proof (induction n arbitrary: l)
  case (Suc n)
  then have "rx (dev l) = [] @ replicate 0 slipEnd @ slipEncode (replyPacket cmdSync 0 ([] @ trailer False 0 0)) @ answers False cmdSync n @ rest"
    by (simp add: answerFrame_def)
  from byte_stream.readFrame_stream [OF replayed.byte_stream_axioms _ _ this, of w syncTimeout]
  obtain l1 where f: "readFrame (replay_env w) syncTimeout l = Some (Ok (replyPacket cmdSync 0 ([] @ trailer False 0 0)), l1)"
    "rx (dev l1) = answers False cmdSync n @ rest" by (auto simp: replyPacket_def)
  from Suc.IH [OF f(2)] show ?case using f(1) readFrame_fields(1) [OF f(1)] by (simp add: try_io_eval)
qed simp

lemma Connect_replay:
  assumes "rx (dev l) = answers False cmdSync 8 @ rest" and "\<not> stub l"
  shows "\<exists>l'. Connect (replay_env (Suc w)) l = Some (Ok (), l') \<and> rx (dev l') = rest \<and> \<not> stub l'"
proof -
  let ?E = "replay_env (Suc w)"
  obtain l0 where c: "ctxErr ?E l = Some (Ok (), l0)" "rx (dev l0) = rx (dev l)" "stub l0 = stub l"
    by (simp add: ctxErr_def)
  obtain l1 where r: "resetToBootloader ?E l0 = Some (Ok (), l1)" "rx (dev l1) = rx (dev l)" "stub l1 = stub l"
    using replay_reset [of "Suc w" l0] c by auto
  have "answers False cmdSync 8 = answerFrame False cmdSync 0 [] @ answers False cmdSync 7"
    by (simp only: answers_simps(2) [symmetric]) simp
  then have "rx (dev l1) = answerFrame (stub l1) cmdSync 0 [] @ answers False cmdSync 7 @ rest" using assms r by simp
  from prompt_link.command_ack [OF replay_link this timeouts_pos(2)] obtain q l2 where
    s: "command ?E cmdSync syncPayload 0 syncTimeout l1 = Some (Ok q, l2)" "rx (dev l2) = answers False cmdSync 7 @ rest" "stub l2 = stub l1"
    by (metis zero_less_Suc)
  obtain l3 where d: "drainEchoes ?E 7 l2 = Some (Ok (), l3)" "rx (dev l3) = rest" "stub l3 = stub l2"
    using drain_replay [OF s(2)] by blast
  have "sync ?E l1 = Some (Ok (), l3)" using s(1) d(1) by (simp add: sync_def bind_io_eval)
  then have "trySync ?E 5 l1 = Some (Ok True, l3)"
    by (simp add: numeral_eq_Suc try_io_eval)
  then have "connectLoop ?E 7 l = Some (Ok (), l3)"
    using c(1) r(1) by (simp add: eval_nat_numeral bind_io_eval)
  then show ?thesis using d(2,3) s(3) r(3) assms(2) by (simp add: Connect_def connectAttempts_def)
qed

definition demoInput :: bytes where
  "demoInput = answers False cmdSync 8 @ answerFrame False cmdGetSecurityInfo 0 [] @ answerFrame False cmdSpiAttach 0 []
     @ answerFrame False cmdSpiSetParams 0 [] @ answerFrame False cmdFlashBegin 0 [] @ answers False cmdFlashData 1
     @ answerFrame False cmdSpiFlashMD5 0 (str_bytes (hexEncode (md5Sum (padBlocks 1024 [0xE9, 2, 3]))))
     @ answerFrame False cmdFlashEnd 0 []"

lemma demo_session:
  assumes "rx (dev (lo p)) = drop (length (answers False cmdSync 8)) demoInput" and "\<not> stub (lo p)" and "chip_of (lo p) = None"
  shows "\<exists>p'. flashSession demoHost ROMBaud ''8MB'' [oneFile] p = Some (Ok (), p')"
proof -
  let ?E = "replay_env 64"
  have link: "prompt_link ?E rx" by (rule replay_link) simp
  let ?r1 = "answerFrame False cmdSpiAttach 0 []
     @ answerFrame False cmdSpiSetParams 0 [] @ answerFrame False cmdFlashBegin 0 [] @ answers False cmdFlashData 1
     @ answerFrame False cmdSpiFlashMD5 0 (str_bytes (hexEncode (md5Sum (padBlocks 1024 [0xE9, 2, 3]))))
     @ answerFrame False cmdFlashEnd 0 []"
  have in0: "rx (dev (lo p)) = answerFrame (stub (lo p)) cmdGetSecurityInfo 0 [] @ ?r1"
    using assms by (simp add: demoInput_def)
  obtain l1 where c1: "command ?E cmdGetSecurityInfo [] 0 cmdTimeout (lo p)
        = Some (Ok \<lparr>r_cmd = cmdGetSecurityInfo, r_value = 0, r_data = [] @ trailer (stub (lo p)) 0 0\<rparr>, l1)"
    and l1: "rx (dev l1) = ?r1" "stub l1 = stub (lo p)"
    by (rule prompt_link.command_answered [OF link, of cmdTimeout "[]" "lo p" cmdGetSecurityInfo 0 0 ?r1 "[]" 0])
      (use in0 in \<open>simp_all add: answerFrame_def\<close>)
  have "ChipID ?E (lo p) = Some (Fail (SecurityInfoTooShort 0), l1)"
    using c1 l1(2) payload_trailer [where p = "[]" and stub = "stub (lo p)" and s = 0 and e = 0]
    by (simp add: ChipID_def bind_io_eval)
  then have "RunStub ?E (h_stubs demoHost) (lo p) = Some (Fail (DetectChip (SecurityInfoTooShort 0)), l1)"
    using assms(2,3) by (simp add: RunStub_def ensureChip_def bind_io_eval wrap_io_eval)
  then have s1: "ignoreEsp (RunStub ?E (h_stubs demoHost)) p = Some (Ok (), p\<lparr>lo := l1\<rparr>)"
    by (simp add: ignoreEsp_Ok)
  have st1: "\<not> stub l1" using l1(2) assms(2) by simp
  obtain q2 l2 where c2: "command ?E cmdSpiAttach (replicate 8 0) 0 cmdTimeout l1 = Some (Ok q2, l2)"
    and l2: "rx (dev l2) = answerFrame False cmdSpiSetParams 0 [] @ answerFrame False cmdFlashBegin 0 [] @ answers False cmdFlashData 1
     @ answerFrame False cmdSpiFlashMD5 0 (str_bytes (hexEncode (md5Sum (padBlocks 1024 [0xE9, 2, 3])))) @ answerFrame False cmdFlashEnd 0 []" "\<not> stub l2"
    using st1 l1(1) by - (rule prompt_link.command_ack [OF link, of l1 cmdSpiAttach _ cmdTimeout "replicate 8 0" 0], simp_all)
  have s2: "SpiAttach ?E l1 = Some (Ok (), l2)" using c2 st1 by (simp add: SpiAttach_def void_def bind_io_eval)
  define d where "d = put32 20 0xffff (put32 16 0x100 (put32 12 0x1000 (put32 8 0x10000 (put32 4 (FlashSizeBytes ''8MB'') (put32 0 0 (replicate 24 0))))))"
  obtain q3 l3 where c3: "command ?E cmdSpiSetParams d 0 cmdTimeout l2 = Some (Ok q3, l3)"
    and l3: "rx (dev l3) = answerFrame False cmdFlashBegin 0 [] @ answers False cmdFlashData 1
     @ answerFrame False cmdSpiFlashMD5 0 (str_bytes (hexEncode (md5Sum (padBlocks 1024 [0xE9, 2, 3])))) @ answerFrame False cmdFlashEnd 0 []" "\<not> stub l3"
    using l2 by - (rule prompt_link.command_ack [OF link, of l2 cmdSpiSetParams _ cmdTimeout d 0], simp_all)
  have s3: "SpiSetParams ?E (FlashSizeBytes ''8MB'') l2 = Some (Ok (), l3)"
    using c3 by (simp add: SpiSetParams_def d_def void_def bind_io_eval)
  let ?p = "padBlocks 1024 [0xE9, 2, 3]"
  have "length ?p = 1024" by (simp add: padBlocks_def Let_def)
  then obtain l4 where w: "writeFlashRaw ?E 0x10000 [0xE9, 2, 3] True l3 = Some (Ok (), l4)" "rx (dev l4) = answerFrame False cmdFlashEnd 0 []"
    using prompt_link.writeFlashRaw_answered [OF link, of ?p l3 "[0xE9, 2, 3]" 1
        "str_bytes (hexEncode (md5Sum ?p))" "answerFrame False cmdFlashEnd 0 []" "hexEncode (md5Sum ?p)" "0x10000" True] l3
    by (auto simp: verdict_def)
  then have s4: "WriteFlash ?E Inr 0x10000 [0xE9, 2, 3] True l3 = Some (Ok (), l4)"
    using l3(2) by (simp add: WriteFlash_def)
  have "\<not> stub l4" using WriteFlash_mode [OF s4] l3(2) by simp
  then obtain q5 l5 where c5: "command ?E cmdFlashEnd (put32 0 1 (replicate 4 0)) 0 cmdTimeout l4 = Some (Ok q5, l5)"
    using w(2) by - (rule prompt_link.command_ack [OF link, of l4 cmdFlashEnd "[]" cmdTimeout "put32 0 1 (replicate 4 0)" 0], simp_all)
  have s5: "FlashFinish ?E False l4 = Some (Ok (), l5)" using c5 by (simp add: FlashFinish_def void_def bind_io_eval)
  obtain l6 where s6: "HardReset ?E l5 = Some (Ok (), l6)"
    by (simp add: HardReset_def ignore_io_def try_io_def bind_io_def prim_defs)
  have z: "h_zlib demoHost = Inr" by (simp add: demoHost_def)
  have img: "writeImages demoHost [oneFile] (p\<lparr>lo := l3\<rparr>) = Some (Ok (), p\<lparr>lo := l4\<rparr>)"
    using s4 by (simp add: bind_io_Ok fatalEsp_Ok z oneFile_def)
  have a: "fatalEsp (SpiAttach ?E) (p\<lparr>lo := l1\<rparr>) = Some (Ok (), p\<lparr>lo := l2\<rparr>)"
    "fatalEsp (SpiSetParams ?E (FlashSizeBytes ''8MB'')) (p\<lparr>lo := l2\<rparr>) = Some (Ok (), p\<lparr>lo := l3\<rparr>)"
    "ignoreEsp (FlashFinish ?E False) (p\<lparr>lo := l4\<rparr>) = Some (Ok (), p\<lparr>lo := l5\<rparr>)"
    "ignoreEsp (HardReset ?E) (p\<lparr>lo := l5\<rparr>) = Some (Ok (), p\<lparr>lo := l6\<rparr>)"
    using s2 s3 s5 s6 by (simp_all add: fatalEsp_Ok ignoreEsp_Ok)
  show ?thesis
    by (rule exI [of _ "p\<lparr>lo := l6\<rparr>"])
      (simp add: flashSession_def Let_def bind_io_eval s1 a img del: writeImages.simps)
qed

lemma demo_flash:
  obtains p' where "cmdFlash demoHost demoArgv (demoProc demoInput) = Some (Ok (), p')" and "opened p' = [(''/dev/ttyUSB0'', ROMBaud)]"
proof -
  obtain fs where fs: "parseFlags flashFlags demoArgv = Inr (fs, [''build''])" "\<not> boolFlag fs ''dry-run''"
    "intFlag fs ''baud'' = ROMBaud" "strFlag fs ''port'' = ''/dev/ttyUSB0''" by (rule demo_flags)
  let ?p = "demoProc demoInput" and ?rest = "drop (length (answers False cmdSync 8)) demoInput"
  have in0: "rx (dev (replaying demoInput)) = answers False cmdSync 8 @ ?rest" "\<not> stub (replaying demoInput)"
    "chip_of (replaying demoInput) = None"
    by (simp_all add: replaying_def NewLoader_def demoInput_def)
  obtain l1 where l1: "Connect (replay_env 64) (replaying demoInput) = Some (Ok (), l1)" "rx (dev l1) = ?rest" "\<not> stub l1"
    using Connect_replay [OF in0(1,2), of 63] by auto
  have chip: "chip_of l1 = None" using same_fields_run(3) [OF fields.keeps_Connect l1(1)] in0(3) by simp
  define p1 where "p1 = ?p\<lparr>opened := [(''/dev/ttyUSB0'', ROMBaud)], lo := l1\<rparr>"
  have con: "connect demoHost ''/dev/ttyUSB0'' ?p = Some (Ok (), p1)"
    using l1(1) by (simp add: connect_def openPort_def OpenSerial_def demoHost_def [THEN arg_cong, of h_serial] demoSerial_def
        bind_io_Ok fatalEsp_Ok demoProc_def replaying_def NewLoader_def p1_def)
  obtain p2 where run: "flashSession demoHost ROMBaud ''8MB'' [oneFile] p1 = Some (Ok (), p2)"
    using demo_session [of p1] l1(2,3) chip by (auto simp: p1_def)
  have src: "loadFlashSource demoHost ''build'' ?p = Some (Ok (''esp32s3'', ''dio'', ''8MB'', ''80m'', [oneFile]), ?p)"
    by (rule demo_source)
  define p' where "p' = p2\<lparr>lo := logged [EvClose] (dev (lo p2)) (lo p2)\<rparr>"
  have "Close (replay_env 64) (lo p2) = Some (Ok (), logged [EvClose] (dev (lo p2)) (lo p2))"
    by (simp add: prim_defs)
  then have "deferCloseCmd (replay_env 64) (flashSession demoHost ROMBaud ''8MB'' [oneFile]) p1 = Some (Ok (), p')"
    using run by (simp add: deferClose_Ok p'_def)
  then have cmd: "cmdFlash demoHost demoArgv ?p = Some (Ok (), p')"
    using fs src con by (simp add: cmdFlash_def withFlags_def bind_io_eval portOr_def)
  have "opened p' = opened p2" by (simp add: p'_def)
  also have "\<dots> = opened p1" using run by (auto simp: flashSession_def Let_def bind_io_Ok fatalEsp_Ok ignoreEsp_Ok)
  finally show ?thesis using cmd by (intro that) (simp_all add: p1_def)
qed


end
