(* ===== verification/CliSpec.thy ===== *)
theory CliSpec
  imports CliFlash
begin

text \<open>
  The commands as programs: exit status and closing of the port, what they write to files, and
  the equivalence of flashing a build directory and flashing the bundle packed from it.
\<close>

section \<open>No operation closes the port\<close>

context io_rel
begin

lemma keeps_readLoop [keeps_intros]: "keeps R (readLoop E len prog out)"
proof (rule keepsI)
  fix l r l' assume run: "readLoop E len prog out l = Some (r, l')"
  define Q where "Q l y \<longleftrightarrow> R l (snd y)" for l :: "'d loader" and y :: "(err, bytes) outcome \<times> 'd loader"
  have "Q l (r, l')"
  proof (rule readLoop.raw_induct [where P = "\<lambda>E len prog out l y. Q l y", OF _ run])
    fix loop E len prog out l y
    assume IH: "\<And>E len prog out l y. loop E len prog out l = Some y \<Longrightarrow> Q l y"
      and y: "(if of_nat (length out) < len then
          bind_io (readFrame E cmdTimeout) (\<lambda>frame.
          bind_io (writeAll E (ackFrame (out @ frame))) (\<lambda>_.
          bind_io (progress prog (int (length (out @ frame))) (uint len)) (\<lambda>_.
          loop E len prog (out @ frame))))
        else ret out) l = Some y"
    have "keeps R (loop E len prog out)" for E len prog out
      by (rule keepsI) (use IH in \<open>fastforce simp: Q_def\<close>)
    then have "keeps R (if of_nat (length out) < len then
          bind_io (readFrame E cmdTimeout) (\<lambda>frame.
          bind_io (writeAll E (ackFrame (out @ frame))) (\<lambda>_.
          bind_io (progress prog (int (length (out @ frame))) (uint len)) (\<lambda>_.
          loop E len prog (out @ frame))))
        else ret out)"
      by (intro keeps_intros reads.keeps_readFrame)
    from keepsD [OF this, of l "fst y" "snd y"] y show "Q l y" by (simp add: Q_def)
  qed
  then show "R l l'" by (simp add: Q_def)
qed

lemma keeps_stub_ops [keeps_intros]:
  "keeps R (EraseFlash E)" "keeps R (EraseRegion E off sz)" "keeps R (ReadFlash E off sz prog)"
  unfolding EraseFlash_def EraseRegion_def ReadFlash_def Let_def by (intro keeps_intros reads.keeps_readFrame)+

end

lemma log_grows_upd [keeps_intros]:
  "keeps log_grows (upd_io (\<lambda>l. l\<lparr>stub := b\<rparr>))" "keeps log_grows (upd_io (\<lambda>l. l\<lparr>curBaud := n\<rparr>))"
  by (auto intro!: keepsI simp: log_grows_def)

lemma log_grows_RunStub [keeps_intros]: "keeps log_grows (RunStub E unmarshal)"
proof -
  have "keeps log_grows (awaitOHAI E i)" for i
    by (induction i) (simp_all only: awaitOHAI.simps, (intro keeps_intros log_only.reads.keeps_readFrame; assumption?)+)
  then show ?thesis unfolding RunStub_def by (intro keeps_intros log_only.reads.keeps_theChip)
qed

lemma log_grows_ChangeBaud [keeps_intros]: "keeps log_grows (ChangeBaud E b)"
  unfolding ChangeBaud_def Let_def by (intro keeps_intros)

section \<open>Commands over the process\<close>

text \<open>A relation between loaders, for commands that leave the rest of the process alone.\<close>

definition onLoader :: "('d loader \<Rightarrow> 'd loader \<Rightarrow> bool) \<Rightarrow> ('d, 'o) proc \<Rightarrow> ('d, 'o) proc \<Rightarrow> bool" where
  "onLoader R p p' \<longleftrightarrow> R (lo p) (lo p') \<and> opened p' = opened p"

interpretation grows: io_preorder "onLoader log_grows"
  by unfold_locales (fastforce simp: onLoader_def log_grows_def)+

lemma keeps_espIO [keeps_intros]: "keeps R m \<Longrightarrow> keeps (onLoader R) (espIO m)"
  by (rule keepsI) (auto simp: espIO_Some onLoader_def dest: keepsD)

lemma grows_fatalEsp [keeps_intros]: "keeps log_grows m \<Longrightarrow> keeps (onLoader log_grows) (fatalEsp m)"
  unfolding fatalEsp_def by (intro keeps_intros)

lemma grows_ignoreEsp [keeps_intros]: "keeps log_grows m \<Longrightarrow> keeps (onLoader log_grows) (ignoreEsp m)"
  unfolding ignoreEsp_def by (intro keeps_intros)

lemma grows_orFatal [keeps_intros]: "keeps (onLoader log_grows) (orFatal f x)"
  unfolding orFatal_def by (intro keeps_intros)

lemma grows_osCall [keeps_intros]: "keeps (onLoader log_grows) (osCall op f)"
  by (auto intro!: keepsI simp: osCall_def onLoader_def log_grows_def split: prod.splits)

lemma grows_writeImages [keeps_intros]: "keeps (onLoader log_grows) (writeImages H fls)"
  by (induction fls) (simp_all only: writeImages.simps, (intro keeps_intros; assumption?)+)

lemma grows_sessions [keeps_intros]:
  "keeps (onLoader log_grows) (flashSession H baud fsize fls)" "keeps (onLoader log_grows) (eraseSession H region)"
  "keeps (onLoader log_grows) (readSession H off sz file)"
  unfolding flashSession_def eraseSession_def readSession_def loadStub_def Let_def case_prod_unfold
  by (intro keeps_intros)+

lemma grows_Connect: "keeps (onLoader log_grows) (fatalEsp (Connect E))"
  by (intro keeps_intros)

section \<open>How a session ends\<close>

named_theorems fatal_intros "commands whose only error is the fatal one"

definition fatalOnly :: "('s, exit, 'a) io \<Rightarrow> bool" where
  "fatalOnly m \<longleftrightarrow> (\<forall>p x p'. m p = Some (Fail x, p') \<longrightarrow> (\<exists>e. x = Fatal e))"

lemma fatalOnly_bind [fatal_intros]: "fatalOnly m \<Longrightarrow> (\<And>a. fatalOnly (k a)) \<Longrightarrow> fatalOnly (bind_io m k)"
  unfolding fatalOnly_def by (blast elim: bind_io_Some)

lemma fatalOnly_wrap: "fatalOnly (wrap_io (\<lambda>e. Fatal (c e)) m)"
  unfolding fatalOnly_def
proof (intro allI impI)
  fix p x p' assume "wrap_io (\<lambda>e. Fatal (c e)) m p = Some (Fail x, p')"
  then show "\<exists>e. x = Fatal e" by (cases rule: io_exhaust [of m p]) (auto simp: wrap_io_def try_io_eval)
qed

lemma fatalOnly_base [fatal_intros]:
  "fatalOnly (ret a)" "fatalOnly (fatalEsp m)" "fatalOnly (ignoreEsp m)" "fatalOnly (orFatal f x)" "fatalOnly (osCall op g)"
  "fatalOnly (loadStub H)" "fatalOnly (openPort H port baud)"
proof -
  show "fatalOnly (fatalEsp m)" unfolding fatalEsp_def by (rule fatalOnly_wrap)
  show "fatalOnly (loadStub H)" unfolding loadStub_def by (rule fatalOnly_wrap)
  show "fatalOnly (ignoreEsp m)" unfolding fatalOnly_def ignoreEsp_def by (auto elim!: try_io_Some)
qed (auto simp: fatalOnly_def orFatal_def osCall_def openPort_def Let_def split: sum.splits prod.splits option.splits)

lemma fatal_code: "fatalOnly m \<Longrightarrow> m p = Some (Fail x, p') \<Longrightarrow> exitCode (Fail x) = 1"
  unfolding fatalOnly_def by (auto simp: exitCode_def dest!: spec)

lemma fatalOnly_if [fatal_intros]: "fatalOnly m \<Longrightarrow> fatalOnly n \<Longrightarrow> fatalOnly (if c then m else n)"
  by simp

lemma fatalOnly_writeImages [fatal_intros]: "fatalOnly (writeImages H fls)"
  by (induction fls) (simp_all only: writeImages.simps, (intro fatal_intros; assumption?)+)

lemma fatalOnly_sessions [fatal_intros]:
  "fatalOnly (flashSession H baud fsize fls)" "fatalOnly (eraseSession H region)" "fatalOnly (readSession H off sz file)"
  unfolding flashSession_def eraseSession_def readSession_def Let_def case_prod_unfold by (intro fatal_intros)+

text \<open>The last thing before the port is closed is the reset into the application.\<close>

definition resetEvents :: "event list" where
  "resetEvents = [EvSetRTS True, EvSleep (100 * millisecond), EvSetRTS False]"

lemma HardReset_events: "HardReset E l = Some (r, l') \<Longrightarrow> evs l' = evs l @ resetEvents"
  by (auto simp: HardReset_def setRTS_def sleep_def ignore_call bind_io_def resetEvents_def)

definition endsInReset :: "('d, 'o, 'a) cmd \<Rightarrow> bool" where
  "endsInReset m \<longleftrightarrow> (\<forall>p a p'. m p = Some (Ok a, p') \<longrightarrow> (\<exists>pre. evs (lo p') = pre @ resetEvents))"

lemma endsInReset_bind: "(\<And>a. endsInReset (k a)) \<Longrightarrow> endsInReset (bind_io m k)"
  unfolding endsInReset_def by (auto simp: bind_io_Ok)

lemma endsInReset_reset: "endsInReset (ignoreEsp (HardReset E))"
  by (auto simp: endsInReset_def ignoreEsp_Ok dest!: HardReset_events)

lemma endsInReset_sessions:
  "endsInReset (flashSession H baud fsize fls)" "endsInReset (eraseSession H region)" "endsInReset (readSession H off sz file)"
  unfolding flashSession_def eraseSession_def readSession_def Let_def
  by (intro endsInReset_bind endsInReset_reset)+

lemma Close_run: "\<exists>x l'. Close E l = Some (x, l') \<and> evs l' = evs l @ [EvClose]"
  by (simp add: Close_def call_def split: prod.split)

definition exitsWell :: "(exit, unit) outcome \<Rightarrow> ('d, 'o) proc \<Rightarrow> bool" where
  "exitsWell r p \<longleftrightarrow> (case r of
       Ok _ \<Rightarrow> \<exists>pre. evs (lo p) = pre @ resetEvents @ [EvClose]
     | Fail x \<Rightarrow> exitCode r = 1 \<and> EvClose \<notin> set (evs (lo p))
     | Panic \<Rightarrow> True)"

lemma session_ends:
  assumes run: "bind_io (connect H port) (\<lambda>_. deferCloseCmd (envOf H) S) p = Some (r, p')"
    and S: "keeps (onLoader log_grows) S" "fatalOnly S" "endsInReset S" and p: "EvClose \<notin> set (evs (lo p))"
  shows "opened p' = opened p @ [(port, ROMBaud)] \<and> exitsWell r p'"
proof -
  have fatal: "fatalOnly (connect H port)" unfolding connect_def by (intro fatal_intros)
  have con: "opened q = opened p @ [(port, ROMBaud)] \<and> EvClose \<notin> set (evs (lo q))" if "connect H port p = Some (x, q)" for x q
    using that unfolding connect_def
  proof (cases rule: bind_io_Some)
    case (Ok a q1)
    then have "opened q1 = opened p @ [(port, ROMBaud)]" "evs (lo q1) = []"
      by (auto simp: openPort_def Let_def NewLoader_def split: sum.splits)
    with keepsD [OF grows_Connect Ok(2)] show ?thesis by (auto simp: onLoader_def dest!: log_grows_open)
  qed (use p in \<open>auto simp: openPort_def Let_def split: sum.splits\<close>)
  from run show ?thesis
  proof (cases rule: bind_io_Some)
    case (Fail e)
    then show ?thesis using con [OF Fail(1)] fatal_code [OF fatal Fail(1)] by (simp add: exitsWell_def)
  next
    case Panic
    then show ?thesis using con [OF Panic(1)] by (simp add: exitsWell_def)
  next
    case (Ok a q)
    note q = con [OF Ok(1)]
    from Ok(2) obtain r1 q1 where s: "S q = Some (r1, q1)"
      and d: "(case r1 of Fail x \<Rightarrow> Some (Fail x, q1) | _ \<Rightarrow> map_option (\<lambda>(_, l). (r1, q1\<lparr>lo := l\<rparr>)) (Close (envOf H) (lo q1))) = Some (r, p')"
      by (cases "S q") (auto simp: deferCloseCmd_def split: prod.splits)
    have q1: "opened q1 = opened p @ [(port, ROMBaud)]" "EvClose \<notin> set (evs (lo q1))"
      using keepsD [OF S(1) s] q by (auto simp: onLoader_def dest!: log_grows_open)
    obtain x l' where c: "Close (envOf H) (lo q1) = Some (x, l')" "evs l' = evs (lo q1) @ [EvClose]" using Close_run by blast
    show ?thesis
    proof (cases r1)
      case (Ok u)
      moreover obtain pre where "evs (lo q1) = pre @ resetEvents" using S(3) s Ok by (auto simp: endsInReset_def)
      ultimately show ?thesis using d c q1 by (auto simp: exitsWell_def)
    next
      case (Fail e)
      then have "exitCode (Fail e) = 1" using fatal_code [OF S(2)] s by blast
      then show ?thesis using Fail d q1 by (auto simp: exitsWell_def)
    next
      case Panic
      then show ?thesis using d c q1 by (auto simp: exitsWell_def)
    qed
  qed
qed

text \<open>The commands that open a port, up to the point where they do.\<close>

definition onPort :: "('d, 'o, 'w) host \<Rightarrow> ('d, 'o, unit) cmd \<Rightarrow> bool" where
  "onPort H m \<longleftrightarrow> (\<forall>p r p'. m p = Some (r, p') \<longrightarrow> p' = p \<or> (\<exists>port S. bind_io (connect H port) (\<lambda>_. deferCloseCmd (envOf H) S) p = Some (r, p')
     \<and> keeps (onLoader log_grows) S \<and> fatalOnly S \<and> endsInReset S))"

lemma onPort_connect:
  "keeps (onLoader log_grows) S \<Longrightarrow> fatalOnly S \<Longrightarrow> endsInReset S \<Longrightarrow>
   onPort H (bind_io (connect H port) (\<lambda>_. deferCloseCmd (envOf H) S))"
  unfolding onPort_def by blast

text \<open>Commands that only look around.\<close>

definition looks :: "('s, 'e, 'a) io \<Rightarrow> bool" where
  "looks m \<longleftrightarrow> (\<forall>p r p'. m p = Some (r, p') \<longrightarrow> p' = p)"

lemma looks_base:
  "looks (ret a)" "looks (throw x)" "looks (orFatal f y)" "looks (portOr H n args)" "looks (loadFlashSource H path)"
  by (auto simp: looks_def orFatal_def dest: portOr_state loadFlashSource_state split: sum.splits)

lemma onPort_looks: "looks m \<Longrightarrow> onPort H m"
  by (auto simp: onPort_def looks_def)

lemma onPort_bind: "looks m \<Longrightarrow> (\<And>a. onPort H (k a)) \<Longrightarrow> onPort H (bind_io m k)"
  unfolding onPort_def looks_def by (blast elim: bind_io_Some)

lemma onPort_if: "onPort H m \<Longrightarrow> onPort H n \<Longrightarrow> onPort H (if c then m else n)"
  by simp

lemma onPort_flags: "(\<And>fs rest. onPort H (k fs rest)) \<Longrightarrow> onPort H (withFlags d args k)"
  by (auto simp: withFlags_def looks_base intro!: onPort_looks split: sum.split flagErr.split prod.split)

lemma onPort_commands: "onPort H (cmdFlash H args)" "onPort H (cmdErase H args)" "onPort H (cmdRead H args)"
  unfolding cmdFlash_def cmdErase_def cmdRead_def case_prod_unfold
  by (intro onPort_flags onPort_if onPort_bind looks_base onPort_connect keeps_intros fatal_intros endsInReset_sessions
      onPort_looks)+

text \<open>C4. How the commands that open a port end. Either nothing was touched (a usage error, a dry run,
  a source or an argument that is wrong), or one port was opened at 115200 baud, and then: on exit
  status 0 the board has been reset into its application and the port closed, in this order and as
  the last thing; on an error the status is 1 and the program leaves the port open to the
  operating system, the board wherever it is.\<close>

theorem session_exit:
  assumes "m \<in> {cmdFlash H args, cmdErase H args, cmdRead H args}" and "m p = Some (r, p')"
    and "EvClose \<notin> set (evs (lo p))"
  shows "p' = p \<or> (\<exists>port. opened p' = opened p @ [(port, 115200)]) \<and>
    (case r of
       Ok _ \<Rightarrow> \<exists>pre. evs (lo p') = pre @ [EvSetRTS True, EvSleep 100000000, EvSetRTS False, EvClose]
     | Fail x \<Rightarrow> exitCode r = 1 \<and> EvClose \<notin> set (evs (lo p'))
     | Panic \<Rightarrow> True)"
proof -
  have "onPort H m" using assms(1) onPort_commands by auto
  with assms(2) consider "p' = p" | port S where "bind_io (connect H port) (\<lambda>_. deferCloseCmd (envOf H) S) p = Some (r, p')"
      and "keeps (onLoader log_grows) S" "fatalOnly S" "endsInReset S"
    unfolding onPort_def by blast
  then show ?thesis
  proof cases
    case 2
    from session_ends [OF this assms(3)] show ?thesis
      by (cases r) (auto simp: exitsWell_def resetEvents_def ROMBaud_def millisecond_def)
  qed simp
qed

lemma session_exit_witness:
  "\<exists>p' pre. cmdFlash demoHost demoArgv (demoProc demoInput) = Some (Ok (), p')
     \<and> evs (lo p') = pre @ [EvSetRTS True, EvSleep 100000000, EvSetRTS False, EvClose]"
proof -
  obtain p' where cmd: "cmdFlash demoHost demoArgv (demoProc demoInput) = Some (Ok (), p')"
    and "opened p' = [(''/dev/ttyUSB0'', ROMBaud)]" by (rule demo_flash)
  moreover have "opened (demoProc demoInput) = []" "EvClose \<notin> set (evs (lo (demoProc demoInput)))"
    by (simp_all add: demoProc_def replaying_def NewLoader_def)
  ultimately show ?thesis using session_exit [where m = "cmdFlash demoHost demoArgv" and p = "demoProc demoInput" and H = demoHost and args = demoArgv, OF _ cmd]
    by auto
qed

section \<open>read\<close>

text \<open>What a command does to files, when all it does is talk to the port.\<close>

definition sameFiles :: "('d, 'o) proc \<Rightarrow> ('d, 'o) proc \<Rightarrow> bool" where
  "sameFiles p p' \<longleftrightarrow> fileOps p' = fileOps p"

interpretation filesKept: io_preorder sameFiles
  by unfold_locales (auto simp: sameFiles_def)

lemma sameFiles_esp [keeps_intros]: "keeps sameFiles (espIO m)"
  by (rule keepsI) (auto simp: espIO_Some sameFiles_def)

lemma sameFiles_connect [keeps_intros]: "keeps sameFiles (connect H port)"
proof -
  have "keeps sameFiles (openPort H port baud)" for baud
    by (rule keepsI) (auto simp: openPort_def Let_def sameFiles_def split: sum.splits)
  then show ?thesis unfolding connect_def fatalEsp_def by (intro keeps_intros)
qed

lemma sameFiles_run: "keeps sameFiles m \<Longrightarrow> m p = Some (r, p') \<Longrightarrow> fileOps p' = fileOps p"
  by (drule keepsD) (simp_all add: sameFiles_def)

lemma osCall_run:
  "osCall op f p = Some (r, p') \<longleftrightarrow> (\<exists>x d. f (dev (lo p)) = (x, d) \<and> p' = p\<lparr>lo := (lo p)\<lparr>dev := d\<rparr>, fileOps := fileOps p @ [(op, x)]\<rparr>
     \<and> r = (case x of None \<Rightarrow> Ok () | Some e \<Rightarrow> Fail (Fatal (CliOs e))))"
  by (auto simp: osCall_def split: prod.splits)

lemma osCall_Ok: "osCall op f p = Some (Ok (), p') \<Longrightarrow> fileOps p' = fileOps p @ [(op, None)]"
  by (auto simp: osCall_run split: option.splits)

lemma sameFiles_steps [keeps_intros]:
  "keeps sameFiles (fatalEsp m)" "keeps sameFiles (ignoreEsp m)" "keeps sameFiles (loadStub H)" "keeps sameFiles (orFatal f x)"
  "keeps sameFiles (portOr H n args)"
  unfolding fatalEsp_def ignoreEsp_def loadStub_def orFatal_def
  by (intro keeps_intros)+ (auto intro!: keepsI simp: sameFiles_def dest: portOr_state)

lemma sameFiles_close: "deferCloseCmd E m p = Some (r, p') \<Longrightarrow> \<exists>q. m p = Some (r, q) \<and> fileOps p' = fileOps q"
  by (auto simp: deferCloseCmd_def split: bind_splits outcome.splits)

lemma HardReset_Ok: "HardReset E l = Some (r, l') \<Longrightarrow> r = Ok ()"
  by (auto simp: HardReset_def setRTS_def sleep_def ignore_call bind_io_def)

lemma ignore_HardReset: "ignoreEsp (HardReset E) p = Some (r, p') \<Longrightarrow> r = Ok () \<and> fileOps p' = fileOps p"
  by (auto simp: ignoreEsp_def espIO_def elim!: try_io_Some dest!: HardReset_Ok)

text \<open>The outcome of a command whose last step that can fail is one operation on files.\<close>

definition osVerdict :: "string option \<Rightarrow> (exit, unit) outcome" where
  "osVerdict x = (case x of None \<Rightarrow> Ok () | Some e \<Rightarrow> Fail (Fatal (CliOs e)))"

lemma osCall_then_reset:
  assumes "bind_io (osCall op f) (\<lambda>_. ignoreEsp (HardReset E)) p = Some (r, p')"
  shows "fileOps p' = fileOps p @ [(op, fst (f (dev (lo p))))] \<and> r = osVerdict (fst (f (dev (lo p))))"
  using assms
proof (cases rule: bind_io_Some)
  case (Ok a q)
  then show ?thesis using ignore_HardReset [OF Ok(2)] by (auto simp: osCall_run osVerdict_def split: option.splits)
qed (auto simp: osCall_run osVerdict_def split: option.splits)

text \<open>What \<open>read\<close> does after it has read the flash; before, no file is touched.\<close>

lemma readSession_files:
  fixes p p' :: "('d, 'o) proc"
  assumes "readSession H off sz file p = Some (r, p')"
  shows "fileOps p' = fileOps p \<and> r \<noteq> Ok () \<or> (\<exists>p2 l data. loadStub H p = Some (Ok (), p2)
     \<and> ReadFlash (envOf H) off sz True (lo p2) = Some (Ok data, l)
     \<and> fileOps p' = fileOps p @ [(OpWriteFile file data, fst (h_writeFile H file data (dev l)))]
     \<and> r = osVerdict (fst (h_writeFile H file data (dev l))))"
  using assms unfolding readSession_def Let_def
proof (cases rule: bind_io_Some)
  case (Ok u p2)
  note p2 = this
  then have same: "fileOps p2 = fileOps p" by (blast intro: sameFiles_run keeps_intros)
  from p2(2) show ?thesis
  proof (cases rule: bind_io_Some)
    case (Ok data p3)
    then obtain l where l: "ReadFlash (envOf H) off sz True (lo p2) = Some (Ok data, l)" "p3 = p2\<lparr>lo := l\<rparr>"
      by (auto simp: fatalEsp_Ok)
    with osCall_then_reset [OF Ok(2)] same p2(1) show ?thesis by auto
  qed (use same in \<open>auto dest: sameFiles_run [OF sameFiles_steps(1)]\<close>)
qed (auto dest: sameFiles_run [OF sameFiles_steps(3)])

text \<open>C38. \<open>flasher read\<close> touches at most one file, the one it was given, and only after the flash has
  been read without an error in its own session: with the port open, the board connected and the
  stub running, for the offset and the size of the command line. The contents it writes are the
  data that \<open>ReadFlash\<close> returned there, and the exit status is decided by the operating system's
  answer to that write: status 0 when the file was written, a fatal error that names the answer when
  it was not. Whatever fails before leaves every file alone and does not exit with status 0.\<close>

theorem cmdRead_saves:
  fixes p p' :: "('d, 'o) proc"
  assumes "cmdRead H args p = Some (r, p')" and "parseFlags [''port'' \<mapsto> FStr []] args = Inr (fs, offStr # szStr # file # rest)"
  shows "fileOps p' = fileOps p \<and> r \<noteq> Ok () \<or>
    (\<exists>off sz port p1 p2 l data answer. ParseUint offStr = Inr off \<and> ParseUint szStr = Inr sz
       \<and> portOr H (strFlag fs ''port'') [] p = Some (Ok port, p) \<and> connect H port p = Some (Ok (), p1)
       \<and> loadStub H p1 = Some (Ok (), p2) \<and> ReadFlash (envOf H) off sz True (lo p2) = Some (Ok data, l)
       \<and> answer = fst (h_writeFile H file data (dev l)) \<and> fileOps p' = fileOps p @ [(OpWriteFile file data, answer)]
       \<and> (case answer of None \<Rightarrow> r = Ok () | Some e \<Rightarrow> r = Fail (Fatal (CliOs e))))"
proof (cases "fileOps p' = fileOps p \<and> r \<noteq> Ok ()")
  case False
  from assms have "bind_io (orFatal (BadReadOffset offStr) (ParseUint offStr)) (\<lambda>off.
       bind_io (orFatal (BadReadSize szStr) (ParseUint szStr)) (\<lambda>sz.
       bind_io (portOr H (strFlag fs ''port'') []) (\<lambda>port.
       bind_io (connect H port) (\<lambda>_. deferCloseCmd (envOf H) (readSession H off sz file))))) p = Some (r, p')"
    by (simp add: cmdRead_def withFlags_def)
  with False obtain off sz port p1 where args: "ParseUint offStr = Inr off" "ParseUint szStr = Inr sz"
    and port: "portOr H (strFlag fs ''port'') [] p = Some (Ok port, p)" and con: "connect H port p = Some (Ok (), p1)"
    and d: "deferCloseCmd (envOf H) (readSession H off sz file) p1 = Some (r, p')"
    by (elim bind_io_Some) (auto simp: orFatal_def dest: portOr_state sameFiles_run [OF sameFiles_connect] split: sum.splits)
  obtain q where q: "readSession H off sz file p1 = Some (r, q)" "fileOps p' = fileOps q" using sameFiles_close [OF d] by blast
  have p1: "fileOps p1 = fileOps p" by (rule sameFiles_run [OF sameFiles_connect con])
  from readSession_files [OF q(1)] False q(2) p1 obtain p2 l data where "loadStub H p1 = Some (Ok (), p2)"
    and "ReadFlash (envOf H) off sz True (lo p2) = Some (Ok data, l)"
    and "fileOps p' = fileOps p @ [(OpWriteFile file data, fst (h_writeFile H file data (dev l)))]"
    and "r = osVerdict (fst (h_writeFile H file data (dev l)))" by auto
  with args port con show ?thesis
    by (intro disjI2 exI [of _ off] exI [of _ sz] exI [of _ port] exI [of _ p1] exI [of _ p2] exI [of _ l] exI [of _ data])
      (auto simp: osVerdict_def split: option.splits)
qed blast

section \<open>A session with the stub\<close>

text \<open>The demo host with a stub, and the replies up to the greeting.\<close>

definition stubHost :: "(replay, (string \<times> bytes) list, (string \<times> bytes) list \<times> string option) host" where
  "stubHost = demoHost\<lparr>h_stubs := (\<lambda>_. Inr demoStub)\<rparr>"

lemma stubHost_env [simp]: "envOf stubHost = replay_env 64" "h_stubs stubHost = (\<lambda>_. Inr demoStub)"
  using demoHost_env by (simp_all add: stubHost_def envOf_def)

definition stubInput :: "bytes \<Rightarrow> bytes" where
  "stubInput rest = answers False cmdSync 8 @ answerFrame False cmdGetSecurityInfo 0 (replicate 12 0 @ le32 13)
     @ stubReplies [1, 2, 3] [4] @ answerFrame False cmdMemEnd 0 [] @ [] @ slipEncode OHAI @ rest"

lemma RunStub_replay:
  assumes "rx (dev l) = answerFrame False cmdGetSecurityInfo 0 (replicate 12 0 @ le32 13)
     @ stubReplies [1, 2, 3] [4] @ answerFrame False cmdMemEnd 0 [] @ [] @ slipEncode OHAI @ rest"
    and "\<not> stub l" and "chip_of l = None"
  shows "\<exists>l'. RunStub (replay_env 64) (\<lambda>_. Inr demoStub) l = Some (Ok (), l') \<and> stub l' \<and> rx (dev l') = rest"
proof -
  let ?E = "replay_env 64" and ?p = "replicate 12 0 @ le32 13 :: bytes"
  let ?more = "stubReplies [1, 2, 3] [4] @ answerFrame False cmdMemEnd 0 [] @ [] @ slipEncode OHAI @ rest"
  have link: "prompt_link ?E rx" by (rule replay_link) simp
  obtain l1 where c: "command ?E cmdGetSecurityInfo [] 0 cmdTimeout l
        = Some (Ok \<lparr>r_cmd = cmdGetSecurityInfo, r_value = 0, r_data = ?p @ trailer (stub l) 0 0\<rparr>, l1)"
    and l1: "rx (dev l1) = ?more" "stub l1 = stub l" "chip_of l1 = chip_of l"
    by (rule prompt_link.command_answered [OF link, of cmdTimeout ?p l cmdGetSecurityInfo 0 0 ?more "[]" 0])
      (use assms in \<open>simp_all add: answerFrame_def\<close>)
  have "ChipID ?E l = Some (Ok 13, l1)"
    using c l1(2) payload_trailer [where p = ?p and stub = "stub l" and s = 0 and e = 0]
    by (simp add: ChipID_def bind_io_eval get32_word0 [of 13 "[]", simplified])
  define l2 where "l2 = l1\<lparr>chip_of := Some demoChip\<rparr>"
  have "chips 13 = Some demoChip" by (simp add: chips_def ChipIDESP32C6_def ChipIDESP32S3_def demoChip_def)
  then have "ensureChip ?E l = Some (Ok (), l2)"
    using \<open>ChipID ?E l = _\<close> assms(3) by (simp add: ensureChip_def bind_io_eval wrap_io_eval l2_def)
  moreover have "ensureChip ?E l2 = Some (Ok (), l2)" by (simp add: ensureChip_def l2_def)
  ultimately have "RunStub ?E (\<lambda>_. Inr demoStub) l = RunStub ?E (\<lambda>_. Inr demoStub) l2"
    using assms(2) l1(2) by (simp add: RunStub_def bind_io_eval l2_def)
  moreover have "\<exists>l'. RunStub ?E (\<lambda>_. Inr demoStub) l2 = Some (Ok (), l') \<and> stub l' \<and> rx (dev l') = rest"
    by (rule stub_greeted [where stream = rx and unmarshal = "\<lambda>_. Inr demoStub" and E = ?E and s = demoStub
      and late = "[]" and v = 0 and rest = rest and code = "[1, 2, 3]" and data = "[4]" and c = demoChip and l = l2, OF link])
      (use l1 assms(2) in \<open>simp_all add: l2_def\<close>)
  ultimately show ?thesis by simp
qed

lemma stub_connected:
  obtains p1 where "connect stubHost ''/dev/ttyUSB0'' (demoProc (stubInput rest)) = Some (Ok (), p1)"
    and "\<exists>p2. loadStub stubHost p1 = Some (Ok (), p2) \<and> stub (lo p2) \<and> rx (dev (lo p2)) = rest"
    and "fileOps p1 = []" and "opened p1 = [(''/dev/ttyUSB0'', ROMBaud)]"
proof -
  let ?l = "replaying (stubInput rest)" and ?more = "drop (length (answers False cmdSync 8)) (stubInput rest)"
  have in0: "rx (dev ?l) = answers False cmdSync 8 @ ?more" "\<not> stub ?l" "chip_of ?l = None"
    by (simp_all add: replaying_def NewLoader_def stubInput_def)
  obtain l1 where l1: "Connect (replay_env 64) ?l = Some (Ok (), l1)" "rx (dev l1) = ?more" "\<not> stub l1"
    using Connect_replay [OF in0(1,2), of 63] by auto
  have chip: "chip_of l1 = None" using same_fields_run(3) [OF fields.keeps_Connect l1(1)] in0(3) by simp
  define p1 where "p1 = (demoProc (stubInput rest))\<lparr>opened := [(''/dev/ttyUSB0'', ROMBaud)], lo := l1\<rparr>"
  obtain l2 where "RunStub (replay_env 64) (\<lambda>_. Inr demoStub) l1 = Some (Ok (), l2)" "stub l2" "rx (dev l2) = rest"
    using RunStub_replay [of l1 rest] l1(2,3) chip by (auto simp: stubInput_def)
  then have "\<exists>p2. loadStub stubHost p1 = Some (Ok (), p2) \<and> stub (lo p2) \<and> rx (dev (lo p2)) = rest"
    by (simp add: loadStub_def p1_def espIO_def wrap_io_eval)
  moreover have "connect stubHost ''/dev/ttyUSB0'' (demoProc (stubInput rest)) = Some (Ok (), p1)"
    using l1(1) by (simp add: connect_def openPort_def OpenSerial_def stubHost_def [THEN arg_cong, of h_serial]
        demoHost_def [THEN arg_cong, of h_serial] demoSerial_def bind_io_Ok fatalEsp_Ok demoProc_def replaying_def NewLoader_def p1_def)
  ultimately show ?thesis by (intro that [of p1]) (simp_all add: p1_def demoProc_def)
qed

lemma demo_flag_port:
  assumes "fs ''port'' = Some (FStr [])"
  shows "parseFlags fs (''--port'' # ''/dev/ttyUSB0'' # args) = parseFlags (fs(''port'' \<mapsto> FStr ''/dev/ttyUSB0'')) args"
proof -
  have "parseOne fs (''--port'' # ''/dev/ttyUSB0'' # args) = Inr (True, fs(''port'' \<mapsto> FStr ''/dev/ttyUSB0''), args)"
    using assms by (simp add: splitFlag_def Cut_def isBool_def assign_def setFlag_def)
  then show ?thesis by (subst parseFlags.simps) (simp only: sum.case prod.case if_True)
qed

lemma demo_bytes: "digits 16 (unat (0x80000 :: u32)) = ''80000''" "digits 16 (unat (0x10000 :: u32)) = ''10000''"
  by (simp_all add: digits.simps digitChar_def char_of_def bit_Suc_0_iff)

lemma HardReset_replay: "\<exists>l'. HardReset (replay_env w) l = Some (Ok (), l')"
  by (simp add: HardReset_def ignore_io_def try_io_def bind_io_def prim_defs)

text \<open>A session on the demo host: it runs, and the command closes the port.\<close>

lemma demo_deferred:
  assumes "S p1 = Some (Ok (), p2)"
  shows "\<exists>p'. deferCloseCmd (replay_env w) S p1 = Some (Ok (), p')"
proof -
  have "\<exists>x l. Close (replay_env w) (lo p2) = Some (x, l)" by (simp add: prim_defs)
  then show ?thesis using assms by (auto simp: deferClose_Ok)
qed

lemma cmdRead_saves_witness:
  "\<exists>p'. cmdRead stubHost [''--port'', ''/dev/ttyUSB0'', ''0x1000'', ''2'', ''out.bin'']
      (demoProc (stubInput (answerFrame True cmdReadFlash 0 [] @ concat (map slipEncode [[7, 8]]) @ []))) = Some (Ok (), p')
    \<and> (\<exists>data. fileOps p' = [(OpWriteFile ''out.bin'' data, None)])"
proof -
  let ?in = "answerFrame True cmdReadFlash 0 [] @ concat (map slipEncode [[7, 8]]) @ []"
  let ?p = "demoProc (stubInput ?in)" and ?args = "[''--port'', ''/dev/ttyUSB0'', ''0x1000'', ''2'', ''out.bin'']"
  let ?fs = "[''port'' \<mapsto> FStr ''/dev/ttyUSB0'']"
  obtain p1 p2 where con: "connect stubHost ''/dev/ttyUSB0'' ?p = Some (Ok (), p1)"
    and stub: "loadStub stubHost p1 = Some (Ok (), p2)" "stub (lo p2)" "rx (dev (lo p2)) = ?in" by (rule stub_connected) blast
  have nums: "ParseUint ''0x1000'' = Inr 0x1000" "ParseUint ''2'' = Inr 2"
    by (simp_all add: ParseUint_def parseUint0_def basePrefix_def lowerChar_def digitVal_def)
  have "readFrames 2 [[7, 8]]" by (auto simp: readFrames_def less_Suc_eq)
  obtain l1 where rd: "ReadFlash (replay_env 64) 0x1000 2 True (lo p2) = try_io (readFrame (replay_env 64) cmdTimeout) (\<lambda>r.
         case r of Inl _ \<Rightarrow> ret (concat [[7, 8]])
         | Inr digest \<Rightarrow> if length digest = 16 \<and> digest \<noteq> md5Sum (concat [[7, 8]]) then throw ReadMD5Mismatch else ret (concat [[7, 8]])) l1"
    and l1: "rx (dev l1) = []"
    using prompt_link.ReadFlash_frames [where stream = rx and E = "replay_env 64" and l = "lo p2" and fs = "[[7, 8]]" and rest = "[]"
        and len = 2 and off = "0x1000" and prog = True, OF replay_link stub(2)] stub(3) \<open>readFrames 2 [[7, 8]]\<close> by (simp del: concat.simps) blast
  obtain l2 where "readFrame (replay_env 64) cmdTimeout l1 = Some (Fail ErrTimeout, l2)"
    using byte_stream.readFrame_silence [OF replayed.byte_stream_axioms l1] by blast
  with rd have rd2: "ReadFlash (replay_env 64) 0x1000 2 True (lo p2) = Some (Ok [7, 8], l2)" by (simp add: try_io_eval)
  define p3 where "p3 = p2\<lparr>lo := l2, fileOps := fileOps p2 @ [(OpWriteFile ''out.bin'' [7, 8], None)]\<rparr>"
  obtain l3 where "HardReset (replay_env 64) (lo p3) = Some (Ok (), l3)" using HardReset_replay by blast
  then have "ignoreEsp (HardReset (replay_env 64)) p3 = Some (Ok (), p3\<lparr>lo := l3\<rparr>)" by (simp add: ignoreEsp_Ok)
  moreover have "osCall (OpWriteFile ''out.bin'' [7, 8]) (h_writeFile stubHost ''out.bin'' [7, 8]) (p2\<lparr>lo := l2\<rparr>) = Some (Ok (), p3)"
    by (simp add: osCall_def p3_def stubHost_def demoHost_def)
  moreover have "fatalEsp (ReadFlash (replay_env 64) 0x1000 2 True) p2 = Some (Ok [7, 8], p2\<lparr>lo := l2\<rparr>)"
    using rd2 by (simp add: fatalEsp_Ok)
  ultimately have "readSession stubHost 0x1000 2 ''out.bin'' p1 = Some (Ok (), p3\<lparr>lo := l3\<rparr>)"
    using stub(1) by (simp add: readSession_def Let_def bind_io_eval)
  then obtain p' where d: "deferCloseCmd (replay_env 64) (readSession stubHost 0x1000 2 ''out.bin'') p1 = Some (Ok (), p')"
    using demo_deferred by blast
  have flags: "parseFlags [''port'' \<mapsto> FStr []] ?args = Inr (?fs, ''0x1000'' # ''2'' # ''out.bin'' # [])"
    by (subst demo_flag_port) (simp_all add: parseFlags_plain)
  have cmd: "cmdRead stubHost ?args ?p = Some (Ok (), p')"
    using con d by (simp add: cmdRead_def withFlags_def flags nums orFatal_def portOr_def strFlag_def bind_io_eval)
  moreover have "fileOps ?p = []" by (simp add: demoProc_def)
  moreover have "fst (h_writeFile stubHost n x w) = None" for n x w by (simp add: stubHost_def demoHost_def)
  ultimately show ?thesis using cmdRead_saves [OF cmd flags] by auto
qed

section \<open>erase\<close>

lemma colon_digits: "2 \<le> b \<Longrightarrow> b \<le> 16 \<Longrightarrow> CHR '':'' \<notin> set (digits b n)"
proof
  assume b: "2 \<le> b" "b \<le> 16" and "CHR '':'' \<in> set (digits b n)"
  then obtain d where d: "d < 16" "CHR '':'' = digitChar d" using digits_plain by blast
  have "(of_char CHR '':'' :: nat) = 58" by simp
  then show False using code_digitChar [OF d(1)] d by (simp split: if_splits)
qed

text \<open>A number as a user writes it: in decimal, or in hexadecimal.\<close>

definition spells :: "string \<Rightarrow> u32 \<Rightarrow> bool" where
  "spells s v \<longleftrightarrow> s = digits 10 (unat v) \<or> s = ''0x'' @ digits 16 (unat v)"

lemma spells_parsed: "spells s v \<Longrightarrow> ParseUint s = Inr v \<and> CHR '':'' \<notin> set s"
  using ParseUint_roundtrip [of v] colon_digits [of 10 "unat v"] colon_digits [of 16 "unat v"] by (auto simp: spells_def)

lemma parseRegion_parts:
  "CHR '':'' \<notin> set a \<Longrightarrow> ParseUint a = Inr off \<Longrightarrow> ParseUint b = Inr sz \<Longrightarrow> parseRegion (a @ '':'' @ b) = Inr (off, sz)"
  using Cut_append [of "CHR '':''" a b] by (simp add: parseRegion_def)

lemma parseRegion_spelt: "spells a off \<Longrightarrow> spells b sz \<Longrightarrow> parseRegion (a @ '':'' @ b) = Inr (off, sz)"
  by (blast intro: parseRegion_parts dest: spells_parsed)

lemma parseRegion_Inr:
  assumes "parseRegion s = Inr (off, sz)"
  shows "\<exists>a b. s = a @ '':'' @ b \<and> CHR '':'' \<notin> set a \<and> ParseUint a = Inr off \<and> ParseUint b = Inr sz"
proof (cases "CHR '':'' \<in> set s")
  case True
  then obtain a b where "s = a @ CHR '':'' # b" "CHR '':'' \<notin> set a" by (meson split_list_first)
  then show ?thesis using assms Cut_append [of "CHR '':''" a b]
    by (intro exI [of _ a] exI [of _ b]) (auto simp: parseRegion_def split: sum.splits)
next
  case False
  then show ?thesis using assms by (simp add: parseRegion_def Cut_def)
qed

lemma EraseRegion_Ok:
  assumes "EraseRegion E off sz l = Some (Ok (), l')"
  shows "sent l' = sent l @ requestFrame cmdEraseRegion (le32 off @ le32 sz)"
proof -
  have "put32 4 sz (put32 0 off (replicate 8 0)) = le32 off @ le32 sz"
    by (simp add: put32_def overwrite_def le32_def numeral_eq_Suc)
  then show ?thesis
    using assms by (auto simp: EraseRegion_def void_def bind_io_Ok Let_def requestFrame_def dest: command_Ok(1) split: if_splits)
qed

lemma EraseFlash_Ok:
  "EraseFlash E l = Some (Ok (), l') \<Longrightarrow> sent l' = sent l @ requestFrame cmdEraseFlash []"
  by (auto simp: EraseFlash_def void_def bind_io_Ok requestFrame_def dest: command_Ok(1) split: if_splits)

lemma HardReset_sent: "HardReset E l = Some (r, l') \<Longrightarrow> sent l' = sent l"
  by (drule HardReset_events) (simp add: sent_def resetEvents_def)

lemma Close_sent: "Close E l = Some (x, l') \<Longrightarrow> sent l' = sent l"
  by (auto simp: Close_def call_def split: prod.splits)

text \<open>The request that a region, or none, stands for.\<close>

definition eraseRequest :: "string \<Rightarrow> bytes \<Rightarrow> bool" where
  "eraseRequest region req \<longleftrightarrow>
     (if region = [] then req = requestFrame cmdEraseFlash []
      else \<exists>off sz. parseRegion region = Inr (off, sz) \<and> req = requestFrame cmdEraseRegion (le32 off @ le32 sz))"

lemma eraseSession_Ok:
  fixes p p' :: "('d, 'o) proc"
  assumes "eraseSession H region p = Some (Ok (), p')"
  shows "\<exists>p1 req. loadStub H p = Some (Ok (), p1) \<and> eraseRequest region req \<and> sent (lo p') = sent (lo p1) @ req"
proof -
  from assms obtain p1 p2 :: "('d, 'o) proc" and r where ld: "loadStub H p = Some (Ok (), p1)" and
    er: "(if region \<noteq> [] then bind_io (orFatal id (parseRegion region)) (\<lambda>(off, sz). fatalEsp (EraseRegion (envOf H) off sz))
       else fatalEsp (EraseFlash (envOf H))) p1 = Some (Ok (), p2)"
    and rst: "HardReset (envOf H) (lo p2) = Some (r, lo p')"
    by (auto simp: eraseSession_def Let_def bind_io_Ok ignoreEsp_Ok)
  have "\<exists>req. eraseRequest region req \<and> sent (lo p2) = sent (lo p1) @ req"
    using er by (auto simp: eraseRequest_def fatalEsp_Ok bind_io_Ok orFatal_Ok split: if_splits
        dest: EraseFlash_Ok EraseRegion_Ok)
  then show ?thesis using ld HardReset_sent [OF rst] by auto
qed

text \<open>C39. \<open>flasher erase\<close> erases what its command line says and nothing else: when it exits with status 0,
  the port was opened, the board connected and the stub started, and all that went over the line from
  then on is one request. Without \<open>--region\<close> it is the erase of the whole flash; with a region, the
  erase of exactly that region, the two numbers around the first colon, each in any form
  that \<open>strconv.ParseUint\<close> takes; in particular \<open>0x\<close> and hexadecimal digits, and decimal digits,
  mean what they say for the offset and for the size.\<close>

theorem cmdErase_region:
  fixes p p' :: "('d, 'o) proc"
  assumes "cmdErase H args p = Some (Ok (), p')"
    and "parseFlags [''port'' \<mapsto> FStr [], ''region'' \<mapsto> FStr []] args = Inr (fs, rest)" and "strFlag fs ''region'' = region"
  shows "\<exists>port p1 p2 req. portOr H (strFlag fs ''port'') rest p = Some (Ok port, p) \<and> connect H port p = Some (Ok (), p1)
    \<and> loadStub H p1 = Some (Ok (), p2) \<and> sent (lo p') = sent (lo p2) @ req
    \<and> (if region = [] then req = requestFrame cmdEraseFlash []
       else \<exists>a b off sz. region = a @ '':'' @ b \<and> CHR '':'' \<notin> set a \<and> ParseUint a = Inr off \<and> ParseUint b = Inr sz
         \<and> req = requestFrame cmdEraseRegion (le32 off @ le32 sz))
    \<and> (\<forall>a b off sz. a \<in> {digits 10 (unat off), ''0x'' @ digits 16 (unat off)} \<and> b \<in> {digits 10 (unat sz), ''0x'' @ digits 16 (unat sz)}
         \<and> region = a @ '':'' @ b \<longrightarrow> req = requestFrame cmdEraseRegion (le32 off @ le32 sz))"
proof -
  from assms obtain port and p0 p1 q :: "('d, 'o) proc" and x where port0: "portOr H (strFlag fs ''port'') rest p = Some (Ok port, p0)"
    and con0: "connect H port p0 = Some (Ok (), p1)" and s: "eraseSession H region p1 = Some (Ok (), q)"
    and c: "Close (envOf H) (lo q) = Some (x, lo p')"
    by (auto simp: cmdErase_def withFlags_def bind_io_Ok deferClose_Ok)
  note port = port0 [unfolded portOr_state [OF port0]] and con = con0 [unfolded portOr_state [OF port0]]
  obtain p2 req where e: "loadStub H p1 = Some (Ok (), p2)" "eraseRequest region req" "sent (lo p') = sent (lo p2) @ req"
    using eraseSession_Ok [OF s] Close_sent [OF c] by auto
  have forms: "if region = [] then req = requestFrame cmdEraseFlash []
       else \<exists>a b off sz. region = a @ '':'' @ b \<and> CHR '':'' \<notin> set a \<and> ParseUint a = Inr off \<and> ParseUint b = Inr sz
         \<and> req = requestFrame cmdEraseRegion (le32 off @ le32 sz)"
    using e(2) parseRegion_Inr [of region] unfolding eraseRequest_def by (fastforce split: if_splits)
  have "req = requestFrame cmdEraseRegion (le32 off @ le32 sz)"
    if "spells a off \<and> spells b sz \<and> region = a @ '':'' @ b" for a b off sz
    using that e(2) parseRegion_spelt [of a off b sz] by (auto simp: eraseRequest_def)
  then show ?thesis
    using port con e(1,3) forms by (intro exI [of _ port] exI [of _ p1] exI [of _ p2] exI [of _ req]) (auto simp: spells_def)
qed

lemma cmdErase_region_witness:
  "\<exists>p' pre. cmdErase stubHost [''--port'', ''/dev/ttyUSB0'', ''--region=0x80000:0x10000''] (demoProc (stubInput (answerFrame True cmdEraseRegion 0 [])))
       = Some (Ok (), p')
    \<and> sent (lo p') = pre @ requestFrame cmdEraseRegion (le32 0x80000 @ le32 0x10000)"
proof -
  let ?in = "answerFrame True cmdEraseRegion 0 []"
  let ?p = "demoProc (stubInput ?in)" and ?args = "[''--port'', ''/dev/ttyUSB0'', ''--region=0x80000:0x10000'']"
  let ?fs = "[''port'' \<mapsto> FStr ''/dev/ttyUSB0'', ''region'' \<mapsto> FStr ''0x80000:0x10000'']"
  have link: "prompt_link (replay_env 64) rx" by (rule replay_link) simp
  obtain p1 p2 where con: "connect stubHost ''/dev/ttyUSB0'' ?p = Some (Ok (), p1)"
    and stub: "loadStub stubHost p1 = Some (Ok (), p2)" "stub (lo p2)" "rx (dev (lo p2)) = ?in" by (rule stub_connected) blast
  have nums: "ParseUint ''0x80000'' = Inr 0x80000" "ParseUint ''0x10000'' = Inr 0x10000"
    by (simp_all add: ParseUint_def parseUint0_def basePrefix_def lowerChar_def digitVal_def)
  have text_parts: "''0x80000:0x10000'' = ''0x80000'' @ '':'' @ ''0x10000''" by simp
  have reg: "parseRegion ''0x80000:0x10000'' = Inr (0x80000, 0x10000)"
    unfolding text_parts by (rule parseRegion_parts) (simp_all add: nums)
  let ?d = "put32 4 0x10000 (put32 0 0x80000 (replicate 8 0))"
  have "rx (dev (lo p2)) = answerFrame (stub (lo p2)) cmdEraseRegion 0 [] @ []" using stub by simp
  moreover have "0 < chipEraseTimeout" by (simp add: chipEraseTimeout_def second_def millisecond_def)
  ultimately obtain q l2 where "command (replay_env 64) cmdEraseRegion ?d 0 chipEraseTimeout (lo p2) = Some (Ok q, l2)"
    by (rule prompt_link.command_ack [OF link])
  then have er: "fatalEsp (EraseRegion (replay_env 64) 0x80000 0x10000) p2 = Some (Ok (), p2\<lparr>lo := l2\<rparr>)"
    using stub(2) by (simp add: fatalEsp_Ok EraseRegion_def void_def bind_io_eval)
  obtain l3 where "HardReset (replay_env 64) l2 = Some (Ok (), l3)" using HardReset_replay by blast
  then have "ignoreEsp (HardReset (replay_env 64)) (p2\<lparr>lo := l2\<rparr>) = Some (Ok (), p2\<lparr>lo := l3\<rparr>)" by (simp add: ignoreEsp_Ok)
  then have "eraseSession stubHost ''0x80000:0x10000'' p1 = Some (Ok (), p2\<lparr>lo := l3\<rparr>)"
    using stub(1) er by (simp add: eraseSession_def Let_def bind_io_eval reg orFatal_def)
  then obtain p' where d: "deferCloseCmd (replay_env 64) (eraseSession stubHost ''0x80000:0x10000'') p1 = Some (Ok (), p')"
    using demo_deferred by blast
  have "parseOne [''port'' \<mapsto> FStr ''/dev/ttyUSB0'', ''region'' \<mapsto> FStr []] [''--region=0x80000:0x10000''] = Inr (True, ?fs, [])"
    by (simp add: splitFlag_def Cut_def isBool_def assign_def setFlag_def)
  then have flags: "parseFlags [''port'' \<mapsto> FStr [], ''region'' \<mapsto> FStr []] ?args = Inr (?fs, [])"
    by (subst demo_flag_port) (simp, subst parseFlags.simps, simp add: fun_upd_twist parseFlags_Nil)
  have sf: "strFlag ?fs ''region'' = ''0x80000:0x10000''" "strFlag ?fs ''port'' = ''/dev/ttyUSB0''" by (simp_all add: strFlag_def)
  have cmd: "cmdErase stubHost ?args ?p = Some (Ok (), p')"
    using con d sf by (simp add: cmdErase_def withFlags_def flags portOr_def bind_io_eval)
  have spelt: "''0x80000'' = ''0x'' @ digits 16 (unat (0x80000 :: u32))" "''0x10000'' = ''0x'' @ digits 16 (unat (0x10000 :: u32))"
    by (simp_all only: demo_bytes) simp_all
  from cmdErase_region [OF cmd flags sf(1)] obtain q :: "(replay, (string \<times> bytes) list) proc" and req where q: "sent (lo p') = sent (lo q) @ req"
    and r: "\<forall>a b off sz. a \<in> {digits 10 (unat off), ''0x'' @ digits 16 (unat off)} \<and> b \<in> {digits 10 (unat sz), ''0x'' @ digits 16 (unat sz)}
      \<and> ''0x80000:0x10000'' = a @ '':'' @ b \<longrightarrow> req = requestFrame cmdEraseRegion (le32 off @ le32 sz)"
    by (elim exE conjE) (erule that, assumption)
  have "req = requestFrame cmdEraseRegion (le32 0x80000 @ le32 0x10000)"
    using text_parts spelt by (intro r [rule_format, of "''0x80000''" "0x80000" "''0x10000''" "0x10000"]) blast
  then show ?thesis using cmd q by blast
qed

end
