(* ===== verification/CliFiles.thy ===== *)
theory CliFiles
  imports CliSpec
begin

text \<open>
  The commands on archives: flashing what \<open>pack\<close> wrote is flashing the build directory, and what
  \<open>unpack\<close> writes, and where.
\<close>

section \<open>pack, then flash\<close>

definition packFlags :: flags where
  "packFlags = [''o'' \<mapsto> FStr [], ''version'' \<mapsto> FStr []]"

lemma cmdPack_Ok:
  assumes "cmdPack H args p = Some (Ok (), p')" and "parseFlags packFlags args = Inr (fs, dir # rest)"
  obtains b path out where "FromBuildDir (\<lambda>f. h_readFile H f (dev (lo p))) (h_args H) (h_iter H) dir (strFlag fs ''version'') (h_date H) = Inr b"
    and "Pack (h_archiver H) (h_marshal H) b = Inr out"
    and "path = (if strFlag fs ''o'' = [] then defaultBundleName dir else strFlag fs ''o'')"
    and "fileOps p' = fileOps p @ [(OpCreate path, None), (OpPacked path out, None)]"
  using assms
  by (auto simp: cmdPack_def packFlags_def withFlags_def world_bind bind_io_Ok orFatal_Ok Let_def dest!: osCall_Ok intro: that)

lemma loadFlashSource_dir:
  assumes "loadFlashSource H dir p = Some (Ok (chip, mode, sz, freq, fls), p)" and "h_stat H dir (dev (lo p)) = Inr True"
  obtains fa where "Load (\<lambda>f. h_readFile H f (dev (lo p))) (h_args H) (h_iter H) dir = Inr (fa, fls)"
    and "chip = ExtraChip fa" "mode = FlashMode fa" "sz = FlashSize fa" "freq = FlashFreq fa"
  using assms by (auto simp: loadFlashSource_def world_bind bind_io_Ok orFatal_Ok)

text \<open>C34. Packing and then flashing the archive is flashing the build directory: if \<open>flasher pack\<close>
  exits with status 0, then \<open>flasher flash\<close> loads from the file it has written the settings and,
  in the same order, the images that it loads from the directory, each under its base name. The
  base names must differ, and the tar, gzip and JSON packages must read back what they wrote.\<close>

theorem pack_then_flash:
  assumes "cmdPack H args p = Some (Ok (), p')" and "parseFlags packFlags args = Inr (fs, dir # rest)"
    and "h_stat H dir (dev (lo p)) = Inr True" and "loadFlashSource H dir p = Some (Ok (chip, mode, sz, freq, fls), p)"
    and "distinct (map (\<lambda>f. pathBase (ffName f)) fls)"
    and "archiverLaws (h_archiver H) (h_unarchive H) holds"
    and "\<And>b mj. FromBuildDir (\<lambda>f. h_readFile H f (dev (lo p))) (h_args H) (h_iter H) dir (strFlag fs ''version'') (h_date H) = Inr b \<Longrightarrow>
      h_marshal H (Manifest b) = Inr mj \<Longrightarrow> h_unmarshal H mj emptyManifest = Inr (Manifest b)"
    and "fileOps p' = fileOps p @ [(OpCreate path, None), (OpPacked path out, None)]"
    and "h_stat H path (dev (lo q)) = Inr False" and "h_open H path (dev (lo q)) = Inr out"
  shows "loadFlashSource H path q = Some (Ok (chip, mode, sz, freq, map (\<lambda>f. f\<lparr>ffName := pathBase (ffName f)\<rparr>) fls), q)"
proof -
  obtain b path' out' where b: "FromBuildDir (\<lambda>f. h_readFile H f (dev (lo p))) (h_args H) (h_iter H) dir (strFlag fs ''version'') (h_date H) = Inr b"
    and pk: "Pack (h_archiver H) (h_marshal H) b = Inr out'" and ops: "fileOps p' = fileOps p @ [(OpCreate path', None), (OpPacked path' out', None)]"
    by (rule cmdPack_Ok [OF assms(1,2)])
  have pack: "Pack (h_archiver H) (h_marshal H) b = Inr out" using pk ops assms(8) by simp
  obtain fa where ld: "Load (\<lambda>f. h_readFile H f (dev (lo p))) (h_args H) (h_iter H) dir = Inr (fa, fls)"
    and set: "chip = ExtraChip fa" "mode = FlashMode fa" "sz = FlashSize fa" "freq = FlashFreq fa"
    by (rule loadFlashSource_dir [OF assms(4,3)])
  have ok: "bundleOk b" using FromBuildDir_ok [OF b ld] assms(5) by (simp add: baseOf_def [abs_def])
  obtain b' where b': "OpenBundle (h_unarchive H) (h_unmarshal H) out = Inr b'" "Manifest b' = Manifest b" "BundleFlashFiles b' = BundleFlashFiles b"
    using open_packed [where holds = holds and marshal = "h_marshal H" and unm = "h_unmarshal H", OF assms(6) pack ok] assms(7) [OF b] by blast
  have "BundleFlashFiles b = map (\<lambda>f. f\<lparr>ffName := pathBase (ffName f)\<rparr>) fls"
    by (rule bundle_flashes [OF ld b assms(5)])
  then show ?thesis
    using b' set FromBuildDir_settings [OF b ld] assms(9,10)
    by (simp add: loadFlashSource_def world_bind orFatal_def Let_def)
qed

lemma one_Load: "Load (\<lambda>f. h_readFile demoHost f d) (h_args demoHost) (h_iter demoHost) ''build'' = Inr (oneArgs, [oneFile])"
proof -
  have "loadFiles (\<lambda>f. h_readFile demoHost f d) ''build'' [(''0x10000'', ''app.bin'')] [] = (Inr [oneFile] :: (string, string) argsErr + _)"
    by (simp add: demo_offsets demo_paths demoHost_def oneFile_def)
  then show ?thesis unfolding Load_def demo_paths by (simp add: demoHost_def sortFiles_def)
qed

lemma one_bundle:
  "FromBuildDir (\<lambda>f. h_readFile demoHost f d) (h_args demoHost) (h_iter demoHost) ''build'' [] (h_date demoHost) = Inr oneBundle"
  by (simp add: FromBuildDir_def one_Load oneBundle_def) (simp add: oneArgs_def demoArgs_def demoHost_def)

lemma one_data: "bdata oneBundle = [(''app.bin'', [0xE9, 2, 3])]"
  by (simp add: oneBundle_def addFile_def Let_def oneFile_def demo_bases)

definition onePacked :: "(string \<times> bytes) list" where
  "onePacked = [(''manifest.json'', [123]), (''files/app.bin'', [0xE9, 2, 3])]"

lemma one_Pack: "Pack (h_archiver demoHost) (h_marshal demoHost) oneBundle = Inr onePacked"
proof -
  have "Pack listArchiver (\<lambda>_. Inr [123]) oneBundle = Inr onePacked"
    by (simp add: Pack_def one_data writeTar_def listArchiver_def dataOf_def onePacked_def)
  then show ?thesis by (simp add: demoHost_def)
qed

lemma list_laws: "archiverLaws (h_archiver demoHost) (h_unarchive demoHost) (\<lambda>w es. w = (es, None))"
  by (auto simp: archiverLaws_def demoHost_def listArchiver_def)

lemma one_pack:
  obtains p' where "cmdPack demoHost [''build''] (demoProc []) = Some (Ok (), p')"
    and "fileOps p' = fileOps (demoProc []) @ [(OpCreate ''firmware.fbundle'', None), (OpPacked ''firmware.fbundle'' onePacked, None)]"
proof -
  have name: "defaultBundleName ''build'' = ''firmware.fbundle''" by code_simp
  have c: "h_create demoHost n d = (None, d)" "h_store demoHost n o' d = d" for n d o' by (simp_all add: demoHost_def)
  show ?thesis
    by (rule that, simp add: cmdPack_def withFlags_def parseFlags_plain world_def strFlag_def one_bundle orFatal_def bind_io_def osCall_def c one_Pack name Let_def)
      simp
qed

lemma pack_then_flash_witness:
  "loadFlashSource demoHost ''firmware.fbundle'' (demoProc []) = Some (Ok (''esp32s3'', ''dio'', ''8MB'', ''80m'', [oneFile]), demoProc [])"
proof -
  obtain p' where p': "cmdPack demoHost [''build''] (demoProc []) = Some (Ok (), p')"
    "fileOps p' = fileOps (demoProc []) @ [(OpCreate ''firmware.fbundle'', None), (OpPacked ''firmware.fbundle'' onePacked, None)]" by (rule one_pack)
  have flags: "parseFlags packFlags [''build''] = Inr (packFlags, ''build'' # [])" by (simp add: parseFlags_plain)
  have src: "loadFlashSource demoHost ''build'' (demoProc []) = Some (Ok (''esp32s3'', ''dio'', ''8MB'', ''80m'', [oneFile]), demoProc [])"
    by (rule demo_source)
  have stat: "h_stat demoHost ''build'' d = Inr True" "h_stat demoHost ''firmware.fbundle'' d = Inr False"
    "h_open demoHost ''firmware.fbundle'' d = Inr onePacked" for d by (simp_all add: demoHost_def onePacked_def)
  have "strFlag packFlags ''version'' = []" by (simp add: strFlag_def packFlags_def)
  then have json: "h_unmarshal demoHost mj emptyManifest = Inr (Manifest b)"
    if "FromBuildDir (\<lambda>f. h_readFile demoHost f (dev (lo (demoProc [])))) (h_args demoHost) (h_iter demoHost) ''build''
      (strFlag packFlags ''version'') (h_date demoHost) = Inr b" for b mj
    using that one_bundle by (simp add: demoHost_def)
  have "loadFlashSource demoHost ''firmware.fbundle'' (demoProc [])
      = Some (Ok (''esp32s3'', ''dio'', ''8MB'', ''80m'', map (\<lambda>f. f\<lparr>ffName := pathBase (ffName f)\<rparr>) [oneFile]), demoProc [])"
    by (rule pack_then_flash [where holds = "\<lambda>w es. w = (es, None)", OF p'(1) flags stat(1) src _ list_laws json p'(2) stat(2,3)]) simp
  then show ?thesis by (simp add: oneFile_def demo_bases)
qed

section \<open>unpack\<close>

text \<open>A command that does the operations \<open>ops\<close> on files in order, up to the first one that fails.\<close>

definition scriptRun :: "'o fileOp list \<Rightarrow> ('o fileOp \<times> string option) list \<Rightarrow> (exit, unit) outcome \<Rightarrow> bool" where
  "scriptRun ops log r \<longleftrightarrow> log = map (\<lambda>q. (q, None)) ops \<and> r = Ok ()
     \<or> (\<exists>k e. k < length ops \<and> log = map (\<lambda>q. (q, None)) (take k ops) @ [(ops ! k, Some e)] \<and> r = Fail (Fatal (CliOs e)))"

definition performs :: "'o fileOp list \<Rightarrow> ('d, 'o, unit) cmd \<Rightarrow> bool" where
  "performs ops m \<longleftrightarrow> (\<forall>p r p'. m p = Some (r, p') \<longrightarrow> (\<exists>log. fileOps p' = fileOps p @ log \<and> scriptRun ops log r))"

lemma performs_done: "performs [] (ret ())"
  by (auto simp: performs_def scriptRun_def)

lemma scriptRun_Cons: "scriptRun ops log r \<Longrightarrow> scriptRun (q # ops) ((q, None) # log) r"
  unfolding scriptRun_def
proof (elim disjE exE conjE)
  fix k e assume k: "k < length ops" "log = map (\<lambda>q. (q, None)) (take k ops) @ [(ops ! k, Some e)]" "r = Fail (Fatal (CliOs e))"
  then show "(q, None) # log = map (\<lambda>q. (q, None)) (q # ops) \<and> r = Ok () \<or>
    (\<exists>k e. k < length (q # ops) \<and> (q, None) # log = map (\<lambda>q. (q, None)) (take k (q # ops)) @ [((q # ops) ! k, Some e)] \<and> r = Fail (Fatal (CliOs e)))"
    by (intro disjI2 exI [of _ "Suc k"] exI [of _ e]) simp
qed simp

lemma performs_osCall:
  assumes "performs ops m"
  shows "performs (q # ops) (bind_io (osCall q f) (\<lambda>_. m))"
  unfolding performs_def
proof (intro allI impI)
  fix p r p' assume "bind_io (osCall q f) (\<lambda>_. m) p = Some (r, p')"
  then show "\<exists>log. fileOps p' = fileOps p @ log \<and> scriptRun (q # ops) log r"
  proof (cases rule: bind_io_Some)
    case (Ok a p1)
    then have "fileOps p1 = fileOps p @ [(q, None)]" by (auto dest: osCall_Ok)
    moreover obtain log where "fileOps p' = fileOps p1 @ log" "scriptRun ops log r"
      using assms Ok(2) unfolding performs_def by blast
    ultimately show ?thesis by (intro exI [of _ "(q, None) # log"]) (simp add: scriptRun_Cons)
  next
    case (Fail x)
    then obtain e where "fileOps p' = fileOps p @ [(q, Some e)]" "r = Fail (Fatal (CliOs e))"
      by (auto simp: osCall_run split: option.splits)
    then show ?thesis by (intro exI [of _ "[(q, Some e)]"]) (auto simp: scriptRun_def intro!: exI [of _ 0])
  next
    case Panic
    then show ?thesis by (simp add: osCall_run split: option.splits)
  qed
qed

definition unpackOps :: "('d, 'o, 'w) host \<Rightarrow> string \<Rightarrow> fbundle \<Rightarrow> 'o fileOp list" where
  "unpackOps H dir b = OpMkdirAll dir # OpWriteFile (pathJoin dir ''manifest.json'') (h_marshalIndent H (Manifest b))
     # map (\<lambda>m. OpWriteFile (pathJoin dir (fName m)) (dataOf b (fName m))) (mFiles (Manifest b))"

lemma performs_unpackFiles:
  "performs (map (\<lambda>m. OpWriteFile (pathJoin dir (fName m)) (dataOf b (fName m))) fls) (unpackFiles H dir b fls)"
proof (induction fls)
  case (Cons f fls)
  have d: "(case BundleFile b n of Some d \<Rightarrow> d | None \<Rightarrow> []) = dataOf b n" for n
    by (simp add: BundleFile_def dataOf_def)
  show ?case by (simp only: unpackFiles.simps list.map Let_def d performs_osCall [OF Cons.IH])
qed (simp only: unpackFiles.simps list.map performs_done)

definition unpackFlags :: flags where
  "unpackFlags = [''C'' \<mapsto> FStr ''.'']"

lemma cmdUnpack_run:
  assumes "cmdUnpack H args p = Some (r, p')" and "parseFlags unpackFlags args = Inr (fs, path # rest)"
    and "h_open H path (dev (lo p)) = Inr f" and "OpenBundle (h_unarchive H) (h_unmarshal H) f = Inr b"
  shows "\<exists>log. fileOps p' = fileOps p @ log \<and> scriptRun (unpackOps H (strFlag fs ''C'') b) log r"
proof -
  let ?dir = "strFlag fs ''C''" and ?mj = "h_marshalIndent H (Manifest b)"
  let ?path = "pathJoin ?dir ''manifest.json''"
  have "bind_io (osCall (OpMkdirAll ?dir) (h_mkdirAll H ?dir)) (\<lambda>_.
       bind_io (osCall (OpWriteFile ?path ?mj) (h_writeFile H ?path ?mj)) (\<lambda>_.
       unpackFiles H ?dir b (mFiles (Manifest b)))) p = Some (r, p')"
    using assms by (simp add: cmdUnpack_def unpackFlags_def withFlags_def world_bind orFatal_def Let_def)
  then show ?thesis
    using performs_osCall [OF performs_osCall [OF performs_unpackFiles]] unfolding performs_def unpackOps_def by blast
qed

lemma opened_sums:
  assumes "OpenBundle unarchive unm r = Inr b" and "m \<in> set (mFiles (Manifest b))"
  shows "hexEncode (sha256Sum (dataOf b (fName m))) = fSHA256 m"
proof -
  have "checkFiles (mFiles (Manifest b)) b = Inr b"
    using assms(1) by (auto simp: OpenBundle_def checkFiles_ok split: sum.splits if_splits)
  then show ?thesis using assms(2) unfolding checkFiles_ok by (force simp: dataOf_def split: option.splits)
qed

text \<open>Single path elements.\<close>

definition plainName :: "string \<Rightarrow> bool" where
  "plainName n \<longleftrightarrow> n \<noteq> [] \<and> CHR ''/'' \<notin> set n \<and> n \<noteq> ''.'' \<and> n \<noteq> ''..''"

text \<open>A clean path, with its elements: the directories of command lines, the default one included.\<close>

definition dirPath :: "bool \<Rightarrow> string list \<Rightarrow> string" where
  "dirPath rooted ds = (if rooted then ''/'' @ joinSlash ds else if ds = [] then ''.'' else joinSlash ds)"

lemma splitSlash_plain: "CHR ''/'' \<notin> set n \<Longrightarrow> splitSlash w n = [rev w @ n]"
  by (induction n arbitrary: w) auto

lemma splitSlash_slash: "CHR ''/'' \<notin> set n \<Longrightarrow> splitSlash w (n @ CHR ''/'' # s) = (rev w @ n) # splitSlash [] s"
  by (induction n arbitrary: w) auto

lemma splitSlash_join:
  "\<forall>d \<in> set ds. plainName d \<Longrightarrow> ds \<noteq> [] \<Longrightarrow> splitSlash [] (joinSlash ds @ CHR ''/'' # s) = ds @ splitSlash [] s"
  by (induction ds rule: joinSlash.induct) (auto simp: splitSlash_slash plainName_def)

lemma cleanElems_plain:
  "\<forall>d \<in> set ds. plainName d \<Longrightarrow> cleanElems rooted st (ds @ es) = cleanElems rooted (rev ds @ st) es"
  by (induction ds arbitrary: st) (auto simp: plainName_def)

lemma cleanElems_name: "plainName n \<Longrightarrow> cleanElems rooted st [n] = rev st @ [n]"
  by (simp add: plainName_def)

lemma joinSlash_plain: "\<forall>d \<in> set ds. plainName d \<Longrightarrow> ds \<noteq> [] \<Longrightarrow> joinSlash ds \<noteq> [] \<and> hd (joinSlash ds) \<noteq> CHR ''/''"
proof (induction ds rule: joinSlash.induct)
  case (2 e)
  then show ?case by (cases e) (auto simp: plainName_def)
next
  case (3 e f es)
  then show ?case by (cases e) (auto simp: plainName_def)
qed simp

text \<open>Joining a relative path to a clean directory cleans the elements of both.\<close>

lemma pathJoin_elems:
  assumes "\<forall>d \<in> set ds. plainName d"
  shows "pathJoin (dirPath rooted ds) s = (let p = joinSlash (cleanElems rooted (rev ds) (splitSlash [] s)) in
    if rooted then ''/'' @ p else if p = [] then ''.'' else p)"
proof (cases "ds = []")
  case True
  then show ?thesis by (simp add: dirPath_def pathJoin_def pathClean_def Let_def)
next
  case False
  note split = splitSlash_join [OF assms False, of s] and elems = cleanElems_plain [OF assms, of _ "[]"]
  show ?thesis
    using False joinSlash_plain [OF assms False]
    by (cases rooted) (simp_all add: dirPath_def pathJoin_def pathClean_def Let_def split elems)
qed

lemma pathJoin_name:
  assumes "\<forall>d \<in> set ds. plainName d" and "plainName n"
  shows "pathJoin (dirPath rooted ds) n = dirPath rooted (ds @ [n])"
proof -
  have "splitSlash [] n = [n]" "joinSlash (ds @ [n]) \<noteq> []"
    using assms joinSlash_plain [of "ds @ [n]"] by (simp_all add: splitSlash_plain plainName_def)
  then show ?thesis unfolding pathJoin_elems [OF assms(1)] using assms(2)
    by (simp add: cleanElems_name dirPath_def Let_def del: cleanElems.simps)
qed

lemma pathJoin_up:
  assumes "\<forall>d \<in> set ds. plainName d" and "plainName n"
  shows "pathJoin (dirPath rooted ds) (''../'' @ n)
    = (if ds \<noteq> [] then dirPath rooted (butlast ds @ [n]) else if rooted then ''/'' @ n else ''../'' @ n)"
proof -
  have e: "splitSlash [] (''../'' @ n) = [''..'', n]" and n: "n \<noteq> []" "n \<noteq> ''.''" "n \<noteq> ''..''"
    using assms(2) splitSlash_slash [of "''..''" "[]" n] by (simp_all add: splitSlash_plain plainName_def)
  show ?thesis
  proof (cases ds rule: rev_cases)
    case Nil
    then show ?thesis unfolding pathJoin_elems [OF assms(1)] e using n by (auto simp: Let_def)
  next
    case (snoc xs x)
    then have "plainName x" and xs: "\<forall>d \<in> set (xs @ [n]). plainName d" using assms by auto
    then have "cleanElems rooted (rev ds) [''..'', n] = xs @ [n]" using snoc n by (simp add: plainName_def)
    moreover have "joinSlash (xs @ [n]) \<noteq> []" using joinSlash_plain [OF xs] by simp
    ultimately show ?thesis unfolding pathJoin_elems [OF assms(1)] e using snoc by (simp add: dirPath_def Let_def)
  qed
qed

text \<open>C40. What \<open>flasher unpack\<close> does to files with a bundle that opens: it makes the output directory
  (\<open>-C\<close>, the current one by default), writes the manifest and then one file for each entry of the
  manifest, in order, each with contents that have the entry's SHA-256. Every one of these is done
  without an error and the status is 0, or the first one that fails is the last one that is
  tried, and its error is the fatal one. The names are joined to the directory as they are: for a
  directory given as a clean path, absolute or relative, of any number of plain elements
  (the current directory has none), a plain name gives a file in the directory, and a name that begins with \<open>../\<close> a file next to the directory, outside of it.\<close>

theorem cmdUnpack_writes:
  assumes "cmdUnpack H args p = Some (r, p')" and "parseFlags unpackFlags args = Inr (fs, path # rest)"
    and "h_open H path (dev (lo p)) = Inr f" and "OpenBundle (h_unarchive H) (h_unmarshal H) f = Inr b"
    and "dir = strFlag fs ''C''"
    and "ops = [OpMkdirAll dir, OpWriteFile (pathJoin dir ''manifest.json'') (h_marshalIndent H (Manifest b))]
      @ map (\<lambda>m. OpWriteFile (pathJoin dir (fName m)) (dataOf b (fName m))) (mFiles (Manifest b))"
  shows "(r = Ok () \<and> fileOps p' = fileOps p @ map (\<lambda>q. (q, None)) ops
      \<or> (\<exists>k e. k < length ops \<and> r = Fail (Fatal (CliOs e)) \<and> fileOps p' = fileOps p @ map (\<lambda>q. (q, None)) (take k ops) @ [(ops ! k, Some e)]))
    \<and> (\<forall>m \<in> set (mFiles (Manifest b)). hexEncode (sha256Sum (dataOf b (fName m))) = fSHA256 m)
    \<and> (\<forall>rooted ds n. (\<forall>d \<in> set (n # ds). plainName d) \<and> dir = dirPath rooted ds \<longrightarrow>
         pathJoin dir n = dirPath rooted (ds @ [n])
       \<and> pathJoin dir (''../'' @ n) = (if ds \<noteq> [] then dirPath rooted (butlast ds @ [n]) else if rooted then ''/'' @ n else ''../'' @ n))"
proof (intro conjI ballI allI impI)
  have "unpackOps H (strFlag fs ''C'') b = ops" by (simp add: assms(5,6) unpackOps_def)
  then show "r = Ok () \<and> fileOps p' = fileOps p @ map (\<lambda>q. (q, None)) ops
      \<or> (\<exists>k e. k < length ops \<and> r = Fail (Fatal (CliOs e)) \<and> fileOps p' = fileOps p @ map (\<lambda>q. (q, None)) (take k ops) @ [(ops ! k, Some e)])"
    using cmdUnpack_run [OF assms(1-4)] by (auto simp: scriptRun_def)
next
  fix rooted ds n assume d: "(\<forall>d \<in> set (n # ds). plainName d) \<and> dir = dirPath rooted ds"
  then have names: "\<forall>d \<in> set ds. plainName d" "plainName n" by simp_all
  show "pathJoin dir n = dirPath rooted (ds @ [n])" using d pathJoin_name [OF names] by simp
  show "pathJoin dir (''../'' @ n) = (if ds \<noteq> [] then dirPath rooted (butlast ds @ [n]) else if rooted then ''/'' @ n else ''../'' @ n)"
    using d pathJoin_up [OF names] by simp
qed (rule opened_sums [OF assms(4)])

text \<open>An archive with an entry that climbs out of the directory.\<close>

definition evilManifest :: manifest where
  "evilManifest = emptyManifest\<lparr>mFiles := [\<lparr>fRole = ''app'', fName = ''../evil'', fOffset = 0, fSize = 1, fSHA256 = hexEncode (sha256Sum [1])\<rparr>]\<rparr>"

definition evilHost :: "(replay, (string \<times> bytes) list, (string \<times> bytes) list \<times> string option) host" where
  "evilHost = demoHost\<lparr>h_open := (\<lambda>_ _. Inr [(''manifest.json'', [123]), (''files/../evil'', [1])]), h_unmarshal := (\<lambda>_ _. Inr evilManifest)\<rparr>"

lemma cmdUnpack_writes_witness:
  "\<exists>p'. cmdUnpack evilHost [''-C=out'', ''x.fbundle''] (demoProc []) = Some (Ok (), p') \<and> (OpWriteFile ''evil'' [1], None) \<in> set (fileOps p')"
proof -
  let ?b = "\<lparr>Manifest = evilManifest, bdata = [(''../evil'', [1])]\<rparr>"
  let ?fs = "[''C'' \<mapsto> FStr ''out'']"
  have h: "h_open evilHost ''x.fbundle'' d = Inr [(''manifest.json'', [123]), (''files/../evil'', [1])]"
    "h_mkdirAll evilHost n d = (None, d)" "h_writeFile evilHost n x d = (None, d)" for n x d
    by (simp_all add: evilHost_def demoHost_def)
  have chk: "checkFiles (mFiles evilManifest) ?b = Inr ?b" by (simp add: evilManifest_def)
  have "openLoop (\<lambda>_ _. Inr evilManifest) [TarFile ''manifest.json'' [123], TarFile (''files/'' @ ''../evil'') [1]] \<lparr>Manifest = emptyManifest, bdata = []\<rparr> False
      = (Inr (?b, True) :: (string, string) openErr + _)"
    by (simp only: openLoop.simps(3) if_True sum.case fbundle.update_convs openLoop_file openLoop.simps(1) simp_thms) (simp add: HasPrefix_def TrimPrefix_def)
  then have b: "OpenBundle (h_unarchive evilHost) (h_unmarshal evilHost) [(''manifest.json'', [123]), (''files/../evil'', [1])] = Inr ?b"
    using chk by (simp add: OpenBundle_def evilHost_def demoHost_def HasPrefix_def TrimPrefix_def)
  have flags: "parseFlags unpackFlags [''-C=out'', ''x.fbundle''] = Inr (?fs, ''x.fbundle'' # [])"
  proof -
    have "parseOne unpackFlags [''-C=out'', ''x.fbundle''] = Inr (True, ?fs, [''x.fbundle''])"
      by (simp add: unpackFlags_def splitFlag_def Cut_def isBool_def assign_def setFlag_def)
    then show ?thesis by (subst parseFlags.simps) (simp add: parseFlags_plain)
  qed
  have sf: "strFlag ?fs ''C'' = ''out''" "plainName ''out''" "plainName ''evil''" by (simp_all add: strFlag_def plainName_def)
  obtain p' where cmd: "cmdUnpack evilHost [''-C=out'', ''x.fbundle''] (demoProc []) = Some (Ok (), p')"
    using b flags by (simp add: cmdUnpack_def unpackFlags_def withFlags_def world_def h orFatal_def sf osCall_def bind_io_def evilManifest_def Let_def)
  have "h_open evilHost ''x.fbundle'' (dev (lo (demoProc []))) = Inr [(''manifest.json'', [123]), (''files/../evil'', [1])]" by (rule h)
  note writes = cmdUnpack_writes [OF cmd flags this b refl refl, unfolded sf(1)]
  have "pathJoin ''out'' (''../'' @ ''evil'') = ''evil''"
    using conjunct2 [OF conjunct2 [OF writes], rule_format, of "''evil''" "[''out'']" False] sf(2,3) by (simp add: dirPath_def)
  moreover have "dataOf ?b ''../evil'' = [1]" by (simp add: dataOf_def)
  moreover obtain m where "mFiles evilManifest = [m]" "fName m = ''../evil''" by (simp add: evilManifest_def)
  ultimately show ?thesis using cmd conjunct1 [OF writes] by (intro exI [of _ p']) auto
qed

end
