(* ===== verification/Spec2Isabelle.thy ===== *)
theory Spec2Isabelle
  imports LoaderSpec Security Ops DigestTests NVSTests BundleSpec PartTable Detect Serial CliFiles
begin

text \<open>
  A model of \<open>flasher\<close>, a Go program that programs ESP32 boards over the serial bootloader
  protocol, with the theorems that make it correct.

  \<^bold>\<open>The program.\<close> The command line (\<open>cmd/flasher/main.go\<close>) opens a serial port (\<open>esp/transport.go\<close>,
  chosen by \<open>esp/detect.go\<close>) and drives a \<open>Loader\<close> (\<open>esp/loader.go\<close>): requests are packets
  (\<open>esp/protocol.go\<close>) in SLIP frames (\<open>esp/slip.go\<close>), a connection is a reset of the board followed
  by synchronisation. On top of requests are the identity of the chip (\<open>esp/chip.go\<close>,
  \<open>esp/macs.go\<close>, \<open>esp/security.go\<close>), the flasher stub uploaded to RAM (\<open>esp/stub.go\<close>), programming of
  the flash in raw or compressed blocks (\<open>esp/flash.go\<close>) and erasing and reading back
  (\<open>esp/ops.go\<close>). The images come from a build directory (\<open>partition/flasherargs.go\<close>) or from an
  archive (\<open>bundle/bundle.go\<close>). \<open>partition/table.go\<close> reads partition tables, \<open>nvs/nvs.go\<close> builds images
  of the key-value partition, \<open>esp/monitor.go\<close> copies serial output.

  \<^bold>\<open>How code becomes HOL.\<close> A Go call that returns \<open>(v, error)\<close> is a computation \<open>io\<close>
  (\<open>Prelude\<close>): a function from a state to an outcome (\<open>Ok v\<close>, \<open>Fail e\<close> or \<open>Panic\<close>) and a new state,
  or \<open>None\<close> when the call does not return. The state of package \<open>esp\<close> is the record \<open>loader\<close>: the fields
  of the Go struct, the hidden state of everything outside (port, clock, context), which only the
  operations of the record \<open>env\<close> change, and a ghost log of the calls made, from which \<open>sent\<close> is the
  bytes on the line. Theorems hold for every \<open>env\<close>. Machine integers are words, byte slices are
  lists of words, strings are lists of characters, errors are the datatype \<open>err\<close> with one
  constructor for each \<open>fmt.Errorf\<close>, wrapped errors included. Loops over data are recursive functions;
  loops that run until the port says so are \<^theory_text>\<open>partial_function (option)\<close>, and that they return is
  proved separately (\<open>Connect_returns\<close>), as is that one of them may not (\<open>noise_hangs_command\<close>). The
  bounded retries (7 connection attempts, 5 synchronisations, 7 echoes, 3 attempts for a block, 3
  frames for the greeting) are natural numbers that count down; no fuel is used anywhere else.

  \<^bold>\<open>The theories.\<close>
  \<^item> \<open>Prelude\<close>, \<open>Bytes\<close>: outcomes, computations and their rules; little-endian codecs, hexadecimal,
    the locale \<open>codec\<close>.
  \<^item> \<open>Slip\<close>, \<open>Protocol\<close>, \<open>Chip\<close>, \<open>Transport\<close>, \<open>Loader\<close>: the definitions of the files of the same name.
    \<open>LoaderRel\<close> proves once, in locales (\<open>io_preorder\<close>, \<open>read_rel\<close>, \<open>io_rel\<close>, \<open>chip_rel\<close>), that a preorder
    kept by every single call is kept by every operation; its interpretations say that the log only
    grows and the port stays open, that reading writes nothing, that mode, baud rate and target stay.
    \<open>LoaderLine\<close>: what a request puts on the line. \<open>LoaderLive\<close>: ports with finite input (locale
    \<open>finite_input\<close>), on which calls return. \<open>LoaderStream\<close>: ports that deliver a byte stream and links that
    answer (locales \<open>byte_stream\<close>, \<open>prompt_link\<close>), with a replaying port that meets them. \<open>LoaderSpec\<close>:
    the properties.
  \<^item> \<open>Macs\<close>, \<open>Security\<close>: identity and security information against their layouts.
  \<^item> \<open>Digest\<close>, \<open>Sha256\<close> (with \<open>DigestTests\<close>), \<open>Base64\<close>: the standard algorithms the program calls.
  \<^item> \<open>Flash\<close>: programming. \<open>ChipLine\<close> is the chip's end of the line as a specification (a receiver, and
    the locale \<open>executor\<close> of chips that ignore what is not a request), \<open>FlashChip\<close> the flash memory
    behind it with sector erase and NOR programming; \<open>FlashLine\<close> says which packets a successful
    write delivers, through any retries, and \<open>FlashChip\<close> concludes that the memory holds the image.
    \<open>FlashLink\<close> and \<open>FlashSpec\<close>: the verdict on a link that answers, and the order of a baud change.
    \<open>FlashIdle\<close>: every other operation leaves the flash alone, even when it fails half-way.
  \<^item> \<open>Stub\<close>, \<open>StubSpec\<close>: the upload against the chip's RAM, the mode, the greeting. \<open>Ops\<close>: erasing and
    reading back.
  \<^item> \<open>Detect\<close>, \<open>Monitor\<close>, \<open>Serial\<close>: choice of the port, the monitor, the adapter of the serial library.
  \<^item> \<open>GoText\<close>, \<open>FlagSet\<close>: what the program uses of Go's \<open>strings\<close>, \<open>strconv\<close>, \<open>path/filepath\<close> and \<open>flag\<close>.
  \<^item> \<open>NVS\<close>: the generator, with a page and the partition as records and every setter as a computation.
    \<open>NVSRead\<close> is a reader of the format, written from \<open>FORMAT.md\<close>; \<open>NVSPage\<close>, \<open>NVSSpec\<close> and \<open>NVSImage\<close>
    follow the bytes of a page, the entries a sequence of calls leaves, and the rendered image;
    \<open>NVSVerdict\<close> has the reachable partitions as an inductive set, their invariant and the outcome
    of every setter in them; \<open>NVSTests\<close> the round trip and the example of the format note.
  \<^item> \<open>PartTable\<close>, \<open>FlasherArgs\<close>, \<open>Bundle\<close>, \<open>BundleSpec\<close>: tables, build directories, archives.
  \<^item> \<open>Cli\<close>: the commands, over a process record (the loader, the ports opened, the operations on files, each
    with the error it ended with) and a host record of everything outside; \<open>os.Exit\<close> is the error of the computation. \<open>CliFlash\<close>: the
    flash command end to end. \<open>CliSpec\<close>: exit status, closing and reset, \<open>read\<close> and \<open>erase\<close>.
    \<open>CliFiles\<close>: \<open>pack\<close> then \<open>flash\<close>, and \<open>unpack\<close>.

  \<^bold>\<open>Parameters.\<close> Code that is not part of the program is an argument: the serial library and the
  port enumerator, the operating system's files and clock, \<open>encoding/json\<close>, \<open>compress/zlib\<close>,
  \<open>archive/tar\<close> and \<open>compress/gzip\<close>, the contents of the embedded stubs. What a theorem needs of them is
  a named hypothesis (\<open>deflates\<close>: what the compressor gives inflates to the data; \<open>archiverLaws\<close>:
  entries written are read back in order), and its witness instantiates them with concrete
  functions. The theorems about a link that answers (\<open>prompt_link\<close>) take a clock that stands still, so that no
  deadline passes on it; they do not pin the lengths of the timeouts, nor what happens when time runs out.

  \<^bold>\<open>Not modelled.\<close> Texts that are printed, among them the usage message and the wording of errors
  (\<open>list\<close>, \<open>chip-info\<close> and \<open>info\<close> return the values they print); the permissions of files and the
  closing of files; the beginning of an archive that a failing \<open>pack\<close> leaves in the file it has
  created; the goroutine that turns a signal into the cancellation of the monitor's
  context, which is the context's own behaviour here. White space and letter case are those of
  ASCII. \<open>sort.Slice\<close> is a stable sort here; equal offsets may come out in any order in Go. The data
  that \<open>ReadFlash\<close> returns next to a mismatch error is left out, as its callers drop it.
\<close>

end
